(* ===== verification/Prelude.thy ===== *)
theory Prelude
  imports Main "HOL-Library.Sublist"
begin

text \<open>
  What every theory of the development shares: text as UTF-8 bytes with the standard-library
  string routines the code calls, decimal formatting, paths, and the generic facts about lists
  and maps that the component proofs use.

  A Rust \<open>String\<close> is a byte sequence in UTF-8, and so is an Isabelle \<open>string\<close> here: one
  \<open>char\<close> per byte, \<open>length\<close> is Rust's \<open>len()\<close>.
\<close>

section \<open>Text\<close>

definition byte :: "char \<Rightarrow> nat" where
  "byte c = of_char c"

definition bytes :: "nat list \<Rightarrow> string" where
  "bytes = map char_of"

text \<open>The dash of the error display (U+2014), the double quote and the line feed.\<close>

definition em_dash :: string where
  "em_dash = bytes [226, 128, 148]"

definition dq :: string where
  "dq = [CHR 0x22]"

definition newline :: string where
  "newline = [CHR 0x0A]"

definition quoted :: "string \<Rightarrow> string" where
  "quoted s = dq @ s @ dq"

fun join_with :: "string \<Rightarrow> string list \<Rightarrow> string" where
  "join_with sep [] = []"
| "join_with sep [x] = x"
| "join_with sep (x # y # xs) = x @ sep @ join_with sep (y # xs)"

text \<open>Decimal digits, as \<open>Display\<close> writes an unsigned and a signed integer.\<close>

definition digit_char :: "nat \<Rightarrow> char" where
  "digit_char d = char_of (48 + d)"

fun show_nat :: "nat \<Rightarrow> string" where
  "show_nat n =
     (if n < 10 then [digit_char n] else show_nat (n div 10) @ [digit_char (n mod 10)])"

declare show_nat.simps [simp del, code]

definition show_int :: "int \<Rightarrow> string" where
  "show_int i = (if i < 0 then ''-'' @ show_nat (nat (- i)) else show_nat (nat i))"

definition ascii_lower_char :: "char \<Rightarrow> char" where
  "ascii_lower_char c =
     (if 65 \<le> byte c \<and> byte c \<le> 90 then char_of (byte c + 32) else c)"

definition to_ascii_lowercase :: "string \<Rightarrow> string" where
  "to_ascii_lowercase = map ascii_lower_char"

definition is_ascii_alphanumeric :: "char \<Rightarrow> bool" where
  "is_ascii_alphanumeric c \<longleftrightarrow>
     (48 \<le> byte c \<and> byte c \<le> 57) \<or> (65 \<le> byte c \<and> byte c \<le> 90) \<or>
     (97 \<le> byte c \<and> byte c \<le> 122)"

text \<open>
  \<open>{:?}\<close> of a string: quotes around it, and the escapes of \<open>char::escape_debug\<close> for the ASCII
  characters. Bytes of non-ASCII characters are passed through; Rust also escapes the non-printable
  ones among those. The result only ever reaches an error message.
\<close>

definition hex_char :: "nat \<Rightarrow> char" where
  "hex_char d = (if d < 10 then digit_char d else char_of (87 + d))"

definition escape_debug_char :: "char \<Rightarrow> string" where
  "escape_debug_char c =
     (let b = byte c in
      if b = 0 then [CHR 0x5C, CHR ''0'']
      else if b = 9 then [CHR 0x5C, CHR ''t'']
      else if b = 10 then [CHR 0x5C, CHR ''n'']
      else if b = 13 then [CHR 0x5C, CHR ''r'']
      else if b = 34 \<or> b = 92 then [CHR 0x5C, c]
      else if b < 16 then [CHR 0x5C, CHR ''u'', CHR 0x7B, hex_char b, CHR 0x7D]
      else if b < 32 \<or> b = 127
        then [CHR 0x5C, CHR ''u'', CHR 0x7B, hex_char (b div 16), hex_char (b mod 16), CHR 0x7D]
      else [c])"

definition debug_str :: "string \<Rightarrow> string" where
  "debug_str s = dq @ concat (map escape_debug_char s) @ dq"

subsection \<open>Whitespace: \<open>str::trim\<close>\<close>

text \<open>
  \<open>str::trim\<close> strips the characters with the Unicode property White_Space. In UTF-8 they are
  six one-byte, two two-byte and seventeen three-byte sequences; UTF-8 is self-synchronising, so
  matching the sequences at either end of the bytes is matching characters.
\<close>

definition ws1 :: "char \<Rightarrow> bool" where
  "ws1 a \<longleftrightarrow> (9 \<le> byte a \<and> byte a \<le> 13) \<or> byte a = 32"

definition ws2 :: "char \<Rightarrow> char \<Rightarrow> bool" where
  "ws2 a b \<longleftrightarrow> byte a = 194 \<and> (byte b = 133 \<or> byte b = 160)"

definition ws3 :: "char \<Rightarrow> char \<Rightarrow> char \<Rightarrow> bool" where
  "ws3 a b c \<longleftrightarrow>
     (byte a = 225 \<and> byte b = 154 \<and> byte c = 128) \<or>
     (byte a = 226 \<and> byte b = 128 \<and>
        ((128 \<le> byte c \<and> byte c \<le> 138) \<or> byte c = 168 \<or> byte c = 169 \<or> byte c = 175)) \<or>
     (byte a = 226 \<and> byte b = 129 \<and> byte c = 159) \<or>
     (byte a = 227 \<and> byte b = 128 \<and> byte c = 128)"

fun strip_ws :: "(char \<Rightarrow> char \<Rightarrow> bool) \<Rightarrow> (char \<Rightarrow> char \<Rightarrow> char \<Rightarrow> bool) \<Rightarrow> string \<Rightarrow> string" where
  "strip_ws w2 w3 [] = []"
| "strip_ws w2 w3 [a] = (if ws1 a then [] else [a])"
| "strip_ws w2 w3 [a, b] =
     (if ws1 a then strip_ws w2 w3 [b] else if w2 a b then [] else [a, b])"
| "strip_ws w2 w3 (a # b # c # s) =
     (if ws1 a then strip_ws w2 w3 (b # c # s)
      else if w2 a b then strip_ws w2 w3 (c # s)
      else if w3 a b c then strip_ws w2 w3 s
      else a # b # c # s)"

definition trim_start :: "string \<Rightarrow> string" where
  "trim_start s = strip_ws ws2 ws3 s"

definition trim_end :: "string \<Rightarrow> string" where
  "trim_end s = rev (strip_ws (\<lambda>b a. ws2 a b) (\<lambda>c b a. ws3 a b c) (rev s))"

definition trim :: "string \<Rightarrow> string" where
  "trim s = trim_end (trim_start s)"

text \<open>\<open>s.trim().is_empty()\<close>, the test the code uses for "nothing was sent".\<close>

definition is_blank :: "string \<Rightarrow> bool" where
  "is_blank s \<longleftrightarrow> trim s = []"

subsection \<open>\<open>str::lines\<close>\<close>

text \<open>
  Splits at line feeds; the last line counts only when it is not empty; one carriage return before
  a line feed goes with it.
\<close>

definition strip_cr :: "string \<Rightarrow> string" where
  "strip_cr s = (if s \<noteq> [] \<and> last s = CHR 0x0D then butlast s else s)"

fun lines_acc :: "string \<Rightarrow> string \<Rightarrow> string list" where
  "lines_acc cur [] = (if cur = [] then [] else [cur])"
| "lines_acc cur (c # s) =
     (if c = CHR 0x0A then strip_cr cur # lines_acc [] s else lines_acc (cur @ [c]) s)"

definition lines :: "string \<Rightarrow> string list" where
  "lines s = lines_acc [] s"

subsection \<open>UTF-8 validity: what \<open>read_to_string\<close> accepts\<close>

definition cont_byte :: "char \<Rightarrow> bool" where
  "cont_byte c \<longleftrightarrow> 128 \<le> byte c \<and> byte c \<le> 191"

definition second_ok :: "nat \<Rightarrow> char \<Rightarrow> bool" where
  "second_ok b c \<longleftrightarrow>
     cont_byte c \<and> (b = 224 \<longrightarrow> 160 \<le> byte c) \<and> (b = 237 \<longrightarrow> byte c \<le> 159) \<and>
     (b = 240 \<longrightarrow> 144 \<le> byte c) \<and> (b = 244 \<longrightarrow> byte c \<le> 143)"

fun utf8_valid :: "string \<Rightarrow> bool" where
  "utf8_valid [] \<longleftrightarrow> True"
| "utf8_valid (a # s) \<longleftrightarrow>
     (if byte a < 128 then utf8_valid s
      else case s of
        [] \<Rightarrow> False
      | b # s2 \<Rightarrow>
          if 194 \<le> byte a \<and> byte a \<le> 223 then cont_byte b \<and> utf8_valid s2
          else case s2 of
            [] \<Rightarrow> False
          | c # s3 \<Rightarrow>
              if 224 \<le> byte a \<and> byte a \<le> 239
              then second_ok (byte a) b \<and> cont_byte c \<and> utf8_valid s3
              else case s3 of
                [] \<Rightarrow> False
              | d # s4 \<Rightarrow>
                  240 \<le> byte a \<and> byte a \<le> 244 \<and> second_ok (byte a) b \<and> cont_byte c \<and>
                  cont_byte d \<and> utf8_valid s4)"

declare utf8_valid.simps(2) [simp del]

section \<open>Paths\<close>

text \<open>
  \<open>PathBuf::join\<close> and \<open>Path::parent\<close> on Unix paths without repeated or trailing slashes, the
  form every path of the program has.
\<close>

definition path_join :: "string \<Rightarrow> string \<Rightarrow> string" where
  "path_join root child =
     (if child \<noteq> [] \<and> hd child = CHR ''/'' then child
      else if root = [] then child
      else if last root = CHR ''/'' then root @ child
      else root @ ''/'' @ child)"

definition file_name :: "string \<Rightarrow> string" where
  "file_name p = rev (takeWhile (\<lambda>c. c \<noteq> CHR ''/'') (rev p))"

definition path_parent :: "string \<Rightarrow> string option" where
  "path_parent p =
     (if p = [] \<or> p = ''/'' then None
      else let up = rev (dropWhile (\<lambda>c. c \<noteq> CHR ''/'') (rev p))
           in Some (if up = ''/'' then up else butlast up))"

text \<open>
  The extension of a file name: what follows the last dot, when there is a dot that is not the
  name's first character.
\<close>

definition name_stem :: "string \<Rightarrow> string" where
  "name_stem n =
     (let up = rev (dropWhile (\<lambda>c. c \<noteq> CHR ''.'') (rev n))
      in if length up \<le> 1 then n else butlast up)"

definition name_extension :: "string \<Rightarrow> string option" where
  "name_extension n =
     (let up = rev (dropWhile (\<lambda>c. c \<noteq> CHR ''.'') (rev n))
      in if length up \<le> 1 then None else Some (drop (length up) n))"

definition with_extension :: "string \<Rightarrow> string \<Rightarrow> string" where
  "with_extension p ext =
     take (length p - length (file_name p)) p @ name_stem (file_name p) @ ''.'' @ ext"

text \<open>The parts of a path between its slashes.\<close>

fun segments :: "string \<Rightarrow> string list" where
  "segments [] = [[]]"
| "segments (c # s) =
     (if c = CHR ''/'' then [] # segments s
      else (case segments s of [] \<Rightarrow> [[c]] | p # ps \<Rightarrow> (c # p) # ps))"

lemma segments_nonempty [simp]: "segments s \<noteq> []"
  by (cases s) (auto split: list.split)

lemma segments_plain: "CHR ''/'' \<notin> set s \<Longrightarrow> segments s = [s]"
  by (induction s) auto

lemma segments_slash: "CHR ''/'' \<notin> set s \<Longrightarrow> segments (s @ CHR ''/'' # t) = s # segments t"
  by (induction s) auto

section \<open>Generic facts\<close>

lemma byte_inject [simp]: "byte a = byte b \<longleftrightarrow> a = b"
  by (simp add: byte_def)

lemma byte_less [simp]: "byte c < 256"
  by (simp add: byte_def)

lemma map_of_filter_distinct:
  "distinct (map fst xs) \<Longrightarrow> (k, v) \<in> set xs \<Longrightarrow> map_of xs k = Some v"
  by simp

lemma strip_ws_stop:
  "\<not> ws1 a \<Longrightarrow> (\<And>b. \<not> w2 a b) \<Longrightarrow> (\<And>b c. \<not> w3 a b c) \<Longrightarrow> strip_ws w2 w3 (a # s) = a # s"
  by (cases s; cases "tl s") auto

lemma trim_end_stop:
  "\<not> ws1 c \<Longrightarrow> byte c < 128 \<Longrightarrow> trim_end (s @ [c]) = s @ [c]"
  by (simp add: trim_end_def strip_ws_stop ws2_def ws3_def)

lemma strip_ws_no_change:
  "s \<noteq> [] \<Longrightarrow> byte (hd s) < 128 \<Longrightarrow> \<not> ws1 (hd s) \<Longrightarrow> trim_start s = s"
  by (cases s rule: strip_ws.cases [of "(ws2, ws3, s)" for s, simplified])
    (auto simp: trim_start_def ws2_def ws3_def)

text \<open>A valid prefix can be dropped: validity of the rest decides.\<close>

lemma utf8_append: "utf8_valid a \<Longrightarrow> utf8_valid (a @ b) = utf8_valid b"
proof (induction a rule: length_induct)
  case (1 a)
  show ?case
  proof (cases a)
    case Nil then show ?thesis by simp
  next
    case a: (Cons c s)
    have IH: "utf8_valid (t @ b) = utf8_valid b" if "utf8_valid t" "length t \<le> length s" for t
      using 1(1) that a by auto
    note u = utf8_valid.simps(2) [of c]
    show ?thesis
    proof (cases "byte c < 128")
      case True
      with 1(2) show ?thesis by (simp add: a u IH)
    next
      case F1: False
      with 1(2) obtain d s2 where s: "s = d # s2"
        by (cases s) (auto simp: a u)
      show ?thesis
      proof (cases "194 \<le> byte c \<and> byte c \<le> 223")
        case True
        with F1 1(2) show ?thesis by (simp add: a u s IH)
      next
        case F2: False
        with F1 1(2) obtain e s3 where s2: "s2 = e # s3"
          by (cases s2) (auto simp: a u s)
        show ?thesis
        proof (cases "224 \<le> byte c \<and> byte c \<le> 239")
          case True
          with F1 F2 1(2) show ?thesis by (simp add: a u s s2 IH)
        next
          case F3: False
          with F1 F2 1(2) obtain f s4 where s3: "s3 = f # s4"
            by (cases s3) (auto simp: a u s s2)
          from F1 F2 F3 1(2) show ?thesis by (auto simp: a u s s2 s3 IH split: if_splits)
        qed
      qed
    qed
  qed
qed

text \<open>
  A text made of terminated lines and an unterminated rest splits into those lines and that rest.
\<close>

definition log_text :: "string list \<Rightarrow> string" where
  "log_text ts = concat (map (\<lambda>t. t @ newline) ts)"

lemma log_text_simps [simp]:
  "log_text [] = []"
  "log_text (t # ts) = t @ newline @ log_text ts"
  "log_text (xs @ ys) = log_text xs @ log_text ys"
  by (simp_all add: log_text_def)

lemma lines_acc_line:
  "CHR 0x0A \<notin> set t \<Longrightarrow>
     lines_acc cur (t @ CHR 0x0A # s) = strip_cr (cur @ t) # lines_acc [] s"
  by (induction t arbitrary: cur) auto

lemma lines_acc_rest:
  "CHR 0x0A \<notin> set t \<Longrightarrow> lines_acc cur t = (if cur @ t = [] then [] else [cur @ t])"
  by (induction t arbitrary: cur) auto

lemma lines_log_text:
  "(\<And>t. t \<in> set ts \<Longrightarrow> CHR 0x0A \<notin> set t) \<Longrightarrow> CHR 0x0A \<notin> set rest \<Longrightarrow>
   lines (log_text ts @ rest) = map strip_cr ts @ (if rest = [] then [] else [rest])"
  by (induction ts)
    (simp_all add: lines_def newline_def lines_acc_line lines_acc_rest)

lemma utf8_newline [simp]: "utf8_valid newline" "utf8_valid (CHR 0x0A # s) = utf8_valid s"
  by (simp_all add: newline_def utf8_valid.simps(2) byte_def)

lemma utf8_log_text:
  "(\<And>t. t \<in> set ts \<Longrightarrow> utf8_valid t) \<Longrightarrow> utf8_valid (log_text ts)"
  by (induction ts) (simp_all add: utf8_append)

lemma log_text_ends_cleanly: "log_text ts = [] \<or> last (log_text ts) = CHR 0x0A"
  by (induction ts rule: rev_induct) (simp_all add: newline_def)

end
