(* ===== verification/Errors.thy ===== *)
theory Errors
  imports Prelude
begin

text \<open>
  The typed errors (src/core/error.rs), the classification of Google failures as transient or
  permanent (src/core/retry.rs) and the validation of the service-account credentials
  (src/core/auth.rs).

  A \<open>Result<T, AlmanacError>\<close> is \<open>almanac_error + 'a\<close>: \<open>Inl\<close> the error, \<open>Inr\<close> the value.
  Where the code can also panic the result is an \<open>outcome\<close>, with the panic as a value of its own.
\<close>

section \<open>Errors\<close>

datatype almanac_error =
    Config (message: string) (remedy: string)
  | is_ProfileValidation: ProfileValidation (message: string) (remedy: string)
  | Auth (message: string) (remedy: string) (transient: bool)
  | GoogleApi (message: string) (remedy: string) (transient: bool)

type_synonym 'a result = "almanac_error + 'a"

text \<open>\<open>#[error("{message} - {remedy}")]\<close> on every variant.\<close>

definition error_display :: "almanac_error \<Rightarrow> string" where
  "error_display e = message e @ '' '' @ em_dash @ '' '' @ remedy e"

fun error_is_transient :: "almanac_error \<Rightarrow> bool" where
  "error_is_transient (Auth m r t) = t"
| "error_is_transient (GoogleApi m r t) = t"
| "error_is_transient _ = False"

datatype 'a outcome = Ok 'a | Err almanac_error | Panic

fun lift_result :: "'a result \<Rightarrow> 'a outcome" where
  "lift_result (Inl e) = Err e"
| "lift_result (Inr a) = Ok a"

fun bind_outcome :: "'a outcome \<Rightarrow> ('a \<Rightarrow> 'b outcome) \<Rightarrow> 'b outcome" where
  "bind_outcome (Ok a) f = f a"
| "bind_outcome (Err e) f = Err e"
| "bind_outcome Panic f = Panic"

fun bind_result :: "'a result \<Rightarrow> ('a \<Rightarrow> 'b result) \<Rightarrow> 'b result" where
  "bind_result (Inl e) f = Inl e"
| "bind_result (Inr a) f = f a"

named_theorems outcome_simps \<open>inversion of the error plumbing\<close>

lemma bind_outcome_Ok [outcome_simps]:
  "bind_outcome m f = Ok b \<longleftrightarrow> (\<exists>a. m = Ok a \<and> f a = Ok b)"
  by (cases m) auto

lemma bind_outcome_Err [outcome_simps]:
  "bind_outcome m f = Err e \<longleftrightarrow> m = Err e \<or> (\<exists>a. m = Ok a \<and> f a = Err e)"
  by (cases m) auto

lemma bind_outcome_Panic [outcome_simps]:
  "bind_outcome m f = Panic \<longleftrightarrow> m = Panic \<or> (\<exists>a. m = Ok a \<and> f a = Panic)"
  by (cases m) auto

lemma lift_result_inv [outcome_simps]:
  "lift_result r = Ok a \<longleftrightarrow> r = Inr a"
  "lift_result r = Err e \<longleftrightarrow> r = Inl e"
  "lift_result r \<noteq> Panic"
  by (cases r; simp)+

lemma bind_result_Inr [outcome_simps]:
  "bind_result m f = Inr b \<longleftrightarrow> (\<exists>a. m = Inr a \<and> f a = Inr b)"
  by (cases m) auto

lemma bind_result_Inl [outcome_simps]:
  "bind_result m f = Inl e \<longleftrightarrow> m = Inl e \<or> (\<exists>a. m = Inr a \<and> f a = Inl e)"
  by (cases m) auto

section \<open>Transient or permanent\<close>

text \<open>\<open>is_transient(status: u16, reason: Option<&str>)\<close> of src/core/retry.rs.\<close>

definition retry_is_transient :: "nat \<Rightarrow> string option \<Rightarrow> bool" where
  "retry_is_transient status reason =
     (if status = 429 then True
      else if 500 \<le> status \<and> status \<le> 599 then True
      else if status = 403 then
        reason = Some ''rateLimitExceeded'' \<or> reason = Some ''userRateLimitExceeded'' \<or>
        reason = Some ''quotaExceeded''
      else False)"

text \<open>
  Google's error body, as the three private structs declare it. \<open>parse\<close> stands for
  \<open>serde_json::from_str::<GoogleErrorBody>(..).ok()\<close>.
\<close>

record google_error_item =
  item_reason :: "string option"

record google_error_detail =
  detail_errors :: "google_error_item list"

record google_error_body =
  body_error :: google_error_detail

definition extract_reason :: "(string \<Rightarrow> google_error_body option) \<Rightarrow> string \<Rightarrow> string option" where
  "extract_reason parse body =
     (case parse body of
        None \<Rightarrow> None
      | Some b \<Rightarrow>
          (case detail_errors (body_error b) of
             [] \<Rightarrow> None
           | item # _ \<Rightarrow> item_reason item))"

lemma retry_is_transient_iff:
  "retry_is_transient status reason \<longleftrightarrow>
     status = 429 \<or> status \<in> {500..599} \<or>
     status = 403 \<and>
       reason \<in> Some ` {''rateLimitExceeded'', ''userRateLimitExceeded'', ''quotaExceeded''}"
  by (auto simp: retry_is_transient_def)

text \<open>A 403 whose body says nothing readable is permanent: the classification fails closed.\<close>

lemma unreadable_403_is_permanent:
  "parse body = None \<Longrightarrow> \<not> retry_is_transient 403 (extract_reason parse body)"
  by (simp add: retry_is_transient_def extract_reason_def)

section \<open>Service-account credentials\<close>

record credentials =
  client_email :: string
  private_key :: string
  token_url :: string

definition latch_remedy :: string where
  "latch_remedy =
     ''run this process via `latch run --` with the almanac service-account secrets loaded''"

fun ok_or :: "'a option \<Rightarrow> almanac_error \<Rightarrow> 'a result" where
  "ok_or None e = Inl e"
| "ok_or (Some a) e = Inr a"

lemma ok_or_inv [outcome_simps]:
  "ok_or v e = Inr a \<longleftrightarrow> v = Some a"
  "ok_or v e = Inl e' \<longleftrightarrow> v = None \<and> e' = e"
  by (cases v; auto)+

definition validate_credentials ::
  "string option \<Rightarrow> string option \<Rightarrow> string option \<Rightarrow> credentials result" where
  "validate_credentials email key url =
     bind_result (ok_or email (Auth ''CLIENT_EMAIL is not set'' latch_remedy False)) (\<lambda>email.
     bind_result (ok_or key (Auth ''PRIVATE_KEY is not set'' latch_remedy False)) (\<lambda>key.
     bind_result
       (ok_or url
          (Auth ''TOKEN_URI is not set''
            ''set TOKEN_URI, typically https://oauth2.googleapis.com/token'' False)) (\<lambda>url.
     Inr \<lparr>client_email = email, private_key = key, token_url = url\<rparr>)))"

text \<open>
  Credentials come out exactly when all three values were found; otherwise the error names the
  first one missing, in the order the code asks, and is permanent.
\<close>

lemma validate_credentials_ok:
  "validate_credentials e k u = Inr c \<longleftrightarrow>
     e = Some (client_email c) \<and> k = Some (private_key c) \<and> u = Some (token_url c)"
  by (cases c) (auto simp: validate_credentials_def outcome_simps)

lemma validate_credentials_err:
  "validate_credentials e k u = Inl err \<Longrightarrow>
     \<not> error_is_transient err \<and>
     message err =
       (if e = None then ''CLIENT_EMAIL is not set''
        else if k = None then ''PRIVATE_KEY is not set'' else ''TOKEN_URI is not set'')"
  by (cases e; cases k; cases u) (auto simp: validate_credentials_def)

end
