(* ===== verification/Profile.thy ===== *)
theory Profile
  imports Errors
begin

text \<open>
  Mapping profiles: src/core/profile.rs. The two readings of a TOML text the code makes, as a table
  and as a \<open>Profile\<close>, belong to the \<open>toml\<close> crate and are the fields of the parameter
  \<open>toml_crate\<close>; the set of IANA zone names belongs to \<open>chrono_tz\<close> and is the parameter
  \<open>tz_known\<close>.
\<close>

section \<open>The profile\<close>

definition SUPPORTED_SCHEMA_VERSION :: nat where
  "SUPPORTED_SCHEMA_VERSION = 2"

definition FALLBACK_DURATION_MINUTES :: int where
  "FALLBACK_DURATION_MINUTES = 60"

record profile =
  schema_version :: nat
  source_id :: string
  target_calendar_id :: string
  timezone :: string
  default_duration_minutes :: "int option"

definition default_timezone :: string where
  "default_timezone = ''Europe/Brussels''"

datatype toml_value = TomlInteger int | TomlOther

fun toml_as_integer :: "toml_value \<Rightarrow> int option" where
  "toml_as_integer (TomlInteger i) = Some i"
| "toml_as_integer TomlOther = None"

record toml_crate =
  toml_table :: "string \<Rightarrow> (string \<rightharpoonup> toml_value) option"
  toml_profile :: "string \<Rightarrow> string + profile"

text \<open>\<open>table.get("schema_version")\<close> read as an integer, the step both functions below begin with.\<close>

definition declared_version :: "toml_crate \<Rightarrow> string \<Rightarrow> int option" where
  "declared_version T s =
     Option.bind (toml_table T s) (\<lambda>t. Option.bind (t ''schema_version'') toml_as_integer)"

text \<open>The cast to \<open>u32\<close> keeps the low 32 bits.\<close>

definition outdated_version :: "toml_crate \<Rightarrow> string \<Rightarrow> nat option" where
  "outdated_version T s =
     (case declared_version T s of
        None \<Rightarrow> None
      | Some v \<Rightarrow>
          if v \<noteq> int SUPPORTED_SCHEMA_VERSION then Some (nat (max v 0) mod 2 ^ 32) else None)"

section \<open>Names that are safe in a URL and as a file name\<close>

definition source_id_char :: "char \<Rightarrow> bool" where
  "source_id_char c \<longleftrightarrow> is_ascii_alphanumeric c \<or> c \<in> {CHR ''.'', CHR ''-'', CHR ''_''}"

definition source_id_is_safe :: "string \<Rightarrow> bool" where
  "source_id_is_safe s \<longleftrightarrow>
     s \<noteq> [] \<and> \<not> prefix ''.'' s \<and> list_all source_id_char s"

lemma source_id_char_excludes:
  "source_id_char c \<Longrightarrow> c \<noteq> CHR '':'' \<and> c \<noteq> CHR ''/'' \<and> c \<noteq> CHR 0x00 \<and> c \<noteq> CHR 0x22 \<and> byte c < 128"
  by (auto simp: source_id_char_def is_ascii_alphanumeric_def byte_def)

lemma safe_id_chars:
  assumes "source_id_is_safe s"
  shows "CHR '':'' \<notin> set s" "CHR ''/'' \<notin> set s" "CHR 0x22 \<notin> set s" "s \<noteq> []"
  using assms source_id_char_excludes
  by (auto simp: source_id_is_safe_def list_all_iff)

section \<open>Parsing and validation\<close>

definition validate_timezone :: "(string \<Rightarrow> bool) \<Rightarrow> string \<Rightarrow> string \<Rightarrow> unit result" where
  "validate_timezone tz_known tz origin =
     (if \<not> tz_known tz
      then Inl (ProfileValidation
        (origin @ '': '' @ debug_str tz @ '' is not an IANA timezone name'')
        ''use a name like Europe/Brussels or UTC'')
      else Inr ())"

definition v1_remedy :: string where
  "v1_remedy =
     ''this is a v1 profile: it names payload fields and per-event settings, which '' @
     ''almanac 2.0 takes from the call itself. Reduce it to schema_version, '' @
     ''source_id, target_calendar_id and optionally timezone and '' @
     ''default_duration_minutes; have the source send almanac's event shape, or put '' @
     ''HTTPSwitchboard in front of it. See docs/USER_GUIDE.md.''"

definition unsupported_version :: "int \<Rightarrow> string \<Rightarrow> almanac_error" where
  "unsupported_version v origin =
     ProfileValidation
       (origin @ '': schema_version '' @ show_int v @ '' is not supported (this build reads '' @
        show_nat SUPPORTED_SCHEMA_VERSION @ '')'')
       (if v = 1 then v1_remedy
        else ''set schema_version = '' @ show_nat SUPPORTED_SCHEMA_VERSION @ '' in '' @ origin)"

text \<open>The checks after deserialisation, in the order of the code; the first that fails answers.\<close>

definition validate_profile :: "(string \<Rightarrow> bool) \<Rightarrow> profile \<Rightarrow> string \<Rightarrow> profile result" where
  "validate_profile tz_known p origin =
     (if is_blank (source_id p) then
        Inl (ProfileValidation (origin @ '': source_id is empty'')
          (''set a non-empty, stable source_id in '' @ origin @ '' '' @ em_dash @ '' see AR15''))
      else if \<not> source_id_is_safe (source_id p) then
        Inl (ProfileValidation
          (origin @ '': source_id '' @ quoted (source_id p) @
           '' contains characters that are not allowed'')
          (''use only letters, digits, '.', '-' and '_' in the source_id in '' @ origin @
           '', and do not start it with a dot '' @ em_dash @
           '' it is both a URL segment and the name of this profile's file on disk''))
      else if is_blank (target_calendar_id p) then
        Inl (ProfileValidation (origin @ '': target_calendar_id is empty'')
          (''set target_calendar_id in '' @ origin @
           '' to the calendar this source's events should land on''))
      else bind_result (validate_timezone tz_known (timezone p) origin) (\<lambda>_.
        case default_duration_minutes p of
          Some minutes \<Rightarrow>
            if minutes \<le> 0 then
              Inl (ProfileValidation
                (origin @ '': default_duration_minutes is '' @ show_int minutes)
                ''a default length must be greater than zero, or absent'')
            else Inr p
        | None \<Rightarrow> Inr p))"

definition version_refusal :: "toml_crate \<Rightarrow> string \<Rightarrow> string \<Rightarrow> almanac_error option" where
  "version_refusal T toml_str origin =
     (case declared_version T toml_str of
        None \<Rightarrow> None
      | Some v \<Rightarrow>
          if v \<noteq> int SUPPORTED_SCHEMA_VERSION then Some (unsupported_version v origin) else None)"

definition profile_parse ::
  "toml_crate \<Rightarrow> (string \<Rightarrow> bool) \<Rightarrow> string \<Rightarrow> string \<Rightarrow> profile result" where
  "profile_parse T tz_known toml_str origin =
     (case version_refusal T toml_str origin of
        Some e \<Rightarrow> Inl e
      | None \<Rightarrow>
          (case toml_profile T toml_str of
             Inl e \<Rightarrow> Inl (ProfileValidation (origin @ '': failed to parse as TOML: '' @ e)
                                           (''fix the syntax error in '' @ origin))
           | Inr p \<Rightarrow> validate_profile tz_known p origin))"

text \<open>What every profile the service holds satisfies.\<close>

definition profile_wf :: "(string \<Rightarrow> bool) \<Rightarrow> profile \<Rightarrow> bool" where
  "profile_wf tz_known p \<longleftrightarrow>
     source_id_is_safe (source_id p) \<and> \<not> is_blank (source_id p) \<and>
     \<not> is_blank (target_calendar_id p) \<and> tz_known (timezone p) \<and>
     (\<forall>m. default_duration_minutes p = Some m \<longrightarrow> 0 < m)"

lemma validate_timezone_inv [outcome_simps]:
  "validate_timezone tz s origin = Inr u \<longleftrightarrow> tz s"
  by (auto simp: validate_timezone_def)

lemma validate_profile_inv:
  "validate_profile tz p origin = Inr q \<longleftrightarrow> q = p \<and> profile_wf tz p"
  by (auto simp: validate_profile_def profile_wf_def outcome_simps split: option.splits if_splits)

lemma profile_parse_inv:
  "profile_parse T tz s origin = Inr p \<longleftrightarrow>
     toml_profile T s = Inr p \<and> profile_wf tz p \<and>
     (\<forall>v. declared_version T s = Some v \<longrightarrow> v = int SUPPORTED_SCHEMA_VERSION)"
  by (auto simp: profile_parse_def version_refusal_def validate_profile_inv
      split: option.splits sum.splits if_splits)

text \<open>A file another version wrote is told apart from a broken one, and never parsed as current.\<close>

lemma outdated_not_parsed:
  "outdated_version T s = Some v \<Longrightarrow>
     \<exists>w. declared_version T s = Some w \<and>
         profile_parse T tz s origin = Inl (unsupported_version w origin)"
  by (auto simp: outdated_version_def profile_parse_def version_refusal_def
      split: option.splits if_splits)

lemma outdated_iff:
  "(outdated_version T s \<noteq> None) \<longleftrightarrow>
     (\<exists>v. declared_version T s = Some v \<and> v \<noteq> int SUPPORTED_SCHEMA_VERSION)"
  by (auto simp: outdated_version_def split: option.splits)

section \<open>Unique identities\<close>

fun unique_from :: "(string \<rightharpoonup> nat) \<Rightarrow> nat \<Rightarrow> profile list \<Rightarrow> unit result" where
  "unique_from seen i [] = Inr ()"
| "unique_from seen i (p # ps) =
     (case seen (source_id p) of
        Some first \<Rightarrow>
          Inl (ProfileValidation
            (''profiles at index '' @ show_nat first @ '' and '' @ show_nat i @
             '' both use source_id '' @ quoted (source_id p))
            (''give each profile a unique source_id '' @ em_dash @
             '' it is the identity used for upsert lookups (AR15) and must never be shared''))
      | None \<Rightarrow> unique_from (seen(source_id p \<mapsto> i)) (Suc i) ps)"

definition validate_unique_source_ids :: "profile list \<Rightarrow> unit result" where
  "validate_unique_source_ids ps = unique_from Map.empty 0 ps"

lemma unique_from_inv:
  "unique_from seen i ps = Inr u \<longleftrightarrow>
     distinct (map source_id ps) \<and> dom seen \<inter> set (map source_id ps) = {}"
proof (induction ps arbitrary: seen i)
  case Nil
  then show ?case by simp
next
  case (Cons p ps)
  show ?case
  proof (cases "seen (source_id p)")
    case None
    then have "source_id p \<notin> dom seen" by auto
    moreover have "dom (seen(source_id p \<mapsto> i)) = insert (source_id p) (dom seen)" by simp
    ultimately show ?thesis
      using None Cons.IH [of "seen(source_id p \<mapsto> i)" "Suc i"]
      by (simp only: unique_from.simps option.simps list.map distinct.simps list.set) blast
  next
    case (Some first)
    then show ?thesis by auto
  qed
qed

lemma validate_unique_iff:
  "validate_unique_source_ids ps = Inr u \<longleftrightarrow> distinct (map source_id ps)"
  by (simp add: validate_unique_source_ids_def unique_from_inv)

section \<open>The profile the dashboard writes\<close>

definition default_profile_toml :: "string \<Rightarrow> string \<Rightarrow> string" where
  "default_profile_toml sid cal =
     join_with newline
       [''# Written from the dashboard.'',
        ''#'',
        ''# A profile says where a source's events land. What each event IS '' @ em_dash,
        ''# its title, start, length, colour, whether it is all-day '' @ em_dash @ '' comes from'',
        ''# the source in the call itself. See docs/USER_GUIDE.md.'',
        '''',
        ''schema_version = '' @ show_nat SUPPORTED_SCHEMA_VERSION,
        ''source_id = '' @ quoted sid,
        ''target_calendar_id = '' @ quoted cal,
        ''timezone = '' @ quoted ''Europe/Brussels'',
        ''default_duration_minutes = '' @ show_int FALLBACK_DURATION_MINUTES,
        '''']"

end
