(* ===== verification/Json.thy ===== *)
theory Json
  imports Prelude
begin

text \<open>
  JSON values as \<open>serde_json::Value\<close> has them, the two accessors the code uses
  (\<open>Value::get\<close>, \<open>Value::as_str\<close>), and readers for the shapes a derived \<open>Deserialize\<close>
  accepts: the derive attributes of a struct in the source fix which of them apply.
\<close>

datatype json =
    JNull
  | JBool bool
  | JInt int
  | JFloat string
  | JStr string
  | JArr "json list"
  | JObj "(string \<times> json) list"

fun json_get :: "json \<Rightarrow> string \<Rightarrow> json option" where
  "json_get (JObj kvs) k = map_of kvs k"
| "json_get _ k = None"

fun json_as_str :: "json \<Rightarrow> string option" where
  "json_as_str (JStr s) = Some s"
| "json_as_str _ = None"

fun json_as_array :: "json \<Rightarrow> json list option" where
  "json_as_array (JArr xs) = Some xs"
| "json_as_array _ = None"

text \<open>\<open>Value\<close> indexed by a key: \<open>Null\<close> when there is none.\<close>

definition json_index :: "json \<Rightarrow> string \<Rightarrow> json" where
  "json_index v k = (case json_get v k of Some x \<Rightarrow> x | None \<Rightarrow> JNull)"

section \<open>Readers for field types\<close>

text \<open>\<open>None\<close> is a deserialisation error.\<close>

fun de_string :: "json \<Rightarrow> string option" where
  "de_string (JStr s) = Some s"
| "de_string _ = None"

fun de_bool :: "json \<Rightarrow> bool option" where
  "de_bool (JBool b) = Some b"
| "de_bool _ = None"

definition i64_min :: int where
  "i64_min = - (2 ^ 63)"

definition i64_max :: int where
  "i64_max = 2 ^ 63 - 1"

fun de_i64 :: "json \<Rightarrow> int option" where
  "de_i64 (JInt i) = (if i64_min \<le> i \<and> i \<le> i64_max then Some i else None)"
| "de_i64 _ = None"

fun de_u32 :: "json \<Rightarrow> nat option" where
  "de_u32 (JInt i) = (if 0 \<le> i \<and> i < 2 ^ 32 then Some (nat i) else None)"
| "de_u32 _ = None"

fun de_u64 :: "json \<Rightarrow> nat option" where
  "de_u64 (JInt i) = (if 0 \<le> i \<and> i < 2 ^ 64 then Some (nat i) else None)"
| "de_u64 _ = None"

fun de_opt :: "(json \<Rightarrow> 'a option) \<Rightarrow> json \<Rightarrow> 'a option option" where
  "de_opt f JNull = Some None"
| "de_opt f v = map_option Some (f v)"

fun de_vec :: "(json \<Rightarrow> 'a option) \<Rightarrow> json \<Rightarrow> 'a list option" where
  "de_vec f (JArr xs) = those (map f xs)"
| "de_vec f _ = None"

fun de_string_map :: "json \<Rightarrow> (string \<times> string) list option" where
  "de_string_map (JObj kvs) =
     those (map (\<lambda>(k, v). map_option (Pair k) (de_string v)) kvs)"
| "de_string_map _ = None"

section \<open>Readers for structs\<close>

text \<open>A required field, and one with \<open>#[serde(default)]\<close> (or of type \<open>Option\<close>).\<close>

definition field :: "(json \<Rightarrow> 'a option) \<Rightarrow> string \<Rightarrow> (string \<times> json) list \<Rightarrow> 'a option" where
  "field f k kvs = Option.bind (map_of kvs k) f"

definition field_or :: "'a \<Rightarrow> (json \<Rightarrow> 'a option) \<Rightarrow> string \<Rightarrow> (string \<times> json) list \<Rightarrow> 'a option" where
  "field_or d f k kvs = (case map_of kvs k of None \<Rightarrow> Some d | Some v \<Rightarrow> f v)"

text \<open>
  What a derived struct reader takes its fields from: an object, or an array that lists a prefix of
  the fields in declaration order.
\<close>

fun struct_fields :: "string list \<Rightarrow> json \<Rightarrow> (string \<times> json) list option" where
  "struct_fields names (JObj kvs) = Some kvs"
| "struct_fields names (JArr xs) =
     (if length xs \<le> length names then Some (zip names xs) else None)"
| "struct_fields names _ = None"

text \<open>\<open>#[serde(deny_unknown_fields)]\<close>.\<close>

definition known_only :: "string list \<Rightarrow> (string \<times> json) list \<Rightarrow> bool" where
  "known_only names kvs \<longleftrightarrow> set (map fst kvs) \<subseteq> set names"

text \<open>\<open>#[serde(skip_serializing_if = "Option::is_none")]\<close> on writing.\<close>

fun skip_none :: "string \<Rightarrow> ('a \<Rightarrow> json) \<Rightarrow> 'a option \<Rightarrow> (string \<times> json) list" where
  "skip_none k f None = []"
| "skip_none k f (Some a) = [(k, f a)]"

section \<open>Facts\<close>

named_theorems de_simps \<open>readers on the values the matching writers produce\<close>

lemma those_map_Some [de_simps]: "(\<And>x. x \<in> set xs \<Longrightarrow> f x = Some (g x)) \<Longrightarrow> those (map f xs) = Some (map g xs)"
  by (induction xs) auto

lemma de_string_map_roundtrip [de_simps]:
  "de_string_map (JObj (map (\<lambda>(k, v). (k, JStr v)) kvs)) = Some kvs"
  by (induction kvs) auto

lemma de_opt_nonnull: "v \<noteq> JNull \<Longrightarrow> de_opt f v = map_option Some (f v)"
  by (cases v) auto

lemma field_unfold: "field f k kvs = (case map_of kvs k of None \<Rightarrow> None | Some v \<Rightarrow> f v)"
  by (simp add: field_def split: option.split)

end
