(* ===== verification/Calendar_Model.thy ===== *)
theory Calendar_Model
  imports Json
begin

text \<open>
  The Google Calendar event (src/core/calendar.rs) with the JSON its serde attributes prescribe,
  the colour palette (src/core/colors.rs) and the create-or-update decision (src/core/upsert.rs).
\<close>

section \<open>Events\<close>

datatype event_date_time =
    Timed (timed_date_time: string) (timed_time_zone: string)
  | AllDay (all_day_date: string)

fun is_all_day :: "event_date_time \<Rightarrow> bool" where
  "is_all_day (AllDay d) = True"
| "is_all_day (Timed t z) = False"

fun date_time :: "event_date_time \<Rightarrow> string option" where
  "date_time (Timed t z) = Some t"
| "date_time (AllDay d) = None"

fun date :: "event_date_time \<Rightarrow> string option" where
  "date (AllDay d) = Some d"
| "date (Timed t z) = None"

fun time_zone :: "event_date_time \<Rightarrow> string option" where
  "time_zone (Timed t z) = Some z"
| "time_zone (AllDay d) = None"

text \<open>Google accepts exactly one of a date and a date-time; the enum makes anything else unwritable.\<close>

lemma exactly_one_boundary: "(date_time b = None) \<noteq> (date b = None)"
  by (cases b) auto

lemma zone_iff_timed: "(time_zone b = None) \<longleftrightarrow> is_all_day b"
  by (cases b) auto

record reminder_override =
  reminder_method :: string
  reminder_minutes :: nat

record reminders =
  use_default :: bool
  overrides :: "reminder_override list"

record extended_properties =
  private_props :: "(string \<times> string) list"

record google_event =
  event_id :: "string option"
  summary :: string
  description :: "string option"
  location :: "string option"
  color_id :: "string option"
  event_start :: event_date_time
  event_end :: event_date_time
  transparency :: "string option"
  event_status :: "string option"
  event_reminders :: "reminders option"
  event_properties :: "extended_properties option"

text \<open>\<open>private.get(key)\<close> on the extended properties of an event.\<close>

definition private_property :: "string \<Rightarrow> google_event \<Rightarrow> string option" where
  "private_property k ev =
     Option.bind (event_properties ev) (\<lambda>p. map_of (private_props p) k)"

section \<open>The JSON of an event\<close>

text \<open>
  \<open>rename_all = "camelCase"\<close>, \<open>skip_serializing_if = "Option::is_none"\<close> and the untagged
  boundary enum, written out; fields in declaration order.
\<close>

fun boundary_to_json :: "event_date_time \<Rightarrow> json" where
  "boundary_to_json (Timed t z) = JObj [(''dateTime'', JStr t), (''timeZone'', JStr z)]"
| "boundary_to_json (AllDay d) = JObj [(''date'', JStr d)]"

definition override_to_json :: "reminder_override \<Rightarrow> json" where
  "override_to_json r =
     JObj [(''method'', JStr (reminder_method r)), (''minutes'', JInt (int (reminder_minutes r)))]"

definition reminders_to_json :: "reminders \<Rightarrow> json" where
  "reminders_to_json r =
     JObj ((''useDefault'', JBool (use_default r)) #
       (if overrides r = [] then []
        else [(''overrides'', JArr (map override_to_json (overrides r)))]))"

definition properties_to_json :: "extended_properties \<Rightarrow> json" where
  "properties_to_json p =
     JObj [(''private'', JObj (map (\<lambda>(k, v). (k, JStr v)) (private_props p)))]"

definition event_to_json :: "google_event \<Rightarrow> json" where
  "event_to_json ev =
     JObj (skip_none ''id'' JStr (event_id ev)
       @ [(''summary'', JStr (summary ev))]
       @ skip_none ''description'' JStr (description ev)
       @ skip_none ''location'' JStr (location ev)
       @ skip_none ''colorId'' JStr (color_id ev)
       @ [(''start'', boundary_to_json (event_start ev)), (''end'', boundary_to_json (event_end ev))]
       @ skip_none ''transparency'' JStr (transparency ev)
       @ skip_none ''status'' JStr (event_status ev)
       @ skip_none ''reminders'' reminders_to_json (event_reminders ev)
       @ skip_none ''extendedProperties'' properties_to_json (event_properties ev))"

text \<open>Reading it back. The untagged enum tries its variants in order.\<close>

definition boundary_of_json :: "json \<Rightarrow> event_date_time option" where
  "boundary_of_json v =
     (case Option.bind (struct_fields [''dateTime'', ''timeZone''] v) (\<lambda>kvs.
        Option.bind (field de_string ''dateTime'' kvs) (\<lambda>t.
        Option.bind (field de_string ''timeZone'' kvs) (\<lambda>z. Some (Timed t z)))) of
        Some b \<Rightarrow> Some b
      | None \<Rightarrow>
          Option.bind (struct_fields [''date''] v) (\<lambda>kvs.
          Option.bind (field de_string ''date'' kvs) (\<lambda>d. Some (AllDay d))))"

definition override_of_json :: "json \<Rightarrow> reminder_override option" where
  "override_of_json v =
     Option.bind (struct_fields [''method'', ''minutes''] v) (\<lambda>kvs.
     Option.bind (field de_string ''method'' kvs) (\<lambda>m.
     Option.bind (field de_u32 ''minutes'' kvs) (\<lambda>n.
     Some \<lparr>reminder_method = m, reminder_minutes = n\<rparr>)))"

definition reminders_of_json :: "json \<Rightarrow> reminders option" where
  "reminders_of_json v =
     Option.bind (struct_fields [''useDefault'', ''overrides''] v) (\<lambda>kvs.
     Option.bind (field de_bool ''useDefault'' kvs) (\<lambda>d.
     Option.bind (field_or [] (de_vec override_of_json) ''overrides'' kvs) (\<lambda>os.
     Some \<lparr>use_default = d, overrides = os\<rparr>)))"

definition properties_of_json :: "json \<Rightarrow> extended_properties option" where
  "properties_of_json v =
     Option.bind (struct_fields [''private''] v) (\<lambda>kvs.
     Option.bind (field de_string_map ''private'' kvs) (\<lambda>ps. Some \<lparr>private_props = ps\<rparr>))"

definition event_of_fields :: "(string \<times> json) list \<Rightarrow> google_event option" where
  "event_of_fields kvs =
     Option.bind (field_or None (de_opt de_string) ''id'' kvs) (\<lambda>i.
     Option.bind (field de_string ''summary'' kvs) (\<lambda>s.
     Option.bind (field_or None (de_opt de_string) ''description'' kvs) (\<lambda>d.
     Option.bind (field_or None (de_opt de_string) ''location'' kvs) (\<lambda>l.
     Option.bind (field_or None (de_opt de_string) ''colorId'' kvs) (\<lambda>c.
     Option.bind (field boundary_of_json ''start'' kvs) (\<lambda>b.
     Option.bind (field boundary_of_json ''end'' kvs) (\<lambda>e.
     Option.bind (field_or None (de_opt de_string) ''transparency'' kvs) (\<lambda>t.
     Option.bind (field_or None (de_opt de_string) ''status'' kvs) (\<lambda>st.
     Option.bind (field_or None (de_opt reminders_of_json) ''reminders'' kvs) (\<lambda>r.
     Option.bind (field_or None (de_opt properties_of_json) ''extendedProperties'' kvs) (\<lambda>p.
     Some \<lparr>event_id = i, summary = s, description = d, location = l, color_id = c,
           event_start = b, event_end = e, transparency = t, event_status = st,
           event_reminders = r, event_properties = p\<rparr>)))))))))))"

text \<open>Google answers with an object; the array form that serde's derive also reads is left out.\<close>

fun event_of_json :: "json \<Rightarrow> google_event option" where
  "event_of_json (JObj kvs) = event_of_fields kvs"
| "event_of_json v = None"

text \<open>
  \<open>EventListResponse\<close>: a missing \<open>items\<close> key is an empty list once \<open>unwrap_or_default\<close> has
  been applied.
\<close>

definition event_list_items :: "google_event list option \<Rightarrow> google_event list" where
  "event_list_items items = (case items of None \<Rightarrow> [] | Some es \<Rightarrow> es)"

fun event_list_of_json :: "json \<Rightarrow> google_event list option option" where
  "event_list_of_json (JObj kvs) = field_or None (de_opt (de_vec event_of_json)) ''items'' kvs"
| "event_list_of_json v = None"

subsection \<open>Round trip\<close>

lemma boundary_roundtrip [de_simps]: "boundary_of_json (boundary_to_json b) = Some b"
  by (cases b) (simp_all add: boundary_of_json_def field_def)

lemma override_roundtrip [de_simps]:
  "reminder_minutes r < 2 ^ 32 \<Longrightarrow> override_of_json (override_to_json r) = Some r"
  by (simp add: override_of_json_def override_to_json_def field_def)

definition reminders_in_range :: "reminders \<Rightarrow> bool" where
  "reminders_in_range r \<longleftrightarrow> (\<forall>o' \<in> set (overrides r). reminder_minutes o' < 2 ^ 32)"

lemma overrides_roundtrip [de_simps]:
  "(\<forall>r \<in> set rs. reminder_minutes r < 2 ^ 32) \<Longrightarrow>
     those (map (override_of_json \<circ> override_to_json) rs) = Some rs"
  by (induction rs) (auto simp: override_roundtrip)

lemma reminders_roundtrip [de_simps]:
  "reminders_in_range r \<Longrightarrow> reminders_of_json (reminders_to_json r) = Some r"
  by (cases r)
    (auto simp: reminders_of_json_def reminders_to_json_def field_def field_or_def
      overrides_roundtrip reminders_in_range_def)

lemma properties_roundtrip [de_simps]: "properties_of_json (properties_to_json p) = Some p"
  by (cases p)
    (simp add: properties_of_json_def properties_to_json_def field_def
      de_string_map_roundtrip del: de_string_map.simps)

lemma writers_not_null [simp]:
  "reminders_to_json r \<noteq> JNull" "properties_to_json p \<noteq> JNull"
  by (simp_all add: reminders_to_json_def properties_to_json_def)

definition event_in_range :: "google_event \<Rightarrow> bool" where
  "event_in_range ev \<longleftrightarrow>
     (case event_reminders ev of None \<Rightarrow> True | Some r \<Rightarrow> reminders_in_range r)"

lemma map_of_skip_none [simp]:
  "map_of (skip_none k f v @ rest) k' =
     (if k = k' \<and> v \<noteq> None then Some (f (the v)) else map_of rest k')"
  by (cases v) auto

lemma map_of_skip_none_end [simp]:
  "map_of (skip_none k f v) k' = (if k = k' \<and> v \<noteq> None then Some (f (the v)) else None)"
  by (cases v) auto

lemma field_or_option [de_simps]:
  "map_of kvs k = (if v \<noteq> None then Some (g (the v)) else None) \<Longrightarrow>
   (\<And>a. v = Some a \<Longrightarrow> g a \<noteq> JNull \<and> f (g a) = Some a) \<Longrightarrow>
   field_or None (de_opt f) k kvs = Some v"
  by (cases v) (auto simp: field_or_def de_opt_nonnull)

lemma event_json_roundtrip:
  assumes "event_in_range ev"
  shows "event_of_json (event_to_json ev) = Some ev"
proof -
  let ?kvs = "case event_to_json ev of JObj kvs \<Rightarrow> kvs"
  have strs: "field_or None (de_opt de_string) ''id'' ?kvs = Some (event_id ev)"
    "field_or None (de_opt de_string) ''description'' ?kvs = Some (description ev)"
    "field_or None (de_opt de_string) ''location'' ?kvs = Some (location ev)"
    "field_or None (de_opt de_string) ''colorId'' ?kvs = Some (color_id ev)"
    "field_or None (de_opt de_string) ''transparency'' ?kvs = Some (transparency ev)"
    "field_or None (de_opt de_string) ''status'' ?kvs = Some (event_status ev)"
    by ((rule field_or_option [where g = JStr]; simp add: event_to_json_def del: map_of_append))+
  have rem: "field_or None (de_opt reminders_of_json) ''reminders'' ?kvs = Some (event_reminders ev)"
    by (rule field_or_option [where g = reminders_to_json])
      (use assms in
        \<open>auto simp: event_to_json_def event_in_range_def reminders_roundtrip simp del: map_of_append\<close>)
  have props: "field_or None (de_opt properties_of_json) ''extendedProperties'' ?kvs
      = Some (event_properties ev)"
    by (rule field_or_option [where g = properties_to_json])
      (auto simp: event_to_json_def properties_roundtrip simp del: map_of_append)
  have req: "field de_string ''summary'' ?kvs = Some (summary ev)"
    "field boundary_of_json ''start'' ?kvs = Some (event_start ev)"
    "field boundary_of_json ''end'' ?kvs = Some (event_end ev)"
    by (simp_all add: field_def event_to_json_def boundary_roundtrip del: map_of_append)
  have "event_to_json ev = JObj ?kvs"
    by (simp add: event_to_json_def)
  then have "event_of_json (event_to_json ev) = event_of_fields ?kvs"
    by (metis event_of_json.simps(1))
  also have "\<dots> = Some ev"
    by (simp add: event_of_fields_def strs rem props req)
  finally show ?thesis .
qed

text \<open>An unset optional field is left out of the JSON, never sent as null.\<close>

lemma unset_field_omitted:
  "event_id ev = None \<Longrightarrow> json_get (event_to_json ev) ''id'' = None"
  "color_id ev = None \<Longrightarrow> json_get (event_to_json ev) ''colorId'' = None"
  "event_reminders ev = None \<Longrightarrow> json_get (event_to_json ev) ''reminders'' = None"
  "event_properties ev = None \<Longrightarrow> json_get (event_to_json ev) ''extendedProperties'' = None"
  by (simp_all add: event_to_json_def del: map_of_append)

section \<open>Colours\<close>

definition PALETTE :: "(string \<times> string) list" where
  "PALETTE =
     [(''1'', ''lavender''), (''2'', ''sage''), (''3'', ''grape''), (''4'', ''flamingo''),
      (''5'', ''banana''), (''6'', ''tangerine''), (''7'', ''peacock''), (''8'', ''graphite''),
      (''9'', ''blueberry''), (''10'', ''basil''), (''11'', ''tomato'')]"

definition color_resolve :: "string \<Rightarrow> string option" where
  "color_resolve requested =
     (let wanted = to_ascii_lowercase (trim requested)
      in map_option fst (find (\<lambda>(i, name). i = wanted \<or> name = wanted) PALETTE))"

definition color_names :: string where
  "color_names = join_with '', '' (map snd PALETTE)"

text \<open>Whatever resolves is one of Google's eleven ids.\<close>

lemma find_member: "find P xs = Some x \<Longrightarrow> x \<in> set xs \<and> P x"
  by (induction xs) (auto split: if_splits)

lemma color_resolve_in_palette: "color_resolve c = Some i \<Longrightarrow> i \<in> set (map fst PALETTE)"
  by (force simp: color_resolve_def Let_def dest: find_member)

section \<open>Create or update\<close>

datatype upsert_action = CreateEvent | UpdateEvent string

fun decide :: "string option \<Rightarrow> upsert_action" where
  "decide (Some google_id) = UpdateEvent google_id"
| "decide None = CreateEvent"

end
