(* ===== verification/Request.thy ===== *)
theory Request
  imports Profile Calendar_Model
begin

text \<open>
  What a source sends and what Almanac makes of it: src/core/request.rs and src/core/mapping.rs.

  The date arithmetic is the \<open>chrono\<close> crate's and the reading of a JSON value as an
  \<open>EventRequest\<close> is generated by \<open>serde\<close>'s derive; both are parameters, the fields of
  \<open>crates\<close>. What is used of them is stated as \<open>chrono_ok\<close> and \<open>serde_reads_request\<close>.
\<close>

section \<open>The request\<close>

record reminder_request =
  popup_minutes_before :: "int list"
  email_minutes_before :: "int list"
  silent :: bool

record event_request =
  req_title :: string
  req_start :: string
  req_external_id :: "string option"
  req_description :: "string option"
  req_location :: "string option"
  req_end :: "string option"
  req_duration_minutes :: "int option"
  req_all_day :: bool
  req_duration_days :: "int option"
  req_busy :: "bool option"
  req_color :: "string option"
  req_status :: "string option"
  req_reminders :: "reminder_request option"
  req_timezone :: "string option"

subsection \<open>The crates the code calls\<close>

text \<open>
  \<open>dt_plus_minutes\<close> is \<open>start + chrono::Duration::minutes(m)\<close> and \<open>nd_plus_days\<close> is
  \<open>start + chrono::Duration::days(d)\<close>: chrono documents that building the duration and adding it
  panic when the result is out of range, which is the value \<open>None\<close>.
\<close>

record ('dt, 'nd) crates =
  parse_rfc3339 :: "string \<Rightarrow> string + 'dt"
  dt_le :: "'dt \<Rightarrow> 'dt \<Rightarrow> bool"
  dt_plus_minutes :: "'dt \<Rightarrow> int \<Rightarrow> 'dt option"
  dt_to_rfc3339 :: "'dt \<Rightarrow> string"
  dt_date_naive :: "'dt \<Rightarrow> 'nd"
  parse_ymd :: "string \<Rightarrow> 'nd option"
  nd_plus_days :: "'nd \<Rightarrow> int \<Rightarrow> 'nd option"
  nd_format_ymd :: "'nd \<Rightarrow> string"
  tz_known :: "string \<Rightarrow> bool"
  request_from_value :: "json \<Rightarrow> string + event_request"

definition chrono_ok :: "('dt, 'nd) crates \<Rightarrow> bool" where
  "chrono_ok K \<longleftrightarrow>
     (\<forall>t m t'. 0 < m \<longrightarrow> dt_plus_minutes K t m = Some t' \<longrightarrow> \<not> dt_le K t' t)"

subsection \<open>What the derive attributes of the two structs accept\<close>

text \<open>
  Both structs carry \<open>deny_unknown_fields\<close>; every field but \<open>title\<close> and \<open>start\<close> carries
  \<open>default\<close>.
\<close>

definition reminder_fields :: "string list" where
  "reminder_fields = [''popup_minutes_before'', ''email_minutes_before'', ''silent'']"

definition reminder_request_of_json :: "json \<Rightarrow> reminder_request option" where
  "reminder_request_of_json v =
     Option.bind (struct_fields reminder_fields v) (\<lambda>kvs.
     if \<not> known_only reminder_fields kvs then None
     else
       Option.bind (field_or [] (de_vec de_i64) ''popup_minutes_before'' kvs) (\<lambda>ps.
       Option.bind (field_or [] (de_vec de_i64) ''email_minutes_before'' kvs) (\<lambda>es.
       Option.bind (field_or False de_bool ''silent'' kvs) (\<lambda>s.
       Some \<lparr>popup_minutes_before = ps, email_minutes_before = es, silent = s\<rparr>))))"

definition event_request_fields :: "string list" where
  "event_request_fields =
     [''title'', ''start'', ''external_id'', ''description'', ''location'', ''end'',
      ''duration_minutes'', ''all_day'', ''duration_days'', ''busy'', ''color'', ''status'',
      ''reminders'', ''timezone'']"

definition event_request_of_fields :: "(string \<times> json) list \<Rightarrow> event_request option" where
  "event_request_of_fields kvs =
     Option.bind (field de_string ''title'' kvs) (\<lambda>t.
     Option.bind (field de_string ''start'' kvs) (\<lambda>s.
     Option.bind (field_or None (de_opt de_string) ''external_id'' kvs) (\<lambda>x.
     Option.bind (field_or None (de_opt de_string) ''description'' kvs) (\<lambda>d.
     Option.bind (field_or None (de_opt de_string) ''location'' kvs) (\<lambda>l.
     Option.bind (field_or None (de_opt de_string) ''end'' kvs) (\<lambda>e.
     Option.bind (field_or None (de_opt de_i64) ''duration_minutes'' kvs) (\<lambda>dm.
     Option.bind (field_or False de_bool ''all_day'' kvs) (\<lambda>ad.
     Option.bind (field_or None (de_opt de_i64) ''duration_days'' kvs) (\<lambda>dd.
     Option.bind (field_or None (de_opt de_bool) ''busy'' kvs) (\<lambda>b.
     Option.bind (field_or None (de_opt de_string) ''color'' kvs) (\<lambda>c.
     Option.bind (field_or None (de_opt de_string) ''status'' kvs) (\<lambda>st.
     Option.bind (field_or None (de_opt reminder_request_of_json) ''reminders'' kvs) (\<lambda>r.
     Option.bind (field_or None (de_opt de_string) ''timezone'' kvs) (\<lambda>tz.
     Some \<lparr>req_title = t, req_start = s, req_external_id = x, req_description = d,
           req_location = l, req_end = e, req_duration_minutes = dm, req_all_day = ad,
           req_duration_days = dd, req_busy = b, req_color = c, req_status = st,
           req_reminders = r, req_timezone = tz\<rparr>))))))))))))))"

definition event_request_of_json :: "json \<Rightarrow> event_request option" where
  "event_request_of_json v =
     Option.bind (struct_fields event_request_fields v) (\<lambda>kvs.
     if \<not> known_only event_request_fields kvs then None else event_request_of_fields kvs)"

definition serde_reads_request :: "('dt, 'nd) crates \<Rightarrow> bool" where
  "serde_reads_request K \<longleftrightarrow>
     (\<forall>v. case request_from_value K v of
            Inr r \<Rightarrow> event_request_of_json v = Some r
          | Inl _ \<Rightarrow> event_request_of_json v = None)"

lemma serde_reads_requestD:
  "serde_reads_request K \<Longrightarrow> request_from_value K v = Inr r \<Longrightarrow> event_request_of_json v = Some r"
  by (force simp: serde_reads_request_def split: sum.splits)

subsection \<open>\<open>EventRequest::parse\<close>\<close>

definition event_request_parse ::
  "('dt, 'nd) crates \<Rightarrow> json \<Rightarrow> string \<Rightarrow> event_request result" where
  "event_request_parse K payload origin =
     (case request_from_value K payload of
        Inr r \<Rightarrow> Inr r
      | Inl e \<Rightarrow>
          Inl (ProfileValidation (origin @ '': '' @ e)
            (''an event carries title, start and external_id, and optionally '' @
             ''description, location, end or duration_minutes, all_day, duration_days, '' @
             ''busy, color, status, reminders and timezone '' @ em_dash @
             '' see docs/USER_GUIDE.md'')))"

section \<open>From a request to an event\<close>

definition STATUSES :: "string list" where
  "STATUSES = [''confirmed'', ''tentative'', ''cancelled'']"

definition MAX_REMINDERS :: nat where
  "MAX_REMINDERS = 5"

definition MAX_REMINDER_MINUTES :: int where
  "MAX_REMINDER_MINUTES = 4 * 7 * 24 * 60"

definition reminder_out_of_range :: "int \<Rightarrow> bool" where
  "reminder_out_of_range m \<longleftrightarrow> m < 0 \<or> m > MAX_REMINDER_MINUTES"

definition override_of :: "string \<Rightarrow> int \<Rightarrow> reminder_override" where
  "override_of how m = \<lparr>reminder_method = how, reminder_minutes = nat m mod 2 ^ 32\<rparr>"

definition to_reminders :: "reminder_request \<Rightarrow> string \<Rightarrow> reminders result" where
  "to_reminders asked origin =
     (let count = length (popup_minutes_before asked) + length (email_minutes_before asked);
          every = popup_minutes_before asked @ email_minutes_before asked
      in if silent asked \<and> count > 0 then
           Inl (ProfileValidation
             (origin @ '': '' @ quoted ''reminders'' @ '' is silent and also lists reminders'')
             (''either set silent = true, or give the minutes '' @ em_dash @ '' not both''))
         else if count > MAX_REMINDERS then
           Inl (ProfileValidation
             (origin @ '': '' @ quoted ''reminders'' @ '' asks for '' @ show_nat count @
              ''; Google allows '' @ show_nat MAX_REMINDERS)
             (''keep at most '' @ show_nat MAX_REMINDERS @ '' reminders across popup and email''))
         else
           (case find reminder_out_of_range every of
              Some minutes \<Rightarrow>
                Inl (ProfileValidation
                  (origin @ '': '' @ quoted ''reminders'' @ '' asks for '' @ show_int minutes @
                   '' minutes before'')
                  (''Google allows 0 to '' @ show_int MAX_REMINDER_MINUTES @
                   '' minutes (four weeks) before the start''))
            | None \<Rightarrow>
                Inr \<lparr>use_default = False,
                     overrides =
                       map (override_of ''popup'') (popup_minutes_before asked) @
                       map (override_of ''email'') (email_minutes_before asked)\<rparr>))"

definition timed_end ::
  "('dt, 'nd) crates \<Rightarrow> event_request \<Rightarrow> profile \<Rightarrow> 'dt \<Rightarrow> string \<Rightarrow> 'dt outcome" where
  "timed_end K r p start origin =
     (case req_end r of
        Some raw \<Rightarrow>
          (case parse_rfc3339 K raw of
             Inl e \<Rightarrow>
               Err (ProfileValidation
                 (origin @ '': '' @ quoted ''end'' @ '' ('' @ debug_str raw @
                  '') is not a valid RFC3339 timestamp: '' @ e)
                 ''send an RFC3339 timestamp, or use duration_minutes instead'')
           | Inr t \<Rightarrow>
               if dt_le K t start then
                 Err (ProfileValidation
                   (origin @ '': '' @ quoted ''end'' @ '' ('' @ debug_str raw @
                    '') is at or before '' @ quoted ''start'' @ '' ('' @ debug_str (req_start r) @ '')'')
                   (''send an end after the start '' @ em_dash @
                    '' Google accepts an inverted event and then shows it on no calendar at all''))
               else Ok t)
      | None \<Rightarrow>
          (let minutes =
             (case req_duration_minutes r of
                Some m \<Rightarrow> m
              | None \<Rightarrow>
                  (case default_duration_minutes p of
                     Some m \<Rightarrow> m
                   | None \<Rightarrow> FALLBACK_DURATION_MINUTES))
           in if minutes \<le> 0 then
                Err (ProfileValidation
                  (origin @ '': '' @ quoted ''duration_minutes'' @ '' is '' @ show_int minutes)
                  ''send a duration greater than zero, or an explicit end'')
              else
                (case dt_plus_minutes K start minutes of
                   None \<Rightarrow> Panic
                 | Some t \<Rightarrow> Ok t)))"

definition timed_window ::
  "('dt, 'nd) crates \<Rightarrow> event_request \<Rightarrow> profile \<Rightarrow> string \<Rightarrow> string \<Rightarrow>
   (event_date_time \<times> event_date_time) outcome" where
  "timed_window K r p tz origin =
     (case parse_rfc3339 K (req_start r) of
        Inl e \<Rightarrow>
          Err (ProfileValidation
            (origin @ '': '' @ quoted ''start'' @ '' ('' @ debug_str (req_start r) @
             '') is not a valid RFC3339 timestamp: '' @ e)
            (''send an RFC3339 timestamp, e.g. 2026-09-03T21:00:00+02:00 '' @ em_dash @
             '' or set all_day = true and send a date''))
      | Inr start \<Rightarrow>
          bind_outcome (timed_end K r p start origin) (\<lambda>stop.
          Ok (Timed (dt_to_rfc3339 K start) tz, Timed (dt_to_rfc3339 K stop) tz)))"

definition all_day_start :: "('dt, 'nd) crates \<Rightarrow> string \<Rightarrow> string + 'nd" where
  "all_day_start K s =
     (case parse_ymd K s of
        Some d \<Rightarrow> Inr d
      | None \<Rightarrow>
          (case parse_rfc3339 K s of
             Inl e \<Rightarrow> Inl e
           | Inr t \<Rightarrow> Inr (dt_date_naive K t)))"

definition all_day_window ::
  "('dt, 'nd) crates \<Rightarrow> event_request \<Rightarrow> string \<Rightarrow>
   (event_date_time \<times> event_date_time) outcome" where
  "all_day_window K r origin =
     (case all_day_start K (req_start r) of
        Inl e \<Rightarrow>
          Err (ProfileValidation
            (origin @ '': '' @ quoted ''start'' @ '' ('' @ debug_str (req_start r) @
             '') is neither a date nor a timestamp: '' @ e)
            ''for an all-day event send 2026-09-01, or a full timestamp on that day'')
      | Inr start \<Rightarrow>
          (let days = (case req_duration_days r of Some d \<Rightarrow> d | None \<Rightarrow> 1)
           in if days \<le> 0 then
                Err (ProfileValidation
                  (origin @ '': '' @ quoted ''duration_days'' @ '' is '' @ show_int days)
                  ''an all-day event covers at least one day'')
              else
                (case nd_plus_days K start days of
                   None \<Rightarrow> Panic
                 | Some stop \<Rightarrow>
                     Ok (AllDay (nd_format_ymd K start), AllDay (nd_format_ymd K stop)))))"

definition resolve_requested_color :: "event_request \<Rightarrow> string \<Rightarrow> string option result" where
  "resolve_requested_color r origin =
     (case req_color r of
        None \<Rightarrow> Inr None
      | Some requested \<Rightarrow>
          (case color_resolve requested of
             Some c \<Rightarrow> Inr (Some c)
           | None \<Rightarrow>
               Inl (ProfileValidation
                 (origin @ '': '' @ quoted ''color'' @ '': '' @ debug_str requested @
                  '' is not a Google colour'')
                 (''use one of: '' @ color_names @ '', or a colour id 1-11''))))"

definition check_status :: "event_request \<Rightarrow> string \<Rightarrow> unit result" where
  "check_status r origin =
     (case req_status r of
        Some s \<Rightarrow>
          if s \<notin> set STATUSES then
            Inl (ProfileValidation
              (origin @ '': '' @ quoted ''status'' @ '': '' @ debug_str s @
               '' is not a Google event status'')
              (''use one of: '' @ join_with '', '' STATUSES))
          else Inr ()
      | None \<Rightarrow> Inr ())"

definition requested_reminders :: "event_request \<Rightarrow> string \<Rightarrow> reminders option result" where
  "requested_reminders r origin =
     (case req_reminders r of
        None \<Rightarrow> Inr None
      | Some asked \<Rightarrow> bind_result (to_reminders asked origin) (\<lambda>rs. Inr (Some rs)))"

definition UPSERT_PROPERTY :: string where
  "UPSERT_PROPERTY = ''almanac_source_id''"

text \<open>The pinned key format, \<open>format!("{}:{}", source_id, external_id)\<close>.\<close>

definition source_key :: "string \<Rightarrow> string \<Rightarrow> string" where
  "source_key src ext = src @ '':'' @ ext"

definition to_google_event ::
  "('dt, 'nd) crates \<Rightarrow> event_request \<Rightarrow> profile \<Rightarrow> string \<Rightarrow> google_event outcome" where
  "to_google_event K r p origin =
     (if is_blank (req_title r) then
        Err (ProfileValidation (origin @ '': '' @ quoted ''title'' @ '' is empty'')
          (''send a title '' @ em_dash @ '' an untitled calendar entry tells nobody anything''))
      else if (case req_external_id r of Some i \<Rightarrow> is_blank i | None \<Rightarrow> False) then
        Err (ProfileValidation (origin @ '': '' @ quoted ''external_id'' @ '' is empty'')
          (''send a stable id for this thing, or leave the field out and send an '' @
           ''Idempotency-Key header instead''))
      else
        (let tz = (case req_timezone r of Some z \<Rightarrow> z | None \<Rightarrow> timezone p) in
         bind_outcome (lift_result (validate_timezone (tz_known K) tz origin)) (\<lambda>_.
         bind_outcome
           (if req_all_day r then all_day_window K r origin else timed_window K r p tz origin)
           (\<lambda>(start, stop).
         bind_outcome (lift_result (resolve_requested_color r origin)) (\<lambda>color.
         bind_outcome (lift_result (check_status r origin)) (\<lambda>_.
         bind_outcome (lift_result (requested_reminders r origin)) (\<lambda>rems.
         Ok \<lparr>event_id = None,
             summary = req_title r,
             description = req_description r,
             location = req_location r,
             color_id = color,
             event_start = start,
             event_end = stop,
             transparency = (if req_busy r = Some False then Some ''transparent'' else None),
             event_status = req_status r,
             event_reminders = rems,
             event_properties =
               map_option
                 (\<lambda>ext. \<lparr>private_props = [(UPSERT_PROPERTY, source_key (source_id p) ext)]\<rparr>)
                 (req_external_id r)\<rparr>)))))))"

section \<open>\<open>map_payload\<close>\<close>

definition map_payload ::
  "('dt, 'nd) crates \<Rightarrow> json \<Rightarrow> profile \<Rightarrow> string \<Rightarrow> google_event outcome" where
  "map_payload K payload p origin =
     bind_outcome (lift_result (event_request_parse K payload origin)) (\<lambda>r.
     to_google_event K r p origin)"

section \<open>Facts\<close>

lemma resolve_requested_color_Inr:
  "resolve_requested_color r origin = Inr c \<longleftrightarrow>
     (case req_color r of None \<Rightarrow> c = None | Some q \<Rightarrow> c \<noteq> None \<and> color_resolve q = c)"
  by (auto simp: resolve_requested_color_def split: option.splits)

lemma check_status_Inr:
  "check_status r origin = Inr u \<longleftrightarrow> (\<forall>s. req_status r = Some s \<longrightarrow> s \<in> set STATUSES)"
  by (auto simp: check_status_def split: option.splits)

lemma find_None_list_all: "find P xs = None \<longleftrightarrow> list_all (\<lambda>x. \<not> P x) xs"
  by (induction xs) auto

lemma find_Some_not_all: "find P xs = Some x \<Longrightarrow> \<not> list_all (\<lambda>x. \<not> P x) xs"
  by (metis find_None_list_all option.distinct(1))

lemma to_reminders_Inr:
  "to_reminders q origin = Inr rs \<longleftrightarrow>
     \<not> (silent q \<and> 0 < length (popup_minutes_before q @ email_minutes_before q)) \<and>
     length (popup_minutes_before q @ email_minutes_before q) \<le> MAX_REMINDERS \<and>
     list_all (\<lambda>m. \<not> reminder_out_of_range m) (popup_minutes_before q @ email_minutes_before q) \<and>
     rs = \<lparr>use_default = False,
           overrides = map (override_of ''popup'') (popup_minutes_before q) @
                       map (override_of ''email'') (email_minutes_before q)\<rparr>"
  by (auto simp: to_reminders_def Let_def find_None_list_all dest: find_Some_not_all
      split: option.splits if_splits)

lemma requested_reminders_Inr:
  "requested_reminders r origin = Inr rs \<longleftrightarrow>
     (case req_reminders r of
        None \<Rightarrow> rs = None
      | Some q \<Rightarrow> \<exists>x. rs = Some x \<and> to_reminders q origin = Inr x)"
  by (auto simp: requested_reminders_def outcome_simps split: option.splits)

text \<open>The minutes of an accepted override are the minutes asked for: the cast loses nothing.\<close>

lemma override_minutes:
  "\<not> reminder_out_of_range m \<Longrightarrow>
     int (reminder_minutes (override_of how m)) = m \<and> m \<le> MAX_REMINDER_MINUTES"
  by (auto simp: override_of_def reminder_out_of_range_def MAX_REMINDER_MINUTES_def)

definition reminders_legal :: "reminders \<Rightarrow> bool" where
  "reminders_legal rs \<longleftrightarrow>
     \<not> use_default rs \<and> length (overrides rs) \<le> MAX_REMINDERS \<and>
     (\<forall>x \<in> set (overrides rs).
        reminder_method x \<in> {''popup'', ''email''} \<and>
        int (reminder_minutes x) \<le> MAX_REMINDER_MINUTES)"

lemma to_reminders_legal: "to_reminders q origin = Inr rs \<Longrightarrow> reminders_legal rs"
  using override_minutes
  by (fastforce simp: to_reminders_Inr reminders_legal_def override_of_def list_all_iff)

subsection \<open>The accepted event\<close>

lemma timed_window_Ok:
  "timed_window K r p tz origin = Ok (a, b) \<longleftrightarrow>
     (\<exists>start stop. parse_rfc3339 K (req_start r) = Inr start \<and>
        timed_end K r p start origin = Ok stop \<and>
        a = Timed (dt_to_rfc3339 K start) tz \<and> b = Timed (dt_to_rfc3339 K stop) tz)"
  by (auto simp: timed_window_def outcome_simps split: sum.splits)

lemma timed_end_after_start:
  assumes "chrono_ok K" "timed_end K r p start origin = Ok stop"
  shows "\<not> dt_le K stop start"
  using assms
  by (auto simp: timed_end_def chrono_ok_def Let_def not_le
      split: option.splits sum.splits if_splits)

lemma all_day_window_Ok:
  "all_day_window K r origin = Ok (a, b) \<longleftrightarrow>
     (\<exists>start stop days.
        all_day_start K (req_start r) = Inr start \<and>
        days = (case req_duration_days r of Some d \<Rightarrow> d | None \<Rightarrow> 1) \<and> 0 < days \<and>
        nd_plus_days K start days = Some stop \<and>
        a = AllDay (nd_format_ymd K start) \<and> b = AllDay (nd_format_ymd K stop))"
  by (auto simp: all_day_window_def Let_def split: sum.splits option.splits if_splits)

text \<open>Inversion of acceptance: every guard passed, and each field of the event.\<close>

lemma to_google_event_OkE:
  assumes "to_google_event K r p origin = Ok ev"
  obtains tz where
    "tz = (case req_timezone r of Some z \<Rightarrow> z | None \<Rightarrow> timezone p)" "tz_known K tz"
    "\<not> is_blank (req_title r)" "\<And>i. req_external_id r = Some i \<Longrightarrow> \<not> is_blank i"
    "(if req_all_day r then all_day_window K r origin else timed_window K r p tz origin)
       = Ok (event_start ev, event_end ev)"
    "resolve_requested_color r origin = Inr (color_id ev)"
    "check_status r origin = Inr ()"
    "requested_reminders r origin = Inr (event_reminders ev)"
    "event_id ev = None" "summary ev = req_title r" "description ev = req_description r"
    "location ev = req_location r" "event_status ev = req_status r"
    "transparency ev = (if req_busy r = Some False then Some ''transparent'' else None)"
    "event_properties ev =
       map_option (\<lambda>ext. \<lparr>private_props = [(UPSERT_PROPERTY, source_key (source_id p) ext)]\<rparr>)
         (req_external_id r)"
  using assms
  by (cases "req_external_id r")
    (auto simp: to_google_event_def Let_def outcome_simps split: if_splits option.splits)

lemma to_google_event_key:
  assumes "to_google_event K r p origin = Ok ev"
  shows "private_property UPSERT_PROPERTY ev =
           map_option (source_key (source_id p)) (req_external_id r)"
  using assms
  by (rule to_google_event_OkE) (cases "req_external_id r"; simp add: private_property_def)

text \<open>Every error of the mapping is permanent: retrying the same payload cannot help.\<close>

named_theorems mapping_errors \<open>which errors the parts of the mapping produce\<close>

lemma validate_timezone_error [mapping_errors]:
  "validate_timezone tz z origin = Inl e \<Longrightarrow> is_ProfileValidation e"
  by (auto simp: validate_timezone_def split: if_splits)

lemma resolve_color_error [mapping_errors]:
  "resolve_requested_color r origin = Inl e \<Longrightarrow> is_ProfileValidation e"
  by (auto simp: resolve_requested_color_def split: option.splits)

lemma check_status_error [mapping_errors]:
  "check_status r origin = Inl e \<Longrightarrow> is_ProfileValidation e"
  by (auto simp: check_status_def split: option.splits if_splits)

lemma requested_reminders_error [mapping_errors]:
  "requested_reminders r origin = Inl e \<Longrightarrow> is_ProfileValidation e"
  by (auto simp: requested_reminders_def to_reminders_def outcome_simps Let_def
      split: option.splits if_splits)

lemma all_day_window_error [mapping_errors]:
  "all_day_window K r origin = Err e \<Longrightarrow> is_ProfileValidation e"
  by (auto simp: all_day_window_def Let_def split: option.splits sum.splits if_splits)

lemma timed_end_error [mapping_errors]:
  "timed_end K r p start origin = Err e \<Longrightarrow> is_ProfileValidation e"
  by (auto simp: timed_end_def Let_def split: option.splits sum.splits if_splits)

lemma timed_window_error [mapping_errors]:
  "timed_window K r p tz origin = Err e \<Longrightarrow> is_ProfileValidation e"
  by (auto simp: timed_window_def outcome_simps dest: timed_end_error split: sum.splits)

lemma mapping_error_kind:
  "to_google_event K r p origin = Err e \<Longrightarrow> is_ProfileValidation e"
  by (auto simp: to_google_event_def Let_def outcome_simps dest: mapping_errors split: if_splits)

lemma profile_validation_permanent:
  "is_ProfileValidation e \<Longrightarrow> \<not> error_is_transient e"
  by (cases e) auto

lemma map_payload_error_permanent:
  "map_payload K payload p origin = Err e \<Longrightarrow> \<not> error_is_transient e"
  by (auto simp: map_payload_def outcome_simps event_request_parse_def
      dest: mapping_error_kind [THEN profile_validation_permanent] split: sum.splits)

text \<open>
  A panic comes from the date arithmetic alone: no explicit end and a length, or a number of days,
  that takes the start out of chrono's range.
\<close>

lemma timed_window_Panic:
  "timed_window K r p tz origin = Panic \<Longrightarrow>
     \<exists>t m. req_end r = None \<and> 0 < m \<and> dt_plus_minutes K t m = None"
  by (auto simp: timed_window_def timed_end_def outcome_simps Let_def not_le
      split: sum.splits option.splits if_splits)

lemma all_day_window_Panic:
  assumes "all_day_window K r origin = Panic"
  shows "\<exists>d n. 0 < n \<and> nd_plus_days K d n = None"
proof -
  from assms obtain d where
    "0 < (case req_duration_days r of Some n \<Rightarrow> n | None \<Rightarrow> 1)"
    "nd_plus_days K d (case req_duration_days r of Some n \<Rightarrow> n | None \<Rightarrow> 1) = None"
    by (auto simp: all_day_window_def Let_def not_le split: sum.splits option.splits if_splits)
  then show ?thesis by blast
qed

lemma to_google_event_PanicE:
  assumes "to_google_event K r p origin = Panic"
  shows "(\<exists>t m. \<not> req_all_day r \<and> req_end r = None \<and> 0 < m \<and> dt_plus_minutes K t m = None) \<or>
         (\<exists>d n. req_all_day r \<and> 0 < n \<and> nd_plus_days K d n = None)"
  using assms
  by (auto simp: to_google_event_def Let_def outcome_simps
      dest!: timed_window_Panic all_day_window_Panic split: if_splits)

subsection \<open>Keys\<close>

lemma split_at_first:
  assumes "c \<notin> set xs" "c \<notin> set ys" "xs @ c # us = ys @ c # vs"
  shows "xs = ys \<and> us = vs"
  using assms by (induction xs arbitrary: ys) (auto simp: Cons_eq_append_conv append_eq_Cons_conv)

text \<open>The separator cannot occur in a source id, so a key determines both of its parts.\<close>

lemma source_key_inject:
  assumes "source_id_is_safe a" "source_id_is_safe b"
  shows "source_key a x = source_key b y \<longleftrightarrow> a = b \<and> x = y"
  using split_at_first [of "CHR '':''" a b x y] assms safe_id_chars(1)
  by (auto simp: source_key_def)

end
