(* ===== verification/Journal_Records.thy ===== *)
theory Journal_Records
  imports Json "HOL-Library.Sublist"
begin

text \<open>
  The record format of the ingest journal and its replay: src/core/journal.rs, with the
  rewriting that \<open>Journal::compact\<close> (src/shell/journal.rs) applies to the records. The disk side
  is in Journal_Disk.

  Three levels: the log as a list of records; the abstract board with one verdict for every id; and the contract \<open>delivery_log\<close> that the worker relies on, which the log meets.
\<close>

section \<open>Records\<close>

record entry =
  entry_id :: string
  entry_source :: string
  received_at :: string
  payload :: json
  idempotency_key :: "string option"

datatype log_record =
    EntryRec entry
  | Done string
  | Dead string string string

fun as_entry :: "log_record \<Rightarrow> entry option" where
  "as_entry (EntryRec e) = Some e"
| "as_entry _ = None"

fun marker_id :: "log_record \<Rightarrow> string option" where
  "marker_id (Done i) = Some i"
| "marker_id (Dead i why at) = Some i"
| "marker_id (EntryRec e) = None"

fun dead_reason :: "log_record \<Rightarrow> (string \<times> string \<times> string) option" where
  "dead_reason (Dead i why at) = Some (i, why, at)"
| "dead_reason _ = None"

section \<open>Replay\<close>

text \<open>The \<open>HashSet\<close> of marked ids, and the \<open>HashMap\<close> of reasons, where a later marker wins.\<close>

definition marked :: "log_record list \<Rightarrow> string set" where
  "marked rs = set (List.map_filter marker_id rs)"

definition dead_reasons :: "log_record list \<Rightarrow> string \<rightharpoonup> string \<times> string" where
  "dead_reasons rs = map_of (rev (List.map_filter dead_reason rs))"

definition pending :: "log_record list \<Rightarrow> entry list" where
  "pending rs =
     List.map_filter
       (\<lambda>r. case r of EntryRec e \<Rightarrow> if entry_id e \<in> marked rs then None else Some e | _ \<Rightarrow> None) rs"

definition dead :: "log_record list \<Rightarrow> (entry \<times> string \<times> string) list" where
  "dead rs =
     List.map_filter
       (\<lambda>r. case r of
          EntryRec e \<Rightarrow> map_option (\<lambda>(why, at). (e, why, at)) (dead_reasons rs (entry_id e))
        | _ \<Rightarrow> None) rs"

text \<open>
  What \<open>Journal::compact\<close> writes: the pending entries, then every dead entry with its marker.
\<close>

definition compact_records :: "log_record list \<Rightarrow> log_record list" where
  "compact_records rs =
     map EntryRec (pending rs) @
     concat (map (\<lambda>(e, why, at). [EntryRec e, Dead (entry_id e) why at]) (dead rs))"

definition entries :: "log_record list \<Rightarrow> entry list" where
  "entries rs = List.map_filter as_entry rs"

subsection \<open>Characterisations\<close>

lemma map_filter_append [simp]:
  "List.map_filter f (xs @ ys) = List.map_filter f xs @ List.map_filter f ys"
  by (simp add: List.map_filter_def)

lemma entries_simps [simp]:
  "entries [] = []"
  "entries (EntryRec e # rs) = e # entries rs"
  "entries (Done i # rs) = entries rs"
  "entries (Dead i why at # rs) = entries rs"
  "entries (xs @ ys) = entries xs @ entries ys"
  by (simp_all add: entries_def List.map_filter_def)

lemma marked_simps [simp]:
  "marked [] = {}"
  "marked (EntryRec e # rs) = marked rs"
  "marked (Done i # rs) = insert i (marked rs)"
  "marked (Dead i why at # rs) = insert i (marked rs)"
  "marked (xs @ ys) = marked xs \<union> marked ys"
  by (auto simp: marked_def List.map_filter_def)

lemma dead_reasons_simps [simp]:
  "dead_reasons [] = Map.empty"
  "dead_reasons (rs @ [EntryRec e]) = dead_reasons rs"
  "dead_reasons (rs @ [Done i]) = dead_reasons rs"
  "dead_reasons (rs @ [Dead i why at]) = (dead_reasons rs)(i \<mapsto> (why, at))"
  by (simp_all add: dead_reasons_def List.map_filter_def)

lemma pending_eq: "pending rs = filter (\<lambda>e. entry_id e \<notin> marked rs) (entries rs)"
proof -
  have "List.map_filter
          (\<lambda>r. case r of EntryRec e \<Rightarrow> if entry_id e \<in> M then None else Some e | _ \<Rightarrow> None) rs
        = filter (\<lambda>e. entry_id e \<notin> M) (entries rs)" for M
  proof (induction rs)
    case Nil
    then show ?case by simp
  next
    case (Cons r rs)
    then show ?case by (cases r) (auto simp: List.map_filter_def)
  qed
  then show ?thesis by (simp add: pending_def)
qed

lemma dead_eq:
  "dead rs =
     List.map_filter
       (\<lambda>e. map_option (\<lambda>(why, at). (e, why, at)) (dead_reasons rs (entry_id e))) (entries rs)"
proof -
  have "List.map_filter
          (\<lambda>r. case r of EntryRec e \<Rightarrow> map_option (\<lambda>(why, at). (e, why, at)) (m (entry_id e))
             | _ \<Rightarrow> None) rs
        = List.map_filter (\<lambda>e. map_option (\<lambda>(why, at). (e, why, at)) (m (entry_id e))) (entries rs)"
    for m
  proof (induction rs)
    case Nil
    then show ?case by simp
  next
    case (Cons r rs)
    then show ?case by (cases r) (auto simp: List.map_filter_def split: option.splits)
  qed
  then show ?thesis by (simp add: dead_def)
qed

lemma set_pending: "e \<in> set (pending rs) \<longleftrightarrow> EntryRec e \<in> set rs \<and> entry_id e \<notin> marked rs"
proof -
  have "e \<in> set (entries rs) \<longleftrightarrow> EntryRec e \<in> set rs"
  proof (induction rs)
    case Nil
    then show ?case by simp
  next
    case (Cons r rs)
    then show ?case by (cases r) auto
  qed
  then show ?thesis by (auto simp: pending_eq)
qed

lemma set_dead:
  "(e, why, at) \<in> set (dead rs) \<longleftrightarrow>
     e \<in> set (entries rs) \<and> dead_reasons rs (entry_id e) = Some (why, at)"
  by (force simp: dead_eq List.map_filter_def)

lemma dead_reasons_dom: "dom (dead_reasons rs) \<subseteq> marked rs"
proof (induction rs rule: rev_induct)
  case Nil
  then show ?case by simp
next
  case (snoc r rs)
  then show ?case by (cases r) (fastforce split: if_splits)+
qed

lemma unmarked_no_reason: "i \<notin> marked rs \<Longrightarrow> dead_reasons rs i = None"
  using dead_reasons_dom by blast

lemma dead_not_pending: "(e, why, at) \<in> set (dead rs) \<Longrightarrow> e \<notin> set (pending rs)"
  using dead_reasons_dom by (fastforce simp: set_dead pending_eq)

section \<open>The status board\<close>

text \<open>
  What the journal promises, without the log: the entries in the order of acceptance, and a verdict
  for every id, whether an entry with it has arrived or not. A marker gives a verdict when it is
  read, the code's replay collects all of them first. A set-aside entry stays set aside, and the
  latest reason is the one kept.
\<close>

datatype status = Waiting | Delivered | SetAside string string

fun settle :: "status \<Rightarrow> status" where
  "settle Waiting = Delivered"
| "settle s = s"

record board =
  arrived :: "entry list"
  verdict :: "string \<Rightarrow> status"

definition empty_board :: board where
  "empty_board = \<lparr>arrived = [], verdict = (\<lambda>i. Waiting)\<rparr>"

fun board_step :: "log_record \<Rightarrow> board \<Rightarrow> board" where
  "board_step (EntryRec e) b = b\<lparr>arrived := arrived b @ [e]\<rparr>"
| "board_step (Done i) b = b\<lparr>verdict := (verdict b)(i := settle (verdict b i))\<rparr>"
| "board_step (Dead i why at) b = b\<lparr>verdict := (verdict b)(i := SetAside why at)\<rparr>"

definition waiting :: "board \<Rightarrow> entry list" where
  "waiting b = filter (\<lambda>e. verdict b (entry_id e) = Waiting) (arrived b)"

definition set_aside :: "board \<Rightarrow> (entry \<times> string \<times> string) list" where
  "set_aside b =
     List.map_filter
       (\<lambda>e. case verdict b (entry_id e) of SetAside why at \<Rightarrow> Some (e, why, at) | _ \<Rightarrow> None) (arrived b)"

text \<open>The board of a log.\<close>

definition status_of :: "log_record list \<Rightarrow> string \<Rightarrow> status" where
  "status_of rs i =
     (case dead_reasons rs i of
        Some (why, at) \<Rightarrow> SetAside why at
      | None \<Rightarrow> if i \<in> marked rs then Delivered else Waiting)"

definition board :: "log_record list \<Rightarrow> board" where
  "board rs = \<lparr>arrived = entries rs, verdict = status_of rs\<rparr>"

lemma status_Waiting: "status_of rs i = Waiting \<longleftrightarrow> i \<notin> marked rs"
  using dead_reasons_dom by (fastforce simp: status_of_def split: option.splits)

lemma pending_waiting: "pending rs = waiting (board rs)"
  by (simp add: waiting_def board_def pending_eq status_Waiting)

lemma dead_set_aside: "dead rs = set_aside (board rs)"
proof -
  have "(case status_of rs i of SetAside why at \<Rightarrow> Some (e, why, at) | _ \<Rightarrow> None)
        = map_option (\<lambda>(why, at). (e, why, at)) (dead_reasons rs i)" for e :: entry and i
    by (auto simp: status_of_def split: option.splits)
  then show ?thesis by (simp add: set_aside_def board_def dead_eq)
qed

text \<open>Appending one record to the log is one step of the board.\<close>

lemma board_append: "board (rs @ [r]) = board_step r (board rs)"
  by (cases r) (auto simp: board_def status_of_def fun_eq_iff unmarked_no_reason split: option.splits)

lemma board_run: "board rs = fold board_step rs empty_board"
proof (induction rs rule: rev_induct)
  case Nil
  show ?case by (simp add: board_def empty_board_def status_of_def fun_eq_iff)
next
  case (snoc r rs)
  then show ?case by (simp add: board_append)
qed

section \<open>Compaction\<close>

lemma entries_compact:
  "entries (compact_records rs) = pending rs @ map fst (dead rs)"
proof -
  have "entries (map EntryRec es) = es" for es
    by (induction es) auto
  moreover have
    "entries (concat (map (\<lambda>(e, why, at). [EntryRec e, Dead (entry_id e) why at]) ds)) = map fst ds"
    for ds :: "(entry \<times> string \<times> string) list"
    by (induction ds) auto
  ultimately show ?thesis by (simp add: compact_records_def)
qed

lemma marked_compact:
  "marked (compact_records rs) = (\<lambda>(e, why, at). entry_id e) ` set (dead rs)"
proof -
  have "marked (map EntryRec es) = {}" for es
    by (induction es) auto
  moreover have
    "marked (concat (map (\<lambda>(e, why, at). [EntryRec e, Dead (entry_id e) why at]) ds))
       = (\<lambda>(e, why, at). entry_id e) ` set ds" for ds
    by (induction ds) auto
  ultimately show ?thesis by (simp add: compact_records_def)
qed

lemma marked_compact_subset: "marked (compact_records rs) \<subseteq> marked rs"
  using dead_reasons_dom by (fastforce simp: marked_compact set_dead)

lemma map_of_consistent:
  "(\<And>k v. (k, v) \<in> set xs \<Longrightarrow> f k = Some v) \<Longrightarrow> k \<in> fst ` set xs \<Longrightarrow> map_of xs k = f k"
  by (metis domD dom_map_of_conv_image_fst map_of_SomeD)

lemma dead_reasons_compact:
  assumes "e \<in> set (entries (compact_records rs))"
  shows "dead_reasons (compact_records rs) (entry_id e) = dead_reasons rs (entry_id e)"
proof -
  let ?marks = "map (\<lambda>(e, why, at). (entry_id e, why, at)) (dead rs)"
  have 1: "List.map_filter dead_reason (map EntryRec es) = []" for es
    by (induction es) (auto simp: List.map_filter_def)
  have 2: "List.map_filter dead_reason
      (concat (map (\<lambda>(e, why, at). [EntryRec e, Dead (entry_id e) why at]) ds))
      = map (\<lambda>(e, why, at). (entry_id e, why, at)) ds" for ds
    by (induction ds) (auto simp: List.map_filter_def)
  have reasons: "dead_reasons (compact_records rs) = map_of (rev ?marks)"
    by (simp add: dead_reasons_def compact_records_def 1 2)
  have good: "dead_reasons rs k = Some v" if "(k, v) \<in> set (rev ?marks)" for k v
    using that by (auto simp: set_dead)
  show ?thesis
  proof (cases "entry_id e \<in> fst ` set (rev ?marks)")
    case True
    with good show ?thesis
      unfolding reasons by (rule map_of_consistent)
  next
    case False
    then have none: "map_of (rev ?marks) (entry_id e) = None"
      by (simp only: map_of_eq_None_iff not_False_eq_True)
    have "e \<notin> fst ` set (dead rs)"
      using False by force
    with assms have "entry_id e \<notin> marked rs"
      by (auto simp: entries_compact pending_eq)
    with none show ?thesis
      by (simp add: reasons unmarked_no_reason del: map_of_eq_None_iff)
  qed
qed

lemma filter_all: "(\<And>x. x \<in> set xs \<Longrightarrow> P x) \<Longrightarrow> filter P xs = xs"
  by (simp add: filter_id_conv)

lemma pending_compact: "pending (compact_records rs) = pending rs"
proof -
  have "filter (\<lambda>e. entry_id e \<notin> marked (compact_records rs)) (pending rs) = pending rs"
    using marked_compact_subset by (intro filter_all) (auto simp: pending_eq)
  moreover have "filter (\<lambda>e. entry_id e \<notin> marked (compact_records rs)) (map fst (dead rs)) = []"
    by (force simp: filter_empty_conv marked_compact)
  ultimately show ?thesis
    by (simp add: pending_eq [of "compact_records rs"] entries_compact)
qed

lemma map_filter_cong:
  "(\<And>x. x \<in> set xs \<Longrightarrow> f x = g x) \<Longrightarrow> List.map_filter f xs = List.map_filter g xs"
  by (induction xs) (auto simp: List.map_filter_def)

lemma dead_compact: "dead (compact_records rs) = dead rs"
proof -
  let ?f = "\<lambda>e. map_option (\<lambda>(why, at). (e, why, at)) (dead_reasons rs (entry_id e))"
  have "dead (compact_records rs) = List.map_filter ?f (pending rs @ map fst (dead rs))"
    unfolding dead_eq [of "compact_records rs"]
    by (subst entries_compact [symmetric], rule map_filter_cong) (simp add: dead_reasons_compact)
  moreover have "List.map_filter ?f (pending rs) = []"
    by (force simp: List.map_filter_def filter_empty_conv pending_eq unmarked_no_reason)
  moreover have "List.map_filter ?f (map fst ds) = ds" if "set ds \<subseteq> set (dead rs)" for ds
    using that by (induction ds) (auto simp: List.map_filter_def set_dead)
  ultimately show ?thesis by simp
qed

section \<open>The contract of a delivery log\<close>

datatype log_op = Accept entry | MarkDone string | MarkDead string string string | Compact

locale delivery_log =
  fixes pending_of :: "'l \<Rightarrow> entry list"
    and dead_of :: "'l \<Rightarrow> (entry \<times> string \<times> string) list"
    and settled :: "'l \<Rightarrow> string set"
    and accept :: "entry \<Rightarrow> 'l \<Rightarrow> 'l"
    and mark_done :: "string \<Rightarrow> 'l \<Rightarrow> 'l"
    and mark_dead :: "string \<Rightarrow> string \<Rightarrow> string \<Rightarrow> 'l \<Rightarrow> 'l"
    and compact :: "'l \<Rightarrow> 'l"
  assumes pending_accept:
      "entry_id e \<notin> settled l \<Longrightarrow> pending_of (accept e l) = pending_of l @ [e]"
    and settled_accept: "settled (accept e l) = settled l"
    and pending_done:
      "pending_of (mark_done i l) = filter (\<lambda>e. entry_id e \<noteq> i) (pending_of l)"
    and pending_dead:
      "pending_of (mark_dead i why at l) = filter (\<lambda>e. entry_id e \<noteq> i) (pending_of l)"
    and settled_done: "settled (mark_done i l) = insert i (settled l)"
    and settled_dead: "settled (mark_dead i why at l) = insert i (settled l)"
    and dead_mark_dead:
      "e \<in> set (pending_of l) \<Longrightarrow>
       (e, why, at) \<in> set (dead_of (mark_dead (entry_id e) why at l))"
    and dead_accept: "set (dead_of l) \<subseteq> set (dead_of (accept e l))"
    and dead_done: "dead_of (mark_done i l) = dead_of l"
    and dead_kept:
      "(e, why, at) \<in> set (dead_of l) \<Longrightarrow>
       \<exists>why' at'. (e, why', at') \<in> set (dead_of (mark_dead i w t l))"
    and pending_compacted: "pending_of (compact l) = pending_of l"
    and dead_compacted: "dead_of (compact l) = dead_of l"
    and settled_compacted: "settled (compact l) \<subseteq> settled l"
begin

fun run_op :: "log_op \<Rightarrow> 'l \<Rightarrow> 'l" where
  "run_op (Accept e) l = accept e l"
| "run_op (MarkDone i) l = mark_done i l"
| "run_op (MarkDead i why at) l = mark_dead i why at l"
| "run_op Compact l = compact l"

fun run_ops :: "log_op list \<Rightarrow> 'l \<Rightarrow> 'l" where
  "run_ops [] l = l"
| "run_ops (x # xs) l = run_ops xs (run_op x l)"

lemma run_ops_append: "run_ops (xs @ ys) l = run_ops ys (run_ops xs l)"
  by (induction xs arbitrary: l) auto

text \<open>Ids are fresh: no accepted entry reuses an id some marker named.\<close>

fun fresh_ops :: "log_op list \<Rightarrow> 'l \<Rightarrow> bool" where
  "fresh_ops [] l = True"
| "fresh_ops (x # xs) l =
     ((case x of Accept e \<Rightarrow> entry_id e \<notin> settled l | _ \<Rightarrow> True) \<and> fresh_ops xs (run_op x l))"

definition held :: "entry \<Rightarrow> 'l \<Rightarrow> bool" where
  "held e l \<longleftrightarrow> e \<in> set (pending_of l) \<or> (\<exists>why at. (e, why, at) \<in> set (dead_of l))"

lemma run_op_held:
  assumes "held e l" "x \<noteq> MarkDone (entry_id e)"
    "case x of Accept e' \<Rightarrow> entry_id e' \<notin> settled l | _ \<Rightarrow> True"
  shows "held e (run_op x l)"
proof (cases x)
  case (Accept e')
  with assms show ?thesis
    using dead_accept [of l e'] by (auto simp: held_def pending_accept)
next
  case (MarkDone i)
  with assms show ?thesis by (auto simp: held_def pending_done dead_done)
next
  case (MarkDead i why at)
  show ?thesis
  proof (cases "e \<in> set (pending_of l)")
    case True
    then show ?thesis
      using MarkDead dead_mark_dead [OF True, of why at]
      by (cases "entry_id e = i") (auto simp: held_def pending_dead)
  next
    case False
    with assms(1) MarkDead dead_kept show ?thesis by (fastforce simp: held_def)
  qed
next
  case Compact
  with assms(1) show ?thesis by (simp add: held_def pending_compacted dead_compacted)
qed

text \<open>
  The promise behind the 202: an accepted entry that no done marker named is still there, to be
  delivered or to be read with the reason it was set aside, whatever else happened to the log.
\<close>

lemma nothing_lost:
  "held e l \<Longrightarrow> fresh_ops xs l \<Longrightarrow> MarkDone (entry_id e) \<notin> set xs \<Longrightarrow> held e (run_ops xs l)"
proof (induction xs arbitrary: l)
  case Nil
  then show ?case by simp
next
  case (Cons x xs)
  have "held e (run_op x l)"
    by (rule run_op_held) (use Cons.prems in auto)
  then show ?case
    using Cons.prems by (simp add: Cons.IH)
qed

text \<open>What was settled stays out of the queue: a delivered entry is not delivered again.\<close>

lemma settled_stays_out:
  "i \<notin> entry_id ` set (pending_of l) \<Longrightarrow> fresh_ops xs l \<Longrightarrow>
   (\<And>e. Accept e \<in> set xs \<Longrightarrow> entry_id e \<noteq> i) \<Longrightarrow>
   i \<notin> entry_id ` set (pending_of (run_ops xs l))"
proof (induction xs arbitrary: l)
  case Nil
  then show ?case by simp
next
  case (Cons x xs)
  have "i \<notin> entry_id ` set (pending_of (run_op x l))"
    using Cons.prems
    by (cases x) (auto simp: pending_accept pending_done pending_dead pending_compacted)
  then show ?case
    using Cons.prems by (simp add: Cons.IH)
qed

end

text \<open>The log of records meets the contract.\<close>

definition append_entry :: "entry \<Rightarrow> log_record list \<Rightarrow> log_record list" where
  "append_entry e rs = rs @ [EntryRec e]"

definition append_done :: "string \<Rightarrow> log_record list \<Rightarrow> log_record list" where
  "append_done i rs = rs @ [Done i]"

definition append_dead :: "string \<Rightarrow> string \<Rightarrow> string \<Rightarrow> log_record list \<Rightarrow> log_record list" where
  "append_dead i why at rs = rs @ [Dead i why at]"

lemmas append_defs = append_entry_def append_done_def append_dead_def

interpretation log: delivery_log pending dead marked append_entry append_done append_dead
  compact_records
proof
  fix e :: entry and rs :: "log_record list" and i why at w t :: string
  show "entry_id e \<notin> marked rs \<Longrightarrow> pending (append_entry e rs) = pending rs @ [e]"
    and "marked (append_entry e rs) = marked rs"
    and "marked (append_done i rs) = insert i (marked rs)"
    and "marked (append_dead i why at rs) = insert i (marked rs)"
    by (auto simp: append_defs pending_eq)
  show "pending (append_done i rs) = filter (\<lambda>e. entry_id e \<noteq> i) (pending rs)"
    and "pending (append_dead i why at rs) = filter (\<lambda>e. entry_id e \<noteq> i) (pending rs)"
    by (auto simp: append_defs pending_eq intro!: filter_cong)
  show "e \<in> set (pending rs) \<Longrightarrow>
      (e, why, at) \<in> set (dead (append_dead (entry_id e) why at rs))"
    by (simp add: append_defs set_dead pending_eq)
  show "set (dead rs) \<subseteq> set (dead (append_entry e rs))"
    by (auto simp: append_defs set_dead)
  show "dead (append_done i rs) = dead rs"
    by (simp add: append_defs dead_eq)
  show "(e, why, at) \<in> set (dead rs) \<Longrightarrow>
      \<exists>why' at'. (e, why', at') \<in> set (dead (append_dead i w t rs))"
    by (auto simp: append_defs set_dead)
  show "pending (compact_records rs) = pending rs" and "dead (compact_records rs) = dead rs"
    and "marked (compact_records rs) \<subseteq> marked rs"
    by (rule pending_compact dead_compact marked_compact_subset)+
qed

text \<open>The operation that appends one record.\<close>

fun op_of_record :: "log_record \<Rightarrow> log_op" where
  "op_of_record (EntryRec e) = Accept e"
| "op_of_record (Done i) = MarkDone i"
| "op_of_record (Dead i why at) = MarkDead i why at"

lemma run_op_of_record: "log.run_op (op_of_record r) rs = rs @ [r]"
  by (cases r) (simp_all add: append_defs)

lemma run_ops_snoc:
  "log.run_ops (ops @ [op_of_record r]) rs = log.run_ops ops rs @ [r]"
  "log.run_ops (ops @ [Compact]) rs = compact_records (log.run_ops ops rs)"
  by (simp_all add: log.run_ops_append run_op_of_record)

text \<open>The log that a sequence of operations builds.\<close>

fun apply_op :: "log_op \<Rightarrow> log_record list \<Rightarrow> log_record list" where
  "apply_op (Accept e) rs = append_entry e rs"
| "apply_op (MarkDone i) rs = append_done i rs"
| "apply_op (MarkDead i why at) rs = append_dead i why at rs"
| "apply_op Compact rs = compact_records rs"

fun replay :: "log_op list \<Rightarrow> log_record list \<Rightarrow> log_record list" where
  "replay [] rs = rs"
| "replay (x # xs) rs = replay xs (apply_op x rs)"

lemma run_op_apply: "log.run_op x rs = apply_op x rs"
  by (cases x) auto

lemma run_ops_replay: "log.run_ops xs rs = replay xs rs"
  by (induction xs arbitrary: rs) (simp_all add: run_op_apply)

lemma replay_append: "replay (xs @ ys) rs = replay ys (replay xs rs)"
  by (induction xs arbitrary: rs) auto

lemma apply_op_of_record: "apply_op (op_of_record r) rs = rs @ [r]"
  by (cases r) (simp_all add: append_defs)

text \<open>Ids are fresh: no accepted entry reuses an id that a marker named before it.\<close>

fun fresh_ids :: "string set \<Rightarrow> log_op list \<Rightarrow> bool" where
  "fresh_ids M [] \<longleftrightarrow> True"
| "fresh_ids M (Accept e # xs) \<longleftrightarrow> entry_id e \<notin> M \<and> fresh_ids M xs"
| "fresh_ids M (MarkDone i # xs) \<longleftrightarrow> fresh_ids (insert i M) xs"
| "fresh_ids M (MarkDead i why at # xs) \<longleftrightarrow> fresh_ids (insert i M) xs"
| "fresh_ids M (Compact # xs) \<longleftrightarrow> fresh_ids M xs"

lemma fresh_ids_ops: "fresh_ids M xs \<Longrightarrow> marked rs \<subseteq> M \<Longrightarrow> log.fresh_ops xs rs"
proof (induction M xs arbitrary: rs rule: fresh_ids.induct)
  case (5 M xs)
  then show ?case using marked_compact_subset [of rs] by auto
next
  case (3 M i xs)
  from "3.IH" [of "append_done i rs"] "3.prems" show ?case by (auto simp: log.settled_done)
next
  case (4 M i why at xs)
  from "4.IH" [of "append_dead i why at rs"] "4.prems" show ?case by (auto simp: log.settled_dead)
qed (auto simp: log.settled_accept)

lemma fresh_ids_append: "fresh_ids M (xs @ ys) \<Longrightarrow> fresh_ids M xs"
  by (induction M xs rule: fresh_ids.induct) auto

lemma fresh_ids_tail: "fresh_ids M (xs @ ys) \<Longrightarrow> log.fresh_ops ys (replay xs rs)" if "marked rs \<subseteq> M"
  using that
proof (induction M xs arbitrary: rs rule: fresh_ids.induct)
  case (1 M)
  then show ?case by (simp add: fresh_ids_ops)
next
  case (5 M xs)
  then show ?case using marked_compact_subset [of rs] by auto
next
  case (3 M i xs)
  from "3.IH" [of "append_done i rs"] "3.prems" show ?case by (auto simp: log.settled_done)
next
  case (4 M i why at xs)
  from "4.IH" [of "append_dead i why at rs"] "4.prems" show ?case by (auto simp: log.settled_dead)
qed (auto simp: log.settled_accept)

text \<open>Once accepted, an entry without a done marker is waiting or set aside.\<close>

lemma replay_nothing_lost:
  assumes "fresh_ids {} (xs @ Accept e # ys)" "MarkDone (entry_id e) \<notin> set ys"
  shows "e \<in> set (pending (replay (xs @ Accept e # ys) [])) \<or>
    (\<exists>why at. (e, why, at) \<in> set (dead (replay (xs @ Accept e # ys) [])))"
proof -
  let ?l = "append_entry e (replay xs [])"
  have fresh: "log.fresh_ops (Accept e # ys) (replay xs [])"
    using fresh_ids_tail [of "[]" "{}", OF _ assms(1)] by simp
  then have "log.held e ?l"
    by (simp add: log.held_def append_defs pending_eq)
  from log.nothing_lost [OF this _ assms(2)] fresh
  show ?thesis by (simp add: log.held_def run_ops_replay replay_append)
qed

text \<open>Markers keep whatever they do not settle.\<close>

lemma replay_records: "replay (map op_of_record xs) l = l @ xs"
  by (induction xs arbitrary: l) (simp_all add: apply_op_of_record)

lemma markers_keep_held:
  assumes "\<forall>m \<in> set ms. marker_id m \<noteq> None" "Done (entry_id e) \<notin> set ms" "e \<in> set (pending rs)"
  shows "e \<in> set (pending (rs @ ms)) \<or> (\<exists>why at. (e, why, at) \<in> set (dead (rs @ ms)))"
proof -
  have fresh: "log.fresh_ops (map op_of_record ms) rs"
    using assms(1)
  proof (induction ms arbitrary: rs)
    case Nil
    then show ?case by simp
  next
    case (Cons m ms)
    then show ?case by (cases m) auto
  qed
  have "op_of_record m = MarkDone i \<Longrightarrow> m = Done i" for m i
    by (cases m) auto
  with assms(2) have "MarkDone (entry_id e) \<notin> set (map op_of_record ms)"
    by (metis (no_types, lifting) imageE list.set_map)
  moreover have "log.held e rs"
    using assms(3) by (simp add: log.held_def)
  ultimately have "log.held e (log.run_ops (map op_of_record ms) rs)"
    using log.nothing_lost fresh by blast
  then show ?thesis by (simp add: log.held_def run_ops_replay replay_records)
qed

end
