(* ===== verification/Observability.thy ===== *)
theory Observability
  imports Prelude "HOL-Library.Word"
begin

text \<open>
  What the running hub remembers about itself: the bounded history behind the debug surface
  (src/core/observability.rs) and the counters a scrape renders (src/core/metrics.rs).
\<close>

section \<open>Routes\<close>

datatype route_outcome =
    Created string
  | Updated string
  | Failed string string

record route_record =
  route_at :: string
  route_source :: string
  route_entry :: string
  route_key :: "string option"
  route_outcome :: route_outcome

section \<open>The ring buffer\<close>

record 'a ring =
  ring_items :: "'a list"
  ring_capacity :: nat

definition ring_new :: "nat \<Rightarrow> 'a ring" where
  "ring_new n = \<lparr>ring_items = [], ring_capacity = max n 1\<rparr>"

text \<open>\<open>while self.items.len() > self.capacity { self.items.pop_back(); }\<close>\<close>

function pop_back_over :: "nat \<Rightarrow> 'a list \<Rightarrow> 'a list" where
  "pop_back_over cap xs = (if cap < length xs then pop_back_over cap (butlast xs) else xs)"
  by pat_completeness auto

termination
  by (relation "measure (\<lambda>(cap, xs). length xs)") auto

declare pop_back_over.simps [simp del]

definition ring_push :: "'a \<Rightarrow> 'a ring \<Rightarrow> 'a ring" where
  "ring_push x b = b\<lparr>ring_items := pop_back_over (ring_capacity b) (x # ring_items b)\<rparr>"

definition ring_len :: "'a ring \<Rightarrow> nat" where
  "ring_len b = length (ring_items b)"

definition ring_is_empty :: "'a ring \<Rightarrow> bool" where
  "ring_is_empty b \<longleftrightarrow> ring_items b = []"

definition ring_retain :: "('a \<Rightarrow> bool) \<Rightarrow> 'a ring \<Rightarrow> 'a ring" where
  "ring_retain P b = b\<lparr>ring_items := filter P (ring_items b)\<rparr>"

lemma pop_back_over_take: "pop_back_over cap xs = take cap xs"
  by (induction cap xs rule: pop_back_over.induct)
    (subst pop_back_over.simps, simp add: take_butlast)

subsection \<open>The contract of a bounded history\<close>

text \<open>What the debug surface relies on: newest first, and never more than the capacity.\<close>

locale bounded_history =
  fixes items :: "'h \<Rightarrow> 'a list"
    and capacity :: "'h \<Rightarrow> nat"
    and push :: "'a \<Rightarrow> 'h \<Rightarrow> 'h"
  assumes items_push: "items (push x h) = take (capacity h) (x # items h)"
    and capacity_push: "capacity (push x h) = capacity h"
begin

fun push_all :: "'a list \<Rightarrow> 'h \<Rightarrow> 'h" where
  "push_all [] h = h"
| "push_all (x # xs) h = push_all xs (push x h)"

lemma capacity_push_all: "capacity (push_all xs h) = capacity h"
  by (induction xs arbitrary: h) (simp_all add: capacity_push)

lemma push_all_items:
  "length (items h) \<le> capacity h \<Longrightarrow>
   items (push_all xs h) = take (capacity h) (rev xs @ items h)"
proof (induction xs arbitrary: h)
  case Nil
  then show ?case by simp
next
  case (Cons x xs)
  have "items (push_all xs (push x h)) = take (capacity h) (rev xs @ take (capacity h) (x # items h))"
    using Cons.IH [of "push x h"] by (simp add: items_push capacity_push)
  also have "\<dots> = take (capacity h) (rev xs @ x # items h)"
    by (simp add: min_def)
  finally show ?case by simp
qed

lemma newest_first: "0 < capacity h \<Longrightarrow> hd (items (push x h)) = x"
  by (cases "capacity h") (simp_all add: items_push)

end

interpretation ring: bounded_history ring_items ring_capacity ring_push
  by unfold_locales (simp_all add: ring_push_def pop_back_over_take)

section \<open>Counters\<close>

text \<open>\<open>AtomicU64\<close>: \<open>fetch_add\<close> wraps.\<close>

record metrics =
  m_accepted :: "64 word"
  m_delivered :: "64 word"
  m_failed :: "64 word"
  m_dead :: "64 word"
  m_token_refreshes :: "64 word"

definition metrics_zero :: metrics where
  "metrics_zero =
     \<lparr>m_accepted = 0, m_delivered = 0, m_failed = 0, m_dead = 0, m_token_refreshes = 0\<rparr>"

definition count_accepted :: "metrics \<Rightarrow> metrics" where
  "count_accepted m = m\<lparr>m_accepted := m_accepted m + 1\<rparr>"

definition count_delivered :: "64 word \<Rightarrow> metrics \<Rightarrow> metrics" where
  "count_delivered n m = m\<lparr>m_delivered := m_delivered m + n\<rparr>"

definition count_failed :: "64 word \<Rightarrow> metrics \<Rightarrow> metrics" where
  "count_failed n m = m\<lparr>m_failed := m_failed m + n\<rparr>"

definition count_dead :: "64 word \<Rightarrow> metrics \<Rightarrow> metrics" where
  "count_dead n m = m\<lparr>m_dead := m_dead m + n\<rparr>"

definition count_token_refreshed :: "metrics \<Rightarrow> metrics" where
  "count_token_refreshed m = m\<lparr>m_token_refreshes := m_token_refreshes m + 1\<rparr>"

record counts =
  c_accepted :: "64 word"
  c_delivered :: "64 word"
  c_failed :: "64 word"
  c_dead :: "64 word"
  c_token_refreshes :: "64 word"

definition snapshot :: "metrics \<Rightarrow> counts" where
  "snapshot m =
     \<lparr>c_accepted = m_accepted m, c_delivered = m_delivered m, c_failed = m_failed m,
      c_dead = m_dead m, c_token_refreshes = m_token_refreshes m\<rparr>"

subsection \<open>Rendering\<close>

definition show_u64 :: "64 word \<Rightarrow> string" where
  "show_u64 w = show_nat (unat w)"

fun render_counter :: "string \<times> string \<times> 64 word \<Rightarrow> string" where
  "render_counter (name, help, value) =
     ''# HELP '' @ name @ '' '' @ help @ newline @ ''# TYPE '' @ name @ '' counter'' @ newline @
     name @ '' '' @ show_u64 value @ newline"

definition metric_table :: "metrics \<Rightarrow> (string \<times> string \<times> 64 word) list" where
  "metric_table m =
     [(''almanac_events_accepted_total'',
       ''Payloads accepted at ingest and written to the journal.'', m_accepted m),
      (''almanac_events_delivered_total'',
       ''Journal entries delivered to Google Calendar.'', m_delivered m),
      (''almanac_deliveries_failed_total'',
       ''Delivery attempts that failed, including ones later retried successfully.'', m_failed m),
      (''almanac_entries_dead_total'',
       ''Entries given up on after repeated permanent failures.'', m_dead m),
      (''almanac_token_refreshes_total'', ''Access tokens fetched from Google.'',
       m_token_refreshes m)]"

definition metrics_render :: "metrics \<Rightarrow> 64 word option \<Rightarrow> string \<Rightarrow> string" where
  "metrics_render m pending version =
     concat (map render_counter (metric_table m)) @
     ''# HELP almanac_journal_pending Entries accepted but not yet delivered.'' @ newline @
     ''# TYPE almanac_journal_pending gauge'' @ newline @
     (case pending of
        Some n \<Rightarrow> ''almanac_journal_pending '' @ show_u64 n @ newline
      | None \<Rightarrow> ''# journal unreadable at scrape time; gauge omitted'' @ newline) @
     ''# HELP almanac_journal_readable Whether the journal could be read for this scrape.'' @
     newline @ ''# TYPE almanac_journal_readable gauge'' @ newline @
     ''almanac_journal_readable '' @ (if pending = None then ''0'' else ''1'') @ newline"

end
