(* ===== verification/Token_Manager.thy ===== *)
theory Token_Manager
  imports Errors Calendar_Model Observability
begin

text \<open>
  The bearer token for Google's API: src/shell/auth.rs. Everything outside the process is the state
  \<open>'w\<close>, and the HTTP client, the clock and the crypto crates are the fields of \<open>services\<close>.
  The lock around the cached token makes every call of \<open>token\<close> one step.
\<close>

section \<open>The outside\<close>

datatype http_body = NoBody | JsonBody json | FormBody "(string \<times> string) list"

record http_request =
  http_method :: string
  http_url :: string
  http_bearer :: "string option"
  http_query :: "(string \<times> string) list"
  http_body :: http_body

text \<open>A response: its status, and its body or the error of reading it.\<close>

record http_response =
  resp_status :: nat
  resp_body :: "string + string"

record google_claims =
  claim_iss :: string
  claim_scope :: string
  claim_aud :: string
  claim_exp :: "64 word"
  claim_iat :: "64 word"

record ('w, 'k) services =
  send_http :: "http_request \<Rightarrow> 'w \<Rightarrow> (string + http_response) \<times> 'w"
  unix_clock :: "'w \<Rightarrow> (string + 64 word) \<times> 'w"
  key_from_pem :: "string \<Rightarrow> string + 'k"
  jwt_encode :: "'k \<Rightarrow> google_claims \<Rightarrow> string + string"
  read_json :: "string \<Rightarrow> string + json"
  shape_error :: "json \<Rightarrow> string"
  read_error_body :: "string \<Rightarrow> google_error_body option"
  status_text :: "nat \<Rightarrow> string"

text \<open>\<open>response.json::<T>()\<close> and \<open>response.text().unwrap_or_default()\<close>.\<close>

definition response_json ::
  "('w, 'k) services \<Rightarrow> (json \<Rightarrow> 'a option) \<Rightarrow> http_response \<Rightarrow> string + 'a" where
  "response_json S of_json resp =
     (case resp_body resp of
        Inl e \<Rightarrow> Inl e
      | Inr text \<Rightarrow>
          (case read_json S text of
             Inl e \<Rightarrow> Inl e
           | Inr v \<Rightarrow> (case of_json v of None \<Rightarrow> Inl (shape_error S v) | Some a \<Rightarrow> Inr a)))"

definition response_text :: "http_response \<Rightarrow> string" where
  "response_text resp = (case resp_body resp of Inl e \<Rightarrow> [] | Inr text \<Rightarrow> text)"

definition is_success :: "http_response \<Rightarrow> bool" where
  "is_success resp \<longleftrightarrow> 200 \<le> resp_status resp \<and> resp_status resp \<le> 299"

definition response_is_transient :: "('w, 'k) services \<Rightarrow> http_response \<Rightarrow> bool" where
  "response_is_transient S resp =
     retry_is_transient (resp_status resp)
       (extract_reason (read_error_body S) (response_text resp))"

section \<open>The process\<close>

record token_state =
  access_token :: string
  expires_at_secs :: "64 word"

record 'w hub =
  outside :: 'w
  token_cache :: "token_state option"
  hub_metrics :: metrics

definition hub_send ::
  "('w, 'k) services \<Rightarrow> http_request \<Rightarrow> 'w hub \<Rightarrow> (string + http_response) \<times> 'w hub" where
  "hub_send S req h =
     (case send_http S req (outside h) of (r, w) \<Rightarrow> (r, h\<lparr>outside := w\<rparr>))"

definition CALENDAR_SCOPE :: string where
  "CALENDAR_SCOPE = ''https://www.googleapis.com/auth/calendar''"

definition JWT_LIFETIME_SECS :: "64 word" where
  "JWT_LIFETIME_SECS = 3600"

definition JWT_BEARER_GRANT_TYPE :: string where
  "JWT_BEARER_GRANT_TYPE = ''urn:ietf:params:oauth:grant-type:jwt-bearer''"

definition REFRESH_MARGIN_SECS :: "64 word" where
  "REFRESH_MARGIN_SECS = 300"

definition now_secs :: "('w, 'k) services \<Rightarrow> 'w hub \<Rightarrow> 64 word result \<times> 'w hub" where
  "now_secs S h =
     (case unix_clock S (outside h) of
        (Inr t, w) \<Rightarrow> (Inr t, h\<lparr>outside := w\<rparr>)
      | (Inl e, w) \<Rightarrow>
          (Inl (Auth (''system clock is set before the Unix epoch: '' @ e)
                 ''fix the system clock'' False),
           h\<lparr>outside := w\<rparr>))"

text \<open>\<open>private_key.replace("\\n", "\n")\<close>: the two characters backslash and n become a line feed.\<close>

fun unescape_newlines :: "string \<Rightarrow> string" where
  "unescape_newlines [] = []"
| "unescape_newlines [c] = [c]"
| "unescape_newlines (c # d # s) =
     (if c = CHR 0x5C \<and> d = CHR ''n'' then CHR 0x0A # unescape_newlines s
      else c # unescape_newlines (d # s))"

definition token_of_json :: "json \<Rightarrow> (string \<times> 64 word) option" where
  "token_of_json v =
     Option.bind (struct_fields [''access_token'', ''expires_in''] v) (\<lambda>kvs.
     Option.bind (field de_string ''access_token'' kvs) (\<lambda>t.
     Option.bind (field de_u64 ''expires_in'' kvs) (\<lambda>n. Some (t, of_nat n))))"

section \<open>Fetching a token\<close>

definition sign_assertion ::
  "('w, 'k) services \<Rightarrow> credentials \<Rightarrow> 64 word \<Rightarrow> string result" where
  "sign_assertion S creds now =
     (let claims = \<lparr>claim_iss = client_email creds, claim_scope = CALENDAR_SCOPE,
                    claim_aud = token_url creds, claim_exp = now + JWT_LIFETIME_SECS,
                    claim_iat = now\<rparr>
      in case key_from_pem S (unescape_newlines (private_key creds)) of
           Inl e \<Rightarrow>
             Inl (Auth (''failed to parse the service-account private key: '' @ e)
               (''check that PRIVATE_KEY in Latch is the unmodified PEM from the Google '' @
                ''service-account JSON'') False)
         | Inr key \<Rightarrow>
             (case jwt_encode S key claims of
                Inl e \<Rightarrow>
                  Inl (Auth (''failed to sign the service-account JWT: '' @ e)
                    ''regenerate the service-account key in Google Cloud Console'' False)
              | Inr jwt \<Rightarrow> Inr jwt))"

definition token_request :: "credentials \<Rightarrow> string \<Rightarrow> http_request" where
  "token_request creds jwt =
     \<lparr>http_method = ''POST'', http_url = token_url creds, http_bearer = None, http_query = [],
      http_body = FormBody [(''grant_type'', JWT_BEARER_GRANT_TYPE), (''assertion'', jwt)]\<rparr>"

definition token_failure :: "('w, 'k) services \<Rightarrow> http_response \<Rightarrow> almanac_error" where
  "token_failure S resp =
     Auth (''token endpoint returned HTTP '' @ status_text S (resp_status resp) @ '': '' @
           response_text resp)
       (if response_is_transient S resp
        then ''transient token-endpoint failure '' @ em_dash @ '' retrying automatically''
        else ''check the service account is enabled and CLIENT_EMAIL/PRIVATE_KEY match'')
       (response_is_transient S resp)"

definition fetch_token ::
  "('w, 'k) services \<Rightarrow> credentials \<Rightarrow> 'w hub \<Rightarrow> (string \<times> 64 word) result \<times> 'w hub" where
  "fetch_token S creds h =
     (case now_secs S h of
        (Inl e, h1) \<Rightarrow> (Inl e, h1)
      | (Inr now, h1) \<Rightarrow>
          (case sign_assertion S creds now of
             Inl e \<Rightarrow> (Inl e, h1)
           | Inr jwt \<Rightarrow>
               (case hub_send S (token_request creds jwt) h1 of
                  (Inl e, h2) \<Rightarrow>
                    (Inl (Auth (''token request to '' @ token_url creds @ '' failed: '' @ e)
                       (''transient network failure '' @ em_dash @ '' retrying automatically'')
                       True), h2)
                | (Inr resp, h2) \<Rightarrow>
                    if \<not> is_success resp then (Inl (token_failure S resp), h2)
                    else
                      (case response_json S token_of_json resp of
                         Inl e \<Rightarrow>
                           (Inl (Auth (''failed to parse the token endpoint response: '' @ e)
                              (''check Google's OAuth2 token endpoint response format '' @
                               ''hasn't changed'') False), h2)
                       | Inr (tok, expires_in) \<Rightarrow> (Inr (tok, now + expires_in), h2)))))"

section \<open>The cached token\<close>

text \<open>
  \<open>now + margin >= expires_at\<close> on \<open>u64\<close>. The reading of the clock comes first and its error is
  the result.
\<close>

definition needs_refresh ::
  "('w, 'k) services \<Rightarrow> 'w hub \<Rightarrow> bool result \<times> 'w hub" where
  "needs_refresh S h =
     (case token_cache h of
        None \<Rightarrow> (Inr True, h)
      | Some st \<Rightarrow>
          (case now_secs S h of
             (Inl e, h1) \<Rightarrow> (Inl e, h1)
           | (Inr now, h1) \<Rightarrow> (Inr (expires_at_secs st \<le> now + REFRESH_MARGIN_SECS), h1)))"

definition get_token ::
  "('w, 'k) services \<Rightarrow> credentials \<Rightarrow> 'w hub \<Rightarrow> string result \<times> 'w hub" where
  "get_token S creds h =
     (case needs_refresh S h of
        (Inl e, h1) \<Rightarrow> (Inl e, h1)
      | (Inr True, h1) \<Rightarrow>
          (case fetch_token S creds h1 of
             (Inl e, h2) \<Rightarrow> (Inl e, h2)
           | (Inr (tok, expires), h2) \<Rightarrow>
               (Inr tok,
                h2\<lparr>token_cache := Some \<lparr>access_token = tok, expires_at_secs = expires\<rparr>,
                   hub_metrics := count_token_refreshed (hub_metrics h2)\<rparr>))
      | (Inr False, h1) \<Rightarrow>
          (case token_cache h1 of
             Some st \<Rightarrow> (Inr (access_token st), h1)
           | None \<Rightarrow> (Inr [], h1)))"

lemma now_secs_frame:
  "now_secs S h = (r, h') \<Longrightarrow> token_cache h' = token_cache h \<and> hub_metrics h' = hub_metrics h"
  by (auto simp: now_secs_def split: prod.splits sum.splits)

lemma hub_send_frame:
  "hub_send S req h = (r, h') \<Longrightarrow> token_cache h' = token_cache h \<and> hub_metrics h' = hub_metrics h"
  by (auto simp: hub_send_def split: prod.splits)

lemma fetch_token_frame:
  "fetch_token S creds h = (r, h') \<Longrightarrow>
     token_cache h' = token_cache h \<and> hub_metrics h' = hub_metrics h"
  by (auto simp: fetch_token_def dest!: now_secs_frame hub_send_frame
      split: prod.splits sum.splits if_splits)

lemma needs_refresh_frame:
  "needs_refresh S h = (r, h') \<Longrightarrow>
     token_cache h' = token_cache h \<and> hub_metrics h' = hub_metrics h"
  by (auto simp: needs_refresh_def dest!: now_secs_frame
      split: option.splits prod.splits sum.splits)

lemma needs_refresh_empty: "token_cache h = None \<Longrightarrow> needs_refresh S h = (Inr True, h)"
  by (simp add: needs_refresh_def)

text \<open>
  What a call returns is what the cache holds afterwards; a failed call leaves the cache as it was,
  so a token that was fetched is kept while a refresh keeps failing.
\<close>

lemma get_token_ok:
  assumes "get_token S creds h = (Inr tok, h')"
  shows "\<exists>st. token_cache h' = Some st \<and> access_token st = tok"
proof -
  obtain r h1 where n: "needs_refresh S h = (r, h1)" by fastforce
  note frame = needs_refresh_frame [OF n]
  show ?thesis
  proof (cases "r = Inr False")
    case True
    with n frame needs_refresh_empty [of h S] assms show ?thesis
      by (auto simp: get_token_def split: option.splits)
  next
    case False
    with n assms show ?thesis
      by (auto simp: get_token_def split: prod.splits sum.splits bool.splits)
  qed
qed

lemma get_token_err:
  assumes "get_token S creds h = (Inl e, h')"
  shows "token_cache h' = token_cache h" "hub_metrics h' = hub_metrics h"
  using assms
  by (auto simp: get_token_def dest!: needs_refresh_frame fetch_token_frame
      split: prod.splits sum.splits bool.splits option.splits)

text \<open>
  A token served from the cache is good for more than the margin: the clock read by this very call
  is at least that far from its expiry. No request is sent for it.
\<close>

lemma cached_token:
  assumes "token_cache h = Some st" "unix_clock S (outside h) = (Inr now, w)"
    "now + REFRESH_MARGIN_SECS < expires_at_secs st"
  shows "get_token S creds h = (Inr (access_token st), h\<lparr>outside := w\<rparr>)"
proof -
  have "(expires_at_secs st \<le> now + REFRESH_MARGIN_SECS) = False"
    using assms(3) by (simp only: not_le [symmetric] simp_thms)
  with assms(1,2) show ?thesis
    by (simp add: get_token_def needs_refresh_def now_secs_def)
qed

lemma stale_token_refetched:
  assumes "token_cache h = Some st" "unix_clock S (outside h) = (Inr now, w)"
    "expires_at_secs st \<le> now + REFRESH_MARGIN_SECS"
  shows "fst (get_token S creds h) = map_sum id fst (fst (fetch_token S creds (h\<lparr>outside := w\<rparr>)))"
  using assms
  by (auto simp: get_token_def needs_refresh_def now_secs_def split: prod.splits sum.splits)

end
