(* ===== verification/Calendar_Client.thy ===== *)
theory Calendar_Client
  imports Token_Manager "HOL-Library.List_Lexorder" "HOL-Library.Char_ord"
begin

text \<open>
  The client of Google's Calendar API: src/shell/calendar_client.rs. The retry loop is the
  \<open>backoff\<close> crate's, a parameter; \<open>retry_run\<close> is what the crate documents of it.
\<close>

section \<open>One attempt and the retry loop\<close>

text \<open>\<open>Ok\<close>, \<open>backoff::Error::Transient\<close> and \<open>backoff::Error::Permanent\<close>.\<close>

datatype attempt = Success http_response | Retryable almanac_error | Fatal almanac_error

type_synonym 'w retrier =
  "('w hub \<Rightarrow> attempt \<times> 'w hub) \<Rightarrow> 'w hub \<Rightarrow> http_response result \<times> 'w hub"

text \<open>
  Runs of the loop: a value or a permanent error ends it, a transient error either ends it (the time
  is up) or is followed, after a pause in which the outside may change, by another attempt.
\<close>

inductive retry_run ::
  "('w hub \<Rightarrow> attempt \<times> 'w hub) \<Rightarrow> 'w hub \<Rightarrow> http_response result \<Rightarrow> 'w hub \<Rightarrow> bool"
  for op where
  succeeds: "op h = (Success resp, h') \<Longrightarrow> retry_run op h (Inr resp) h'"
| permanent: "op h = (Fatal e, h') \<Longrightarrow> retry_run op h (Inl e) h'"
| out_of_time: "op h = (Retryable e, h') \<Longrightarrow> retry_run op h (Inl e) h'"
| again:
    "op h = (Retryable e, h1) \<Longrightarrow> retry_run op (h1\<lparr>outside := w\<rparr>) r h' \<Longrightarrow> retry_run op h r h'"

definition retry_ok :: "'w retrier \<Rightarrow> bool" where
  "retry_ok retry \<longleftrightarrow> (\<forall>op h. retry_run op h (fst (retry op h)) (snd (retry op h)))"

inductive_cases retry_runE: "retry_run op h r h'"

text \<open>
  The same with the attempts counted and the pauses described: \<open>attempts pause op k h a h'\<close> when \<open>k\<close>
  attempts failed for a passing reason and the next one, the last, had the outcome \<open>a\<close>. A loop has
  time for \<open>n\<close> retries in a call when it is not the time that ends it before them.
\<close>

inductive attempts ::
  "('w \<Rightarrow> 'w \<Rightarrow> bool) \<Rightarrow> ('w hub \<Rightarrow> attempt \<times> 'w hub) \<Rightarrow> nat \<Rightarrow> 'w hub \<Rightarrow> attempt \<Rightarrow> 'w hub \<Rightarrow> bool"
  for pause op where
  last_one: "op h = (a, h') \<Longrightarrow> attempts pause op 0 h a h'"
| one_more:
    "op h = (Retryable e, h1) \<Longrightarrow> pause (outside h1) w \<Longrightarrow>
     attempts pause op k (h1\<lparr>outside := w\<rparr>) a h' \<Longrightarrow> attempts pause op (Suc k) h a h'"

fun attempt_result :: "attempt \<Rightarrow> http_response result" where
  "attempt_result (Success resp) = Inr resp"
| "attempt_result (Retryable e) = Inl e"
| "attempt_result (Fatal e) = Inl e"

definition has_time ::
  "('w \<Rightarrow> 'w \<Rightarrow> bool) \<Rightarrow> nat \<Rightarrow> 'w retrier \<Rightarrow> ('w hub \<Rightarrow> attempt \<times> 'w hub) \<Rightarrow> 'w hub \<Rightarrow> bool" where
  "has_time pause n retry op h \<longleftrightarrow>
     (\<exists>k a h'. attempts pause op k h a h' \<and> retry op h = (attempt_result a, h') \<and>
        ((\<exists>e. a = Retryable e) \<longrightarrow> n \<le> k))"

definition client_attempt ::
  "('w, 'k) services \<Rightarrow> credentials \<Rightarrow> (string \<Rightarrow> http_request) \<Rightarrow> 'w hub \<Rightarrow> attempt \<times> 'w hub" where
  "client_attempt S creds build h =
     (case get_token S creds h of
        (Inl e, h1) \<Rightarrow> (if error_is_transient e then Retryable e else Fatal e, h1)
      | (Inr tok, h1) \<Rightarrow>
          (case hub_send S (build tok) h1 of
             (Inl e, h2) \<Rightarrow>
               (Retryable (GoogleApi (''request to the Calendar API failed: '' @ e)
                  (''transient network failure '' @ em_dash @ '' retrying automatically'') True), h2)
           | (Inr resp, h2) \<Rightarrow>
               if is_success resp then (Success resp, h2)
               else
                 (let transient = response_is_transient S resp;
                      err = GoogleApi
                        (''Calendar API returned HTTP '' @ status_text S (resp_status resp) @ '': '' @
                         response_text resp)
                        (if transient
                         then ''transient Google API failure '' @ em_dash @
                              '' retrying automatically''
                         else ''check the request payload, event id and calendar id'')
                        transient
                  in (if transient then Retryable err else Fatal err, h2))))"

definition send_with_retry ::
  "('w, 'k) services \<Rightarrow> 'w retrier \<Rightarrow> credentials \<Rightarrow> (string \<Rightarrow> http_request) \<Rightarrow> 'w hub \<Rightarrow>
     http_response result \<times> 'w hub" where
  "send_with_retry S retry creds build h = retry (client_attempt S creds build) h"

section \<open>The client\<close>

record client =
  base_url :: string
  calendar_list_url :: string

definition CALENDAR_EVENTS_BASE :: string where
  "CALENDAR_EVENTS_BASE = ''https://www.googleapis.com/calendar/v3/calendars''"

definition CALENDAR_LIST_URL :: string where
  "CALENDAR_LIST_URL = ''https://www.googleapis.com/calendar/v3/users/me/calendarList''"

definition client_new :: client where
  "client_new = \<lparr>base_url = CALENDAR_EVENTS_BASE, calendar_list_url = CALENDAR_LIST_URL\<rparr>"

definition trim_end_slashes :: "string \<Rightarrow> string" where
  "trim_end_slashes s = rev (dropWhile (\<lambda>c. c = CHR ''/'') (rev s))"

definition client_with_base_url :: "string \<Rightarrow> client" where
  "client_with_base_url url =
     (let base = trim_end_slashes url
      in \<lparr>base_url = base, calendar_list_url = base @ ''/calendarList''\<rparr>)"

text \<open>
  Everything a call needs and does not change: the outside, the retry loop, the credentials and the
  client.
\<close>

record ('w, 'k) google_env =
  env_services :: "('w, 'k) services"
  env_retry :: "'w retrier"
  env_credentials :: credentials
  env_client :: client

definition api_request :: "string \<Rightarrow> string \<Rightarrow> http_body \<Rightarrow> string \<Rightarrow> http_request" where
  "api_request method url body tok =
     \<lparr>http_method = method, http_url = url, http_bearer = Some tok, http_query = [],
      http_body = body\<rparr>"

definition call_google ::
  "('w, 'k) google_env \<Rightarrow> (string \<Rightarrow> http_request) \<Rightarrow> 'w hub \<Rightarrow> http_response result \<times> 'w hub" where
  "call_google G build h =
     send_with_retry (env_services G) (env_retry G) (env_credentials G) build h"

definition parse_response ::
  "('w, 'k) google_env \<Rightarrow> (json \<Rightarrow> 'a option) \<Rightarrow> string \<Rightarrow> http_response result \<times> 'w hub \<Rightarrow>
     'a result \<times> 'w hub" where
  "parse_response G of_json what answer =
     (case answer of
        (Inl e, h) \<Rightarrow> (Inl e, h)
      | (Inr resp, h) \<Rightarrow>
          (case response_json (env_services G) of_json resp of
             Inl e \<Rightarrow>
               (Inl (GoogleApi (what @ '': '' @ e)
                  ''check Google's Calendar API response format hasn't changed'' False), h)
           | Inr a \<Rightarrow> (Inr a, h)))"

definition unit_response :: "http_response result \<times> 'w hub \<Rightarrow> unit result \<times> 'w hub" where
  "unit_response answer = (case answer of (Inl e, h) \<Rightarrow> (Inl e, h) | (Inr resp, h) \<Rightarrow> (Inr (), h))"

definition events_url :: "('w, 'k) google_env \<Rightarrow> string \<Rightarrow> string" where
  "events_url G cal = base_url (env_client G) @ ''/'' @ cal @ ''/events''"

definition event_url :: "('w, 'k) google_env \<Rightarrow> string \<Rightarrow> string \<Rightarrow> string" where
  "event_url G cal eid = events_url G cal @ ''/'' @ eid"

subsection \<open>Events\<close>

definition create_event ::
  "('w, 'k) google_env \<Rightarrow> string \<Rightarrow> google_event \<Rightarrow> 'w hub \<Rightarrow> google_event result \<times> 'w hub" where
  "create_event G cal ev h =
     parse_response G event_of_json ''failed to parse the Calendar API's event response''
       (call_google G (api_request ''POST'' (events_url G cal) (JsonBody (event_to_json ev))) h)"

definition get_event ::
  "('w, 'k) google_env \<Rightarrow> string \<Rightarrow> string \<Rightarrow> 'w hub \<Rightarrow> google_event result \<times> 'w hub" where
  "get_event G cal eid h =
     parse_response G event_of_json ''failed to parse the Calendar API's event response''
       (call_google G (api_request ''GET'' (event_url G cal eid) NoBody) h)"

definition update_event ::
  "('w, 'k) google_env \<Rightarrow> string \<Rightarrow> string \<Rightarrow> google_event \<Rightarrow> 'w hub \<Rightarrow>
     google_event result \<times> 'w hub" where
  "update_event G cal eid ev h =
     parse_response G event_of_json ''failed to parse the Calendar API's event response''
       (call_google G (api_request ''PUT'' (event_url G cal eid) (JsonBody (event_to_json ev))) h)"

definition client_delete_event ::
  "('w, 'k) google_env \<Rightarrow> string \<Rightarrow> string \<Rightarrow> 'w hub \<Rightarrow> unit result \<times> 'w hub" where
  "client_delete_event G cal eid h =
     unit_response (call_google G (api_request ''DELETE'' (event_url G cal eid) NoBody) h)"

definition list_request :: "('w, 'k) google_env \<Rightarrow> string \<Rightarrow> string \<Rightarrow> string \<Rightarrow> string \<Rightarrow> http_request" where
  "list_request G cal key value tok =
     (api_request ''GET'' (events_url G cal) NoBody tok)
       \<lparr>http_query := [(''privateExtendedProperty'', key @ ''='' @ value)]\<rparr>"

definition list_events_by_property ::
  "('w, 'k) google_env \<Rightarrow> string \<Rightarrow> string \<Rightarrow> string \<Rightarrow> 'w hub \<Rightarrow>
     google_event list result \<times> 'w hub" where
  "list_events_by_property G cal key value h =
     (case parse_response G event_list_of_json
             ''failed to parse the Calendar API's event list response''
             (call_google G (list_request G cal key value) h) of
        (Inl e, h1) \<Rightarrow> (Inl e, h1)
      | (Inr items, h1) \<Rightarrow> (Inr (event_list_items items), h1))"

fun first_event :: "google_event list \<Rightarrow> google_event option" where
  "first_event [] = None"
| "first_event (ev # evs) = Some ev"

definition find_event_by_property ::
  "('w, 'k) google_env \<Rightarrow> string \<Rightarrow> string \<Rightarrow> string \<Rightarrow> 'w hub \<Rightarrow>
     google_event option result \<times> 'w hub" where
  "find_event_by_property G cal key value h =
     (case list_events_by_property G cal key value h of
        (Inl e, h1) \<Rightarrow> (Inl e, h1)
      | (Inr evs, h1) \<Rightarrow> (Inr (first_event evs), h1))"

subsection \<open>Calendars\<close>

definition share_rule :: "string \<Rightarrow> json" where
  "share_rule user =
     JObj [(''role'', JStr ''owner''),
           (''scope'', JObj [(''type'', JStr ''user''), (''value'', JStr user)])]"

definition share_calendar ::
  "('w, 'k) google_env \<Rightarrow> string \<Rightarrow> string \<Rightarrow> 'w hub \<Rightarrow> unit result \<times> 'w hub" where
  "share_calendar G cal user h =
     unit_response
       (call_google G (api_request ''POST'' (base_url (env_client G) @ ''/'' @ cal @ ''/acl'')
          (JsonBody (share_rule user))) h)"

definition calendar_id_of_json :: "json \<Rightarrow> string option" where
  "calendar_id_of_json v = Option.bind (struct_fields [''id''] v) (field de_string ''id'')"

definition create_calendar ::
  "('w, 'k) google_env \<Rightarrow> string \<Rightarrow> string \<Rightarrow> 'w hub \<Rightarrow> string result \<times> 'w hub" where
  "create_calendar G name owner h =
     (case parse_response G calendar_id_of_json ''failed to parse the created calendar response''
             (call_google G
               (api_request ''POST'' (base_url (env_client G))
                 (JsonBody (JObj [(''summary'', JStr name)]))) h) of
        (Inl e, h1) \<Rightarrow> (Inl e, h1)
      | (Inr cal, h1) \<Rightarrow>
          (case share_calendar G cal owner h1 of
             (Inl e, h2) \<Rightarrow> (Inl e, h2)
           | (Inr _, h2) \<Rightarrow> (Inr cal, h2)))"

text \<open>
  \<open>parsed["items"]\<close>, and of each item the two strings; an item without them is left out. The sort
  is stable and by name, byte by byte.
\<close>

definition calendar_pair :: "json \<Rightarrow> (string \<times> string) option" where
  "calendar_pair v =
     Option.bind (Option.bind (json_get v ''id'') json_as_str) (\<lambda>i.
     Option.bind (Option.bind (json_get v ''summary'') json_as_str) (\<lambda>name. Some (i, name)))"

fun bytes_le :: "string \<Rightarrow> string \<Rightarrow> bool" where
  "bytes_le [] t = True"
| "bytes_le (c # s) [] = False"
| "bytes_le (c # s) (d # t) = (byte c < byte d \<or> (c = d \<and> bytes_le s t))"

fun insert_named :: "string \<times> string \<Rightarrow> (string \<times> string) list \<Rightarrow> (string \<times> string) list" where
  "insert_named x [] = [x]"
| "insert_named x (y # ys) =
     (if bytes_le (snd x) (snd y) then x # y # ys else y # insert_named x ys)"

definition sort_named :: "(string \<times> string) list \<Rightarrow> (string \<times> string) list" where
  "sort_named xs = foldr insert_named xs []"

definition calendars_of_json :: "json \<Rightarrow> (string \<times> string) list" where
  "calendars_of_json v =
     (case Option.bind (json_get v ''items'') json_as_array of
        None \<Rightarrow> []
      | Some items \<Rightarrow> sort_named (List.map_filter calendar_pair items))"

definition list_calendars ::
  "('w, 'k) google_env \<Rightarrow> 'w hub \<Rightarrow> (string \<times> string) list result \<times> 'w hub" where
  "list_calendars G h =
     (case parse_response G Some ''failed to parse the calendar list''
             (call_google G (api_request ''GET'' (calendar_list_url (env_client G)) NoBody) h) of
        (Inl e, h1) \<Rightarrow> (Inl e, h1)
      | (Inr v, h1) \<Rightarrow> (Inr (calendars_of_json v), h1))"

definition find_calendar_by_summary ::
  "('w, 'k) google_env \<Rightarrow> string \<Rightarrow> 'w hub \<Rightarrow> string option result \<times> 'w hub" where
  "find_calendar_by_summary G name h =
     (case list_calendars G h of
        (Inl e, h1) \<Rightarrow> (Inl e, h1)
      | (Inr cals, h1) \<Rightarrow> (Inr (map_option fst (find (\<lambda>(i, n). n = name) cals)), h1))"

definition ensure_calendar ::
  "('w, 'k) google_env \<Rightarrow> string \<Rightarrow> string \<Rightarrow> 'w hub \<Rightarrow> (string \<times> bool) result \<times> 'w hub" where
  "ensure_calendar G name owner h =
     (case find_calendar_by_summary G name h of
        (Inl e, h1) \<Rightarrow> (Inl e, h1)
      | (Inr (Some cal), h1) \<Rightarrow> (Inr (cal, False), h1)
      | (Inr None, h1) \<Rightarrow>
          (case create_calendar G name owner h1 of
             (Inl e, h2) \<Rightarrow> (Inl e, h2)
           | (Inr cal, h2) \<Rightarrow> (Inr (cal, True), h2)))"

definition client_delete_calendar ::
  "('w, 'k) google_env \<Rightarrow> string \<Rightarrow> 'w hub \<Rightarrow> unit result \<times> 'w hub" where
  "client_delete_calendar G cal h =
     unit_response
       (call_google G (api_request ''DELETE'' (base_url (env_client G) @ ''/'' @ cal) NoBody) h)"

section \<open>What a call can return\<close>

lemma attempt_Success:
  assumes "client_attempt S creds build h = (Success resp, h')"
  shows "is_success resp \<and> (\<exists>h1 tok st. get_token S creds h = (Inr tok, h1) \<and>
    hub_send S (build tok) h1 = (Inr resp, h') \<and> token_cache h' = Some st \<and> access_token st = tok)"
proof -
  obtain tok h1 where t: "get_token S creds h = (Inr tok, h1)"
    and s: "hub_send S (build tok) h1 = (Inr resp, h')" and ok: "is_success resp"
    using assms
    by (auto simp: client_attempt_def Let_def split: prod.splits sum.splits if_splits)
  from get_token_ok [OF t] hub_send_frame [OF s] t s ok show ?thesis by auto
qed

lemma attempt_Retryable:
  "client_attempt S creds build h = (Retryable e, h') \<Longrightarrow> error_is_transient e"
  by (auto simp: client_attempt_def Let_def split: prod.splits sum.splits if_splits)

lemma attempt_Fatal:
  "client_attempt S creds build h = (Fatal e, h') \<Longrightarrow> \<not> error_is_transient e"
  by (auto simp: client_attempt_def Let_def split: prod.splits sum.splits if_splits)

text \<open>The last attempt decides the result, and nothing happens after it.\<close>

lemma retry_run_last:
  "retry_run op h r h' \<Longrightarrow>
     (case r of
        Inr resp \<Rightarrow> \<exists>h1. op h1 = (Success resp, h')
      | Inl e \<Rightarrow> \<exists>h1. op h1 = (Retryable e, h') \<or> op h1 = (Fatal e, h'))"
  by (induction rule: retry_run.induct) (auto split: sum.splits)

lemma retry_ok_run: "retry_ok retry \<Longrightarrow> retry op h = (r, h') \<Longrightarrow> retry_run op h r h'"
  unfolding retry_ok_def by (metis fst_conv snd_conv)

lemma send_Inr:
  assumes "retry_ok retry" "send_with_retry S retry creds build h = (Inr resp, h')"
  shows "is_success resp \<and> (\<exists>h1 h2 tok st. get_token S creds h1 = (Inr tok, h2) \<and>
    hub_send S (build tok) h2 = (Inr resp, h') \<and> token_cache h' = Some st \<and> access_token st = tok)"
proof -
  obtain h1 where "client_attempt S creds build h1 = (Success resp, h')"
    using retry_run_last [OF retry_ok_run [OF assms(1) assms(2) [unfolded send_with_retry_def]]]
    by auto
  from attempt_Success [OF this] show ?thesis by blast
qed

lemma send_Inl:
  assumes "retry_ok retry" "send_with_retry S retry creds build h = (Inl e, h')"
  shows "\<exists>h1. client_attempt S creds build h1
    = (if error_is_transient e then Retryable e else Fatal e, h')"
  using retry_run_last [OF retry_ok_run [OF assms(1) assms(2) [unfolded send_with_retry_def]]]
  by (auto dest: attempt_Retryable attempt_Fatal)

text \<open>A permanent failure is final: the first such attempt is also the last.\<close>

lemma send_fatal_once:
  assumes "retry_ok retry" "client_attempt S creds build h = (Fatal e, h1)"
  shows "send_with_retry S retry creds build h = (Inl e, h1)"
proof -
  have "retry_run (client_attempt S creds build) h
      (fst (send_with_retry S retry creds build h)) (snd (send_with_retry S retry creds build h))"
    using assms(1) by (simp add: retry_ok_def send_with_retry_def)
  then show ?thesis
    by (cases rule: retry_runE) (use assms(2) in \<open>auto simp: prod_eq_iff\<close>)
qed

lemma send_success_once:
  assumes "retry_ok retry" "client_attempt S creds build h = (Success resp, h1)"
  shows "send_with_retry S retry creds build h = (Inr resp, h1)"
proof -
  have "retry_run (client_attempt S creds build) h
      (fst (send_with_retry S retry creds build h)) (snd (send_with_retry S retry creds build h))"
    using assms(1) by (simp add: retry_ok_def send_with_retry_def)
  then show ?thesis
    by (cases rule: retry_runE) (use assms(2) in \<open>auto simp: prod_eq_iff\<close>)
qed

text \<open>
  Counting down: from a state in which the next \<open>n\<close> attempts fail for a passing reason and the one
  after them succeeds, a loop with time for \<open>n\<close> retries succeeds.
\<close>

lemma attempts_countdown:
  assumes "attempts pause op k h a h'" "P n h" "\<exists>e. a = Retryable e \<Longrightarrow> n \<le> k"
    and fails: "\<And>n h. P (Suc n) h \<Longrightarrow>
      \<exists>e h1. op h = (Retryable e, h1) \<and> (\<forall>w. pause (outside h1) w \<longrightarrow> P n (h1\<lparr>outside := w\<rparr>))"
    and wins: "\<And>h. P 0 h \<Longrightarrow> \<exists>resp h1. op h = (Success resp, h1)"
  shows "\<exists>h0 resp. P 0 h0 \<and> op h0 = (Success resp, h') \<and> a = Success resp"
  using assms(1-3)
proof (induction arbitrary: n rule: attempts.induct)
  case (last_one h a h')
  show ?case
  proof (cases n)
    case 0
    with last_one wins show ?thesis by fastforce
  next
    case (Suc m)
    with last_one fails [of m h] show ?thesis by auto
  qed
next
  case (one_more h e h1 w k a h')
  have "n \<noteq> 0"
  proof
    assume "n = 0"
    with one_more.prems(1) wins [of h] one_more.hyps(1) show False by auto
  qed
  then obtain m where m: "n = Suc m" using not0_implies_Suc by blast
  with one_more.hyps(1,2) one_more.prems(1) fails [of m h] have "P m (h1\<lparr>outside := w\<rparr>)" by auto
  with one_more.IH one_more.prems(2) m show ?case by simp
qed

lemma time_enough:
  assumes "has_time pause n retry op h" "P n h"
    "\<And>n h. P (Suc n) h \<Longrightarrow>
      \<exists>e h1. op h = (Retryable e, h1) \<and> (\<forall>w. pause (outside h1) w \<longrightarrow> P n (h1\<lparr>outside := w\<rparr>))"
    "\<And>h. P 0 h \<Longrightarrow> \<exists>resp h1. op h = (Success resp, h1)"
  shows "\<exists>h0 resp h'. P 0 h0 \<and> op h0 = (Success resp, h') \<and> retry op h = (Inr resp, h')"
proof -
  obtain k a h' where k: "attempts pause op k h a h'" "retry op h = (attempt_result a, h')"
    "\<exists>e. a = Retryable e \<Longrightarrow> n \<le> k"
    using assms(1) by (auto simp: has_time_def)
  obtain h0 resp where "P 0 h0" "op h0 = (Success resp, h')" "a = Success resp"
    using attempts_countdown [where P = P and n = n, OF k(1) assms(2) k(3) assms(3,4)] by blast
  with k(2) show ?thesis by auto
qed

text \<open>What every attempt keeps, the loop keeps.\<close>

lemma retry_run_invariant:
  assumes "retry_run op h r h'" "P h"
    "\<And>h a h1. P h \<Longrightarrow> op h = (a, h1) \<Longrightarrow> P h1" "\<And>h w. P h \<Longrightarrow> P (h\<lparr>outside := w\<rparr>)"
  shows "P h'"
  using assms(1,2) by (induction rule: retry_run.induct) (use assms(3,4) in blast)+

lemma parse_response_Inr:
  "parse_response G f what (r, h) = (Inr a, h') \<Longrightarrow>
     h' = h \<and> (\<exists>resp. r = Inr resp \<and> response_json (env_services G) f resp = Inr a)"
  by (auto simp: parse_response_def split: sum.splits)

lemma parse_response_state: "snd (parse_response G f what (r, h)) = h"
  by (auto simp: parse_response_def split: sum.splits)

section \<open>Calendars by name\<close>

text \<open>
  Comparing texts byte by byte is the lexicographic order of their characters, so what is written
  out above is the library's stable sort by that order.
\<close>

lemma bytes_le_order: "bytes_le s t \<longleftrightarrow> s \<le> t"
proof (induction s t rule: bytes_le.induct)
  case (3 c s d t)
  have "byte c < byte d \<longleftrightarrow> c < d"
    by (simp add: byte_def less_char_def)
  with 3 show ?case by simp
qed simp_all

lemma sort_named_key: "sort_named xs = sort_key snd xs"
proof -
  have "insert_named x ys = insort_key snd x ys" for x ys
    by (induction ys) (simp_all add: bytes_le_order)
  then show ?thesis
    by (simp add: sort_named_def sort_key_def fun_eq_iff cong: foldr_cong)
qed

text \<open>Sorted by name, nothing lost or added, and calendars of one name in the order Google has them.\<close>

lemma sort_named_listing:
  "sorted (map snd (sort_named xs))" "length (sort_named xs) = length xs"
  "filter (\<lambda>x. snd x = name) (sort_named xs) = filter (\<lambda>x. snd x = name) xs"
proof -
  show "filter (\<lambda>x. snd x = name) (sort_named xs) = filter (\<lambda>x. snd x = name) xs"
    using sort_key_stable [of snd name xs] by (simp add: sort_named_key eq_commute)
qed (simp_all add: sort_named_key)

lemma set_sort_named [simp]: "set (sort_named xs) = set xs"
  by (simp add: sort_named_key)

lemma find_Some_member:
  "map_option fst (find (\<lambda>(i, n). n = name) cals) = Some cal \<Longrightarrow> (cal, name) \<in> set cals"
  by (induction cals) (auto split: if_splits)

lemma find_None_member:
  "map_option fst (find (\<lambda>(i, n). n = name) cals) = None \<Longrightarrow> (cal, name) \<notin> set cals"
  by (induction cals) (auto split: if_splits)

text \<open>A calendar that is listed under the name is used, and nothing is created.\<close>

lemma ensure_existing:
  assumes "list_calendars G h = (Inr cals, h1)" "(cal, name) \<in> set cals"
  shows "\<exists>c. ensure_calendar G name owner h = (Inr (c, False), h1) \<and> (c, name) \<in> set cals"
proof -
  obtain c where c: "map_option fst (find (\<lambda>(i, n). n = name) cals) = Some c"
    using find_None_member [of name cals cal] assms(2) by (cases "find (\<lambda>(i, n). n = name) cals") auto
  with find_Some_member [OF this] assms(1) show ?thesis
    by (auto simp: ensure_calendar_def find_calendar_by_summary_def)
qed

lemma ensure_missing:
  assumes "list_calendars G h = (Inr cals, h1)" "name \<notin> snd ` set cals"
  shows "ensure_calendar G name owner h =
    (case create_calendar G name owner h1 of
       (Inl e, h2) \<Rightarrow> (Inl e, h2) | (Inr cal, h2) \<Rightarrow> (Inr (cal, True), h2))"
proof -
  have "find (\<lambda>(i, n). n = name) cals = None"
    using assms(2) by (force simp: find_None_iff)
  with assms(1) show ?thesis
    by (simp add: ensure_calendar_def find_calendar_by_summary_def)
qed

end
