(* ===== verification/Delivery.thy ===== *)
theory Delivery
  imports Request Journal_Records Calendar_Client
begin

text \<open>
  Delivering one journal entry to Google: src/shell/delivery.rs. \<open>deliver\<close> is the whole of the
  function as one caller runs it; what several callers running at once can do to each other, and
  what the lock per key prevents, is in Delivery_Race.
\<close>

section \<open>Locks per key\<close>

text \<open>
  The map from keys to locks; a lock is its number, and a new one is made the first time a key is
  asked for.
\<close>

record key_locks =
  lock_table :: "string \<rightharpoonup> nat"
  next_lock :: nat

definition key_locks_new :: key_locks where
  "key_locks_new = \<lparr>lock_table = Map.empty, next_lock = 0\<rparr>"

definition for_key :: "string \<Rightarrow> key_locks \<Rightarrow> nat \<times> key_locks" where
  "for_key key L =
     (case lock_table L key of
        Some l \<Rightarrow> (l, L)
      | None \<Rightarrow>
          (next_lock L,
           L\<lparr>lock_table := (lock_table L)(key \<mapsto> next_lock L), next_lock := next_lock L + 1\<rparr>))"

definition key_locks_wf :: "key_locks \<Rightarrow> bool" where
  "key_locks_wf L \<longleftrightarrow>
     (\<forall>k l. lock_table L k = Some l \<longrightarrow> l < next_lock L) \<and>
     (\<forall>k k' l. lock_table L k = Some l \<longrightarrow> lock_table L k' = Some l \<longrightarrow> k = k')"

text \<open>What a user of the table relies on: one lock per key, for good, and never shared.\<close>

locale keyed_locks =
  fixes get :: "string \<Rightarrow> 'l \<Rightarrow> nat \<times> 'l"
    and lock_of :: "'l \<Rightarrow> string \<rightharpoonup> nat"
    and wf :: "'l \<Rightarrow> bool"
  assumes get_wf: "wf L \<Longrightarrow> get k L = (l, L') \<Longrightarrow> wf L'"
    and get_lock: "wf L \<Longrightarrow> get k L = (l, L') \<Longrightarrow> lock_of L' k = Some l"
    and get_keeps: "wf L \<Longrightarrow> get k L = (l, L') \<Longrightarrow> lock_of L k' = Some l' \<Longrightarrow> lock_of L' k' = Some l'"
    and get_known: "lock_of L k = Some l \<Longrightarrow> get k L = (l, L)"
    and unshared: "wf L \<Longrightarrow> lock_of L k = Some l \<Longrightarrow> lock_of L k' = Some l \<Longrightarrow> k = k'"
begin

fun get_all :: "string list \<Rightarrow> 'l \<Rightarrow> nat list \<times> 'l" where
  "get_all [] L = ([], L)"
| "get_all (k # ks) L =
     (case get k L of (l, L1) \<Rightarrow> (case get_all ks L1 of (ls, L2) \<Rightarrow> (l # ls, L2)))"

lemma get_all_locks:
  "wf L \<Longrightarrow> get_all ks L = (ls, L') \<Longrightarrow>
   wf L' \<and> (\<forall>k l. lock_of L k = Some l \<longrightarrow> lock_of L' k = Some l) \<and>
   map Some ls = map (lock_of L') ks"
proof (induction ks arbitrary: L ls)
  case Nil
  then show ?case by simp
next
  case (Cons k ks)
  obtain l L1 where g: "get k L = (l, L1)" by fastforce
  from Cons.prems(2) g obtain ls1 where r: "get_all ks L1 = (ls1, L')" and ls: "ls = l # ls1"
    by (auto split: prod.splits)
  with Cons.IH [OF get_wf [OF Cons.prems(1) g] r] get_lock [OF Cons.prems(1) g]
    get_keeps [OF Cons.prems(1) g]
  show ?case by (auto simp: ls)
qed

text \<open>In any sequence of requests, two get the same lock exactly when they name the same key.\<close>

lemma same_lock_iff:
  assumes "wf L" "get_all ks L = (ls, L')" "i < length ks" "j < length ks"
  shows "ls ! i = ls ! j \<longleftrightarrow> ks ! i = ks ! j"
proof -
  note g = get_all_locks [OF assms(1,2)]
  then have len: "length ls = length ks" by (metis length_map)
  have at: "lock_of L' (ks ! n) = Some (ls ! n)" if "n < length ks" for n
    using g that len by (metis nth_map)
  show ?thesis
    using at [OF assms(3)] at [OF assms(4)] unshared g by fastforce
qed

end

interpretation locks: keyed_locks for_key lock_table key_locks_wf
proof
  fix L L' :: key_locks and k k' :: string and l l' :: nat
  assume wf: "key_locks_wf L"
  show "key_locks_wf L'" if "for_key k L = (l, L')"
    using wf that by (fastforce simp: for_key_def key_locks_wf_def split: option.splits if_splits)
  show "lock_table L' k = Some l" if "for_key k L = (l, L')"
    using that by (auto simp: for_key_def split: option.splits)
  show "lock_table L' k' = Some l'"
    if "for_key k L = (l, L')" "lock_table L k' = Some l'"
    using that by (auto simp: for_key_def split: option.splits)
  show "k = k'" if "lock_table L k = Some l" "lock_table L k' = Some l"
    using wf that by (auto simp: key_locks_wf_def)
next
  show "for_key k L = (l, L)" if "lock_table L k = Some l" for L k l
    using that by (simp add: for_key_def)
qed

section \<open>One delivery\<close>

record delivered =
  del_event_id :: string
  del_created :: bool
  del_key :: "string option"

definition upsert_key :: "entry \<Rightarrow> google_event \<Rightarrow> string option" where
  "upsert_key e ev =
     (case Option.bind (event_properties ev) (\<lambda>p. map_of (private_props p) UPSERT_PROPERTY) of
        Some key \<Rightarrow> Some key
      | None \<Rightarrow> map_option (\<lambda>k. entry_source e @ '':'' @ k) (idempotency_key e))"

text \<open>The key on the event itself, unless the event has properties of its own.\<close>

definition tag_event :: "string option \<Rightarrow> google_event \<Rightarrow> google_event" where
  "tag_event key ev =
     (case key of
        Some k \<Rightarrow>
          if event_properties ev = None
          then ev\<lparr>event_properties := Some \<lparr>private_props = [(UPSERT_PROPERTY, k)]\<rparr>\<rparr>
          else ev
      | None \<Rightarrow> ev)"

definition unwrap_or :: "'a \<Rightarrow> 'a option \<Rightarrow> 'a" where
  "unwrap_or d x = (case x of None \<Rightarrow> d | Some a \<Rightarrow> a)"

definition deliver_new ::
  "('w, 'k) google_env \<Rightarrow> string \<Rightarrow> google_event \<Rightarrow> string option \<Rightarrow> 'w hub \<Rightarrow>
     delivered outcome \<times> 'w hub" where
  "deliver_new G cal ev key h =
     (case create_event G cal ev h of
        (Inl e, h1) \<Rightarrow> (Err e, h1)
      | (Inr created, h1) \<Rightarrow>
          (Ok \<lparr>del_event_id = unwrap_or [] (event_id created), del_created = True,
               del_key = key\<rparr>, h1))"

definition deliver_keyed ::
  "('w, 'k) google_env \<Rightarrow> string \<Rightarrow> google_event \<Rightarrow> string \<Rightarrow> 'w hub \<Rightarrow>
     delivered outcome \<times> 'w hub" where
  "deliver_keyed G cal ev key h =
     (case find_event_by_property G cal UPSERT_PROPERTY key h of
        (Inl e, h1) \<Rightarrow> (Err e, h1)
      | (Inr found, h1) \<Rightarrow>
          (case decide (Option.bind found event_id) of
             CreateEvent \<Rightarrow> deliver_new G cal ev (Some key) h1
           | UpdateEvent google_id \<Rightarrow>
               (case update_event G cal google_id ev h1 of
                  (Inl e, h2) \<Rightarrow> (Err e, h2)
                | (Inr updated, h2) \<Rightarrow>
                    (Ok \<lparr>del_event_id = unwrap_or google_id (event_id updated),
                         del_created = False, del_key = Some key\<rparr>, h2))))"

definition deliver ::
  "('dt, 'nd) crates \<Rightarrow> ('w, 'k) google_env \<Rightarrow> entry \<Rightarrow> profile \<Rightarrow> 'w hub \<Rightarrow>
     delivered outcome \<times> 'w hub" where
  "deliver K G e p h =
     (case map_payload K (payload e) p (''profile '' @ source_id p) of
        Err err \<Rightarrow> (Err err, h)
      | Panic \<Rightarrow> (Panic, h)
      | Ok ev \<Rightarrow>
          (let key = upsert_key e ev; ev' = tag_event key ev; cal = target_calendar_id p in
           case key of
             None \<Rightarrow> deliver_new G cal ev' None h
           | Some k \<Rightarrow> deliver_keyed G cal ev' k h))"

section \<open>Facts\<close>

lemma mapped_key:
  assumes "map_payload K v p origin = Ok ev"
  shows "event_properties ev = None \<or>
    (\<exists>ext. event_properties ev =
       Some \<lparr>private_props = [(UPSERT_PROPERTY, source_key (source_id p) ext)]\<rparr>)"
proof -
  obtain r where "to_google_event K r p origin = Ok ev"
    using assms by (auto simp: map_payload_def outcome_simps)
  then show ?thesis
    by (cases "req_external_id r")
      (auto simp: to_google_event_def Let_def outcome_simps split: if_splits prod.splits)
qed

text \<open>
  Whatever event is sent for a key carries the key where a later lookup searches for it, whether
  the key came from the payload or from the header.
\<close>

lemma tagged_with_key:
  assumes "map_payload K v p origin = Ok ev" "upsert_key e ev = Some k"
  shows "private_property UPSERT_PROPERTY (tag_event (Some k) ev) = Some k"
  using mapped_key [OF assms(1)] assms(2)
  by (auto simp: upsert_key_def tag_event_def private_property_def)

lemma untagged:
  assumes "map_payload K v p origin = Ok ev" "upsert_key e ev = None"
  shows "idempotency_key e = None" "event_properties ev = None" "tag_event None ev = ev"
  using mapped_key [OF assms(1)] assms(2)
  by (auto simp: upsert_key_def tag_event_def)

lemma deliver_unmapped:
  "map_payload K (payload e) p (''profile '' @ source_id p) = Err err \<Longrightarrow>
     deliver K G e p h = (Err err, h)"
  by (simp add: deliver_def)

lemma deliver_new_Ok:
  "deliver_new G cal ev key h = (Ok d, h') \<Longrightarrow>
   \<exists>created. create_event G cal ev h = (Inr created, h') \<and> del_created d \<and> del_key d = key \<and>
     del_event_id d = unwrap_or [] (event_id created)"
  by (auto simp: deliver_new_def split: prod.splits sum.splits)

lemma deliver_keyed_Ok:
  assumes "deliver_keyed G cal ev k h = (Ok d, h')"
  shows "del_key d = Some k \<and>
    (\<exists>found h1. find_event_by_property G cal UPSERT_PROPERTY k h = (Inr found, h1) \<and>
      (case Option.bind found event_id of
         None \<Rightarrow> \<exists>created. del_created d \<and> del_event_id d = unwrap_or [] (event_id created) \<and>
           create_event G cal ev h1 = (Inr created, h')
       | Some i \<Rightarrow> \<exists>ev'. \<not> del_created d \<and> del_event_id d = unwrap_or i (event_id ev') \<and>
           update_event G cal i ev h1 = (Inr ev', h')))"
proof -
  obtain found h1 where f: "find_event_by_property G cal UPSERT_PROPERTY k h = (Inr found, h1)"
    using assms by (auto simp: deliver_keyed_def split: prod.splits sum.splits)
  show ?thesis
  proof (cases "Option.bind found event_id")
    case None
    with assms f show ?thesis by (auto simp: deliver_keyed_def dest: deliver_new_Ok)
  next
    case (Some i)
    with assms f show ?thesis by (auto simp: deliver_keyed_def split: prod.splits sum.splits)
  qed
qed

text \<open>The key of a delivery is a function of the entry and its profile: what a redelivery uses again.\<close>

lemma deliver_key:
  assumes "deliver K G e p h = (Ok d, h')"
  shows "\<exists>ev. map_payload K (payload e) p (''profile '' @ source_id p) = Ok ev \<and>
    del_key d = upsert_key e ev"
  using assms
  by (auto simp: deliver_def Let_def dest: deliver_new_Ok deliver_keyed_Ok
      split: outcome.splits option.splits)

end
