(* ===== verification/Files.thy ===== *)
theory Files
  imports Errors
begin

text \<open>
  Files as the code uses them: a map from paths to contents, and the ways each operation can fail
  as an explicit argument of the operation.

  Three places replace a file as a whole by writing a sibling, flushing it and renaming it over the
  target: the journal's compaction, the token store and the profile writer. They share
  \<open>replace_via\<close>, which differs between them in the error texts only, and the contract
  \<open>atomic_replace\<close>. The directory flush that follows two of the three (src/shell/durability.rs)
  changes nothing that a running process sees; Durability has what it does to the platter.
\<close>

type_synonym fs = "string \<rightharpoonup> string"

definition file_text :: "fs \<Rightarrow> string \<Rightarrow> string" where
  "file_text fs p = (case fs p of None \<Rightarrow> [] | Some s \<Rightarrow> s)"

text \<open>\<open>rename(2)\<close>; on equal paths it does nothing.\<close>

definition fs_rename :: "string \<Rightarrow> string \<Rightarrow> fs \<Rightarrow> fs" where
  "fs_rename a b fs = (if a = b then fs else fs(b := fs a, a := None))"

text \<open>
  Where a replacement can fail, with the text of the error; a failed write leaves the bytes written
  so far.
\<close>

record rewrite_faults =
  create_fault :: "string option"
  write_fault :: "(nat \<times> string) option"
  sync_fault :: "string option"
  rename_fault :: "string option"

definition no_rewrite_faults :: rewrite_faults where
  "no_rewrite_faults =
     \<lparr>create_fault = None, write_fault = None, sync_fault = None, rename_fault = None\<rparr>"

record rewrite_errors =
  create_error :: "string \<Rightarrow> almanac_error"
  write_error :: "string \<Rightarrow> almanac_error"
  sync_error :: "string \<Rightarrow> almanac_error"
  rename_error :: "string \<Rightarrow> almanac_error"

definition replace_via ::
  "rewrite_errors \<Rightarrow> rewrite_faults \<Rightarrow> string \<Rightarrow> string \<Rightarrow> string \<Rightarrow> fs \<Rightarrow> unit result \<times> fs" where
  "replace_via E F temp target body fs =
     (case create_fault F of
        Some e \<Rightarrow> (Inl (create_error E e), fs)
      | None \<Rightarrow>
          (case write_fault F of
             Some (n, e) \<Rightarrow> (Inl (write_error E e), fs(temp \<mapsto> take n body))
           | None \<Rightarrow>
               (case sync_fault F of
                  Some e \<Rightarrow> (Inl (sync_error E e), fs(temp \<mapsto> body))
                | None \<Rightarrow>
                    (case rename_fault F of
                       Some e \<Rightarrow> (Inl (rename_error E e), fs(temp \<mapsto> body))
                     | None \<Rightarrow> (Inr (), fs_rename temp target (fs(temp \<mapsto> body)))))))"

text \<open>
  All or nothing: the target has the new body when the operation succeeds and its old content
  otherwise, and no third file changes.
\<close>

locale atomic_replace =
  fixes replace :: "'f \<Rightarrow> string \<Rightarrow> string \<Rightarrow> fs \<Rightarrow> unit result \<times> fs"
    and temp_of :: "string \<Rightarrow> string"
  assumes replaced: "replace F p body fs = (Inr u, fs') \<Longrightarrow> fs' p = Some body"
    and kept: "replace F p body fs = (Inl e, fs') \<Longrightarrow> temp_of p \<noteq> p \<Longrightarrow> fs' p = fs p"
    and frame: "replace F p body fs = (r, fs') \<Longrightarrow> q \<noteq> p \<Longrightarrow> q \<noteq> temp_of p \<Longrightarrow> fs' q = fs q"
begin

lemma old_or_new:
  assumes "replace F p body fs = (r, fs')" "temp_of p \<noteq> p"
  shows "fs' p = fs p \<or> fs' p = Some body"
proof (cases r)
  case (Inl e)
  with assms kept show ?thesis by blast
next
  case (Inr u)
  with assms replaced show ?thesis by blast
qed

text \<open>A sequence of replacements of one file: the last success decides.\<close>

fun replace_all :: "('f \<times> string) list \<Rightarrow> string \<Rightarrow> fs \<Rightarrow> fs" where
  "replace_all [] p fs = fs"
| "replace_all ((F, body) # xs) p fs = replace_all xs p (snd (replace F p body fs))"

lemma replace_all_content:
  assumes "temp_of p \<noteq> p"
  shows "replace_all xs p fs p \<in> insert (fs p) (Some ` snd ` set xs)"
proof (induction xs arbitrary: fs)
  case Nil
  then show ?case by simp
next
  case (Cons x xs)
  obtain F body where x: "x = (F, body)" by (cases x)
  obtain r fs1 where step: "replace F p body fs = (r, fs1)" by fastforce
  from old_or_new [OF step assms] Cons [of fs1] show ?case
    by (auto simp: x step)
qed

end

lemma replace_via_replaced:
  "replace_via E F temp target body fs = (Inr u, fs') \<Longrightarrow> fs' target = Some body"
  by (auto simp: replace_via_def fs_rename_def split: option.splits prod.splits if_splits)

lemma replace_via_kept:
  "replace_via E F temp target body fs = (Inl e, fs') \<Longrightarrow> temp \<noteq> target \<Longrightarrow> fs' target = fs target"
  by (auto simp: replace_via_def split: option.splits prod.splits)

lemma replace_via_frame:
  "replace_via E F temp target body fs = (r, fs') \<Longrightarrow> q \<noteq> target \<Longrightarrow> q \<noteq> temp \<Longrightarrow> fs' q = fs q"
  by (auto simp: replace_via_def fs_rename_def split: option.splits prod.splits if_splits)

lemmas replace_via_laws = replace_via_replaced replace_via_kept replace_via_frame

lemma replace_via_clean:
  "replace_via E no_rewrite_faults temp target body fs =
     (Inr (), fs_rename temp target (fs(temp \<mapsto> body)))"
  by (simp add: replace_via_def no_rewrite_faults_def)

end
