(* ===== verification/Journal_Disk.thy ===== *)
theory Journal_Disk
  imports Files Journal_Records
begin

text \<open>
  The disk side of the ingest journal: src/shell/journal.rs. The encoding of a record as a line
  (\<open>serde_json::to_string\<close>) and its inverse (\<open>serde_json::from_str\<close>) are parameters; what the
  journal relies on is \<open>record_codec\<close>. The ways an operation can fail are arguments.
\<close>

section \<open>The journal and its codec\<close>

record journal =
  journal_path :: string
  max_bytes :: nat

definition DEFAULT_MAX_BYTES :: nat where
  "DEFAULT_MAX_BYTES = 64 * 1024 * 1024"

type_synonym encoder = "log_record \<Rightarrow> string + string"
type_synonym decoder = "string \<Rightarrow> string + log_record"

text \<open>
  A record encodes to one line of text that reads back as that record; a proper part of the front
  of the text is no record.
\<close>

definition record_codec :: "encoder \<Rightarrow> decoder \<Rightarrow> bool" where
  "record_codec enc dec \<longleftrightarrow>
     (\<forall>r. \<exists>t. enc r = Inr t \<and> dec t = Inr r \<and> utf8_valid t \<and> \<not> is_blank t \<and>
        CHR 0x0A \<notin> set t \<and> strip_cr t = t \<and>
        (\<forall>k. 0 < k \<longrightarrow> k < length t \<longrightarrow> (\<exists>e. dec (take k t) = Inl e)))"

definition encoded :: "encoder \<Rightarrow> log_record \<Rightarrow> string" where
  "encoded enc r = (case enc r of Inr t \<Rightarrow> t | Inl e \<Rightarrow> [])"

lemma record_codecD:
  assumes "record_codec enc dec"
  shows "enc r = Inr (encoded enc r)" "dec (encoded enc r) = Inr r" "utf8_valid (encoded enc r)"
    "\<not> is_blank (encoded enc r)" "CHR 0x0A \<notin> set (encoded enc r)"
    "strip_cr (encoded enc r) = encoded enc r"
    "0 < k \<Longrightarrow> k < length (encoded enc r) \<Longrightarrow> \<exists>e. dec (take k (encoded enc r)) = Inl e"
  using assms by (auto simp: record_codec_def encoded_def dest!: spec [of _ r])

text \<open>The file that holds exactly the records \<open>rs\<close>.\<close>

definition image_of :: "encoder \<Rightarrow> log_record list \<Rightarrow> string" where
  "image_of enc rs = log_text (map (encoded enc) rs)"

section \<open>Appending\<close>

record append_faults =
  mkdir_fault :: "string option"
  stat_fails :: bool
  open_fault :: "string option"
  append_fault :: "(nat \<times> string) option"
  fsync_fault :: "string option"

definition no_append_faults :: append_faults where
  "no_append_faults =
     \<lparr>mkdir_fault = None, stat_fails = False, open_fault = None, append_fault = None,
      fsync_fault = None\<rparr>"

definition mkdir_error :: "journal \<Rightarrow> append_faults \<Rightarrow> almanac_error option" where
  "mkdir_error j F =
     (case path_parent (journal_path j) of
        Some up \<Rightarrow>
          if up = [] then None
          else map_option
            (\<lambda>e. Config (''failed to create journal directory '' @ up @ '': '' @ e)
                        (''check permissions on '' @ up))
            (mkdir_fault F)
      | None \<Rightarrow> None)"

definition cap_error :: "journal \<Rightarrow> almanac_error" where
  "cap_error j =
     Config (''journal '' @ journal_path j @ '' would exceed its '' @ show_nat (max_bytes j) @
             '' byte cap'')
       (''delivery to Google has been failing long enough to fill the journal '' @ em_dash @
        '' check the logs for the underlying error before it is safe to drain or clear it'')"

definition existing_size :: "journal \<Rightarrow> append_faults \<Rightarrow> fs \<Rightarrow> nat" where
  "existing_size j F fs =
     (if stat_fails F then 0
      else case fs (journal_path j) of None \<Rightarrow> 0 | Some s \<Rightarrow> length s)"

definition journal_append ::
  "encoder \<Rightarrow> journal \<Rightarrow> append_faults \<Rightarrow> log_record \<Rightarrow> fs \<Rightarrow> unit result \<times> fs" where
  "journal_append enc j F r fs =
     (case enc r of
        Inl e \<Rightarrow>
          (Inl (Config (''failed to serialize a journal record: '' @ e)
                 ''this is a bug in almanac; the payload could not be re-encoded''), fs)
      | Inr text \<Rightarrow>
          (let p = journal_path j; line = text @ newline in
           case mkdir_error j F of
             Some err \<Rightarrow> (Inl err, fs)
           | None \<Rightarrow>
               if existing_size j F fs + length line > max_bytes j then (Inl (cap_error j), fs)
               else
                 (case open_fault F of
                    Some e \<Rightarrow>
                      (Inl (Config (''failed to open journal '' @ p @ '': '' @ e)
                             (''check permissions on '' @ p)), fs)
                  | None \<Rightarrow>
                      (case append_fault F of
                         Some (n, e) \<Rightarrow>
                           (Inl (Config (''failed to write to journal '' @ p @ '': '' @ e)
                                  ''check free disk space and permissions''),
                            fs(p \<mapsto> file_text fs p @ take n line))
                       | None \<Rightarrow>
                           (case fsync_fault F of
                              Some e \<Rightarrow>
                                (Inl (Config (''failed to fsync journal '' @ p @ '': '' @ e)
                                       (''the filesystem rejected a durability barrier; '' @
                                        ''check disk health'')),
                                 fs(p \<mapsto> file_text fs p @ line))
                            | None \<Rightarrow> (Inr (), fs(p \<mapsto> file_text fs p @ line)))))))"

definition journal_accept ::
  "encoder \<Rightarrow> journal \<Rightarrow> append_faults \<Rightarrow> entry \<Rightarrow> fs \<Rightarrow> unit result \<times> fs" where
  "journal_accept enc j F e fs = journal_append enc j F (EntryRec e) fs"

definition journal_mark_done ::
  "encoder \<Rightarrow> journal \<Rightarrow> append_faults \<Rightarrow> string \<Rightarrow> fs \<Rightarrow> unit result \<times> fs" where
  "journal_mark_done enc j F i fs = journal_append enc j F (Done i) fs"

definition journal_mark_dead ::
  "encoder \<Rightarrow> journal \<Rightarrow> append_faults \<Rightarrow> string \<Rightarrow> string \<Rightarrow> string \<Rightarrow> fs \<Rightarrow> unit result \<times> fs" where
  "journal_mark_dead enc j F i why at fs = journal_append enc j F (Dead i why at) fs"

section \<open>Reading\<close>

fun parse_lines ::
  "decoder \<Rightarrow> string \<Rightarrow> bool \<Rightarrow> nat \<Rightarrow> nat \<Rightarrow> string list \<Rightarrow> log_record list result" where
  "parse_lines dec p ends_cleanly n i [] = Inr []"
| "parse_lines dec p ends_cleanly n i (l # ls) =
     (if is_blank l then parse_lines dec p ends_cleanly n (Suc i) ls
      else
        (case dec l of
           Inr r \<Rightarrow>
             bind_result (parse_lines dec p ends_cleanly n (Suc i) ls) (\<lambda>rs. Inr (r # rs))
         | Inl e \<Rightarrow>
             if \<not> ends_cleanly \<and> i + 1 = n then parse_lines dec p ends_cleanly n (Suc i) ls
             else
               Inl (Config
                 (''journal '' @ p @ '' line '' @ show_nat (i + 1) @ '' is unparseable: '' @ e)
                 (''the journal is damaged beyond the usual torn-tail case; move it '' @
                  ''aside to inspect before restarting, since doing so abandons any '' @
                  ''undelivered events it holds''))))"

definition read_error :: "journal \<Rightarrow> string \<Rightarrow> almanac_error" where
  "read_error j e =
     Config (''failed to read journal '' @ journal_path j @ '': '' @ e)
       (''check permissions on '' @ journal_path j)"

definition parse_journal :: "decoder \<Rightarrow> string \<Rightarrow> string \<Rightarrow> log_record list result" where
  "parse_journal dec p contents =
     (let ends_cleanly = (contents = [] \<or> last contents = CHR 0x0A); ls = lines contents
      in parse_lines dec p ends_cleanly (length ls) 0 ls)"

text \<open>The third argument is the error of the read itself, when it fails for another reason.\<close>

definition read_records ::
  "decoder \<Rightarrow> journal \<Rightarrow> string option \<Rightarrow> fs \<Rightarrow> log_record list result" where
  "read_records dec j fault fs =
     (case fs (journal_path j) of
        None \<Rightarrow> Inr []
      | Some contents \<Rightarrow>
          (case fault of
             Some e \<Rightarrow> Inl (read_error j e)
           | None \<Rightarrow>
               if \<not> utf8_valid contents
               then Inl (read_error j ''stream did not contain valid UTF-8'')
               else parse_journal dec (journal_path j) contents))"

definition journal_pending ::
  "decoder \<Rightarrow> journal \<Rightarrow> string option \<Rightarrow> fs \<Rightarrow> entry list result" where
  "journal_pending dec j fault fs =
     bind_result (read_records dec j fault fs) (\<lambda>rs. Inr (pending rs))"

definition journal_dead ::
  "decoder \<Rightarrow> journal \<Rightarrow> string option \<Rightarrow> fs \<Rightarrow> (entry \<times> string \<times> string) list result" where
  "journal_dead dec j fault fs =
     bind_result (read_records dec j fault fs) (\<lambda>rs. Inr (dead rs))"

section \<open>Compaction\<close>

fun encode_body :: "encoder \<Rightarrow> log_record list \<Rightarrow> string result" where
  "encode_body enc [] = Inr []"
| "encode_body enc (r # rs) =
     (case enc r of
        Inl e \<Rightarrow>
          Inl (Config (''failed to serialize a journal record during compaction: '' @ e)
                ''this is a bug in almanac'')
      | Inr line \<Rightarrow>
          bind_result (encode_body enc rs) (\<lambda>body. Inr (line @ newline @ body)))"

definition compact_temp :: "string \<Rightarrow> string" where
  "compact_temp p = with_extension p ''compacting''"

definition compact_errors :: "string \<Rightarrow> rewrite_errors" where
  "compact_errors p =
     \<lparr>create_error = (\<lambda>e. Config (''failed to create '' @ compact_temp p @ '': '' @ e)
                              ''check free disk space and permissions''),
      write_error = (\<lambda>e. Config (''failed to write '' @ compact_temp p @ '': '' @ e)
                             ''check free disk space''),
      sync_error = (\<lambda>e. Config (''failed to fsync '' @ compact_temp p @ '': '' @ e)
                            ''check disk health''),
      rename_error =
        (\<lambda>e. Config (''failed to replace '' @ p @ '' with '' @ compact_temp p @ '': '' @ e)
                    ''check permissions on the journal directory'')\<rparr>"

definition compact_replace ::
  "rewrite_faults \<Rightarrow> string \<Rightarrow> string \<Rightarrow> fs \<Rightarrow> unit result \<times> fs" where
  "compact_replace F p body fs = replace_via (compact_errors p) F (compact_temp p) p body fs"

definition journal_compact ::
  "encoder \<Rightarrow> decoder \<Rightarrow> journal \<Rightarrow> string option \<Rightarrow> rewrite_faults \<Rightarrow> fs \<Rightarrow> nat result \<times> fs" where
  "journal_compact enc dec j fault F fs =
     (case read_records dec j fault fs of
        Inl e \<Rightarrow> (Inl e, fs)
      | Inr rs \<Rightarrow>
          (let kept = compact_records rs in
           case encode_body enc kept of
             Inl e \<Rightarrow> (Inl e, fs)
           | Inr body \<Rightarrow>
               (case compact_replace F (journal_path j) body fs of
                  (Inl e, fs') \<Rightarrow> (Inl e, fs')
                | (Inr _, fs') \<Rightarrow> (Inr (length kept), fs'))))"

interpretation compaction: atomic_replace compact_replace compact_temp
  by unfold_locales (auto simp: compact_replace_def intro: replace_via_laws)

section \<open>Reading back what was written\<close>

lemma image_of_simps [simp]:
  "image_of enc [] = []"
  "image_of enc (rs @ [r]) = image_of enc rs @ encoded enc r @ newline"
  by (simp_all add: image_of_def)

lemma image_append: "image_of enc (xs @ ys) = image_of enc xs @ image_of enc ys"
  by (induction ys rule: rev_induct) (simp_all flip: append_assoc)

lemma image_single: "image_of enc [r] = encoded enc r @ newline"
  using image_of_simps(2) [of enc "[]" r] by simp

lemma image_cons: "image_of enc (r # rs) = encoded enc r @ newline @ image_of enc rs"
  using image_append [of enc "[r]" rs] by (simp add: image_single)

lemma lines_image:
  assumes "record_codec enc dec" "CHR 0x0A \<notin> set rest"
  shows "lines (image_of enc rs @ rest)
         = map (encoded enc) rs @ (if rest = [] then [] else [rest])"
proof -
  note c = record_codecD [OF assms(1)]
  have "map strip_cr (map (encoded enc) rs) = map (encoded enc) rs"
    by (simp add: c(6))
  moreover have "lines (log_text (map (encoded enc) rs) @ rest)
      = map strip_cr (map (encoded enc) rs) @ (if rest = [] then [] else [rest])"
    using c(5) assms(2) by (intro lines_log_text) auto
  ultimately show ?thesis by (simp add: image_of_def)
qed

lemma parse_lines_image:
  assumes "record_codec enc dec"
  shows "parse_lines dec p clean n i (map (encoded enc) rs @ tail) =
    bind_result (parse_lines dec p clean n (i + length rs) tail) (\<lambda>xs. Inr (rs @ xs))"
proof (induction rs arbitrary: i)
  case Nil
  then show ?case by (cases "parse_lines dec p clean n i tail") auto
next
  case (Cons r rs)
  note c = record_codecD [OF assms, where r = r]
  show ?case
    by (cases "parse_lines dec p clean n (Suc (i + length rs)) tail")
      (simp_all add: c(2,4) Cons.IH)
qed

lemma image_clean:
  "image_of enc rs = [] \<or> last (image_of enc rs) = CHR 0x0A"
  unfolding image_of_def by (rule log_text_ends_cleanly)

lemma parse_image:
  assumes "record_codec enc dec"
  shows "parse_journal dec p (image_of enc rs) = Inr rs"
proof -
  have ls: "lines (image_of enc rs) = map (encoded enc) rs @ []"
    using lines_image [OF assms, of "[]"] by simp
  show ?thesis
    using image_clean [of enc rs] unfolding parse_journal_def Let_def ls
    by (simp only: parse_lines_image [OF assms]) simp
qed

lemma take_no_newline: "CHR 0x0A \<notin> set t \<Longrightarrow> CHR 0x0A \<notin> set (take k t)"
  by (meson in_set_takeD)

text \<open>The signature of a crash in the middle of an append: part of a line, no line feed.\<close>

lemma parse_torn:
  assumes "record_codec enc dec"
  shows "parse_journal dec p (image_of enc rs @ take k (encoded enc r))
         = Inr (if length (encoded enc r) \<le> k then rs @ [r] else rs)"
proof (cases "k = 0")
  case True
  have "encoded enc r \<noteq> []"
    using record_codecD(4) [OF assms, of r] by (auto simp: is_blank_def trim_def trim_start_def trim_end_def)
  with True assms show ?thesis by (simp add: parse_image)
next
  case False
  note c = record_codecD [OF assms, where r = r]
  have ne: "encoded enc r \<noteq> []"
    using c(4) by (auto simp: is_blank_def trim_def trim_start_def trim_end_def)
  let ?t = "take k (encoded enc r)"
  have t: "?t \<noteq> []" "CHR 0x0A \<notin> set ?t"
    using False ne c(5) by (auto dest: in_set_takeD)
  have ls: "lines (image_of enc rs @ ?t) = map (encoded enc) rs @ [?t]"
    using lines_image [OF assms t(2)] t(1) by simp
  have unclean: "\<not> (image_of enc rs @ ?t = [] \<or> last (image_of enc rs @ ?t) = CHR 0x0A)"
    using t by (metis append_is_Nil_conv last_appendR last_in_set)
  have "parse_lines dec p False n i [?t] = Inr (if length (encoded enc r) \<le> k then [r] else [])"
    if "n = Suc i" for n i
  proof (cases "length (encoded enc r) \<le> k")
    case True
    then show ?thesis by (simp add: c(2,4))
  next
    case short: False
    then obtain e where "dec ?t = Inl e"
      using c(7) [of k] False by (meson not_gr_zero not_le)
    with short that show ?thesis by simp
  qed
  then show ?thesis
    using unclean unfolding parse_journal_def Let_def ls
    by (simp add: parse_lines_image [OF assms] del: append_is_Nil_conv parse_lines.simps(2))
qed

lemma parse_lines_bad:
  assumes "\<not> is_blank l" "dec l = Inl e" "clean"
  shows "\<exists>err. parse_lines dec p clean n i (l # ls) = Inl err"
  using assms by auto

section \<open>What the journal file holds\<close>

text \<open>\<open>disk_holds enc j rs fs\<close>: the journal file is exactly the records \<open>rs\<close>; no file is none.\<close>

definition disk_holds :: "encoder \<Rightarrow> journal \<Rightarrow> log_record list \<Rightarrow> fs \<Rightarrow> bool" where
  "disk_holds enc j rs fs \<longleftrightarrow> file_text fs (journal_path j) = image_of enc rs"

lemma utf8_image:
  "record_codec enc dec \<Longrightarrow> utf8_valid (image_of enc rs)"
  unfolding image_of_def by (rule utf8_log_text) (auto simp: record_codecD)

lemma holds_read:
  assumes "record_codec enc dec" "disk_holds enc j rs fs"
  shows "read_records dec j None fs = Inr rs"
proof (cases "fs (journal_path j)")
  case None
  with assms have "image_of enc rs = image_of enc []"
    by (simp add: disk_holds_def file_text_def)
  then have "(Inr rs :: log_record list result) = Inr []"
    by (metis parse_image [OF assms(1)])
  with None show ?thesis by (simp add: read_records_def)
next
  case (Some c)
  with assms(2) have "c = image_of enc rs"
    by (simp add: disk_holds_def file_text_def)
  with Some show ?thesis
    by (simp add: read_records_def utf8_image [OF assms(1)] parse_image [OF assms(1)])
qed

lemma append_outcome:
  assumes "record_codec enc dec" "journal_append enc j F r fs = (res, fs')"
  shows "res = Inr () \<and> fs' = fs(journal_path j \<mapsto>
           file_text fs (journal_path j) @ encoded enc r @ newline)
    \<or> (\<exists>e. res = Inl e) \<and> (fs' = fs
        \<or> fs' = fs(journal_path j \<mapsto> file_text fs (journal_path j) @ encoded enc r @ newline)
        \<or> (\<exists>n e. append_fault F = Some (n, e) \<and>
             fs' = fs(journal_path j \<mapsto>
               file_text fs (journal_path j) @ take n (encoded enc r @ newline))))"
  using assms(2)
  by (auto simp: journal_append_def Let_def record_codecD [OF assms(1)]
      split: option.splits if_splits prod.splits)

lemma append_holds:
  assumes "record_codec enc dec" "disk_holds enc j rs fs"
    "journal_append enc j F r fs = (Inr u, fs')"
  shows "disk_holds enc j (rs @ [r]) fs'"
  using append_outcome [OF assms(1,3)] assms(2) by (auto simp: disk_holds_def file_text_def)

lemma append_frame:
  assumes "journal_append enc j F r fs = (res, fs')" "q \<noteq> journal_path j"
  shows "fs' q = fs q"
  using assms
  by (auto simp: journal_append_def Let_def split: sum.splits option.splits if_splits prod.splits)

lemma encode_body_image:
  assumes "record_codec enc dec"
  shows "encode_body enc rs = Inr (image_of enc rs)"
proof (induction rs)
  case Nil
  show ?case by simp
next
  case (Cons r rs)
  then show ?case
    by (simp add: record_codecD(1) [OF assms, of r] image_of_def)
qed

lemma compact_success:
  assumes "record_codec enc dec" "disk_holds enc j rs fs"
    "journal_compact enc dec j fault F fs = (Inr n, fs')"
  shows "disk_holds enc j (compact_records rs) fs'" "n = length (compact_records rs)"
proof -
  have read: "read_records dec j fault fs = Inr rs"
  proof (cases "fault = None")
    case True
    with holds_read [OF assms(1,2)] show ?thesis by simp
  next
    case False
    have "read_records dec j fault fs = read_records dec j None fs
        \<or> (\<exists>e. read_records dec j fault fs = Inl e)"
      using False by (auto simp: read_records_def split: option.splits)
    with assms(3) holds_read [OF assms(1,2)] show ?thesis
      by (auto simp: journal_compact_def)
  qed
  obtain u where rep: "compact_replace F (journal_path j) (image_of enc (compact_records rs)) fs
      = (Inr u, fs')" and n: "n = length (compact_records rs)"
    using assms(3)
    by (auto simp: journal_compact_def read Let_def encode_body_image [OF assms(1)]
        split: prod.splits sum.splits)
  from compaction.replaced [OF rep] show "disk_holds enc j (compact_records rs) fs'"
    by (simp add: disk_holds_def file_text_def)
  show "n = length (compact_records rs)" by (rule n)
qed

lemma compact_failure:
  assumes "journal_compact enc dec j fault F fs = (Inl e, fs')"
    "compact_temp (journal_path j) \<noteq> journal_path j"
  shows "fs' (journal_path j) = fs (journal_path j)"
  using assms
  by (auto simp: journal_compact_def Let_def dest: compaction.kept
      split: sum.splits prod.splits)

text \<open>Without faults compaction succeeds.\<close>

lemma compact_clean:
  assumes "record_codec enc dec" "disk_holds enc j rs fs"
  shows "\<exists>fs'. journal_compact enc dec j None no_rewrite_faults fs
    = (Inr (length (compact_records rs)), fs')"
  by (simp add: journal_compact_def holds_read [OF assms] encode_body_image [OF assms(1)]
      compact_replace_def replace_via_clean Let_def)

section \<open>Histories\<close>

text \<open>
  Every sequence of journal operations in which no write was cut short, with the operations that
  reached the file: those that returned \<open>Ok\<close>, and appends whose bytes were written but whose
  flush failed. Other files may change at any time.
\<close>

inductive journal_history :: "encoder \<Rightarrow> decoder \<Rightarrow> journal \<Rightarrow> log_op list \<Rightarrow> fs \<Rightarrow> bool"
  for enc dec j where
  start: "fs (journal_path j) = None \<Longrightarrow> journal_history enc dec j [] fs"
| appended:
    "journal_history enc dec j ops fs \<Longrightarrow> journal_append enc j F r fs = (Inr u, fs') \<Longrightarrow>
     journal_history enc dec j (ops @ [op_of_record r]) fs'"
| refused:
    "journal_history enc dec j ops fs \<Longrightarrow> journal_append enc j F r fs = (Inl e, fs') \<Longrightarrow>
     fs' (journal_path j) = fs (journal_path j) \<Longrightarrow> journal_history enc dec j ops fs'"
| unsynced:
    "journal_history enc dec j ops fs \<Longrightarrow> journal_append enc j F r fs = (Inl e, fs') \<Longrightarrow>
     append_fault F = None \<Longrightarrow> fs' (journal_path j) \<noteq> fs (journal_path j) \<Longrightarrow>
     journal_history enc dec j (ops @ [op_of_record r]) fs'"
| compacted:
    "journal_history enc dec j ops fs \<Longrightarrow>
     journal_compact enc dec j fault G fs = (Inr n, fs') \<Longrightarrow>
     journal_history enc dec j (ops @ [Compact]) fs'"
| not_compacted:
    "journal_history enc dec j ops fs \<Longrightarrow>
     journal_compact enc dec j fault G fs = (Inl e, fs') \<Longrightarrow> journal_history enc dec j ops fs'"
| elsewhere:
    "journal_history enc dec j ops fs \<Longrightarrow> fs' (journal_path j) = fs (journal_path j) \<Longrightarrow>
     journal_history enc dec j ops fs'"

text \<open>The file is at all times the image of the log the operations build.\<close>

lemma history_holds:
  assumes "record_codec enc dec" "compact_temp (journal_path j) \<noteq> journal_path j"
  shows "journal_history enc dec j ops fs \<Longrightarrow> disk_holds enc j (replay ops []) fs"
proof (induction rule: journal_history.induct)
  case (start fs)
  then show ?case by (simp add: disk_holds_def file_text_def)
next
  case (appended ops fs F r u fs')
  then show ?case by (simp add: replay_append apply_op_of_record append_holds [OF assms(1)])
next
  case (refused ops fs F r e fs')
  then show ?case by (simp add: disk_holds_def file_text_def)
next
  case (unsynced ops fs F r e fs')
  from append_outcome [OF assms(1) unsynced.hyps(2)] unsynced.hyps(3,4) unsynced.IH
  show ?case by (auto simp: disk_holds_def file_text_def replay_append apply_op_of_record)
next
  case (compacted ops fs fault G n fs')
  from compact_success(1) [OF assms(1) compacted.IH compacted.hyps(2)]
  show ?case by (simp add: replay_append)
next
  case (not_compacted ops fs fault G e fs')
  from compact_failure [OF not_compacted.hyps(2) assms(2)] not_compacted.IH
  show ?case by (simp add: disk_holds_def file_text_def)
next
  case (elsewhere ops fs fs')
  then show ?case by (simp add: disk_holds_def file_text_def)
qed

end
