(* ===== verification/App.thy ===== *)
theory App
  imports Delivery Journal_Disk
begin

text \<open>
  The state the handlers and the worker share, \<open>AppState\<close> of src/shell/ingest.rs, with the two
  overlays that correct Google's slow calendar list, and the operational notifications of
  src/shell/notify.rs.
\<close>

section \<open>The state\<close>

record 'w app =
  app_hub :: "'w hub"
  app_files :: fs
  app_profiles :: "string \<rightharpoonup> profile"
  app_profiles_dir :: string
  deleted_calendars :: "string set"
  created_calendars :: "(string \<times> string) list"
  calendar_owner :: "string option"
  calendar_names :: "(string \<times> string) list"
  app_locks :: key_locks
  app_routes :: "route_record ring"

text \<open>
  What does not change while the service runs, and what is read from outside: the crates, Google,
  the journal and its codec, and at every use the faults of the disk, the clock and a new UUID.
\<close>

record ('w, 'k, 'dt, 'nd) app_env =
  env_crates :: "('dt, 'nd) crates"
  env_google :: "('w, 'k) google_env"
  env_journal :: journal
  env_encoder :: encoder
  env_decoder :: decoder
  env_append_faults :: "'w \<Rightarrow> append_faults \<times> 'w"
  env_read_fault :: "'w \<Rightarrow> string option \<times> 'w"
  env_rewrite_faults :: "'w \<Rightarrow> rewrite_faults \<times> 'w"
  env_now :: "'w \<Rightarrow> string \<times> 'w"
  env_uuid :: "'w \<Rightarrow> string \<times> 'w"
  env_version :: string

definition HISTORY_CAPACITY :: nat where
  "HISTORY_CAPACITY = 100"

definition app_new :: "(string \<rightharpoonup> profile) \<Rightarrow> fs \<Rightarrow> 'w \<Rightarrow> 'w app" where
  "app_new ps fs w =
     \<lparr>app_hub = \<lparr>outside = w, token_cache = None, hub_metrics = metrics_zero\<rparr>,
      app_files = fs, app_profiles = ps, app_profiles_dir = ''profiles'',
      deleted_calendars = {}, created_calendars = [], calendar_owner = None,
      calendar_names = [], app_locks = key_locks_new, app_routes = ring_new HISTORY_CAPACITY\<rparr>"

definition ask :: "('w \<Rightarrow> 'a \<times> 'w) \<Rightarrow> 'w app \<Rightarrow> 'a \<times> 'w app" where
  "ask f A =
     (case f (outside (app_hub A)) of (x, w) \<Rightarrow> (x, A\<lparr>app_hub := (app_hub A)\<lparr>outside := w\<rparr>\<rparr>))"

definition on_metrics :: "(metrics \<Rightarrow> metrics) \<Rightarrow> 'w app \<Rightarrow> 'w app" where
  "on_metrics f A = A\<lparr>app_hub := (app_hub A)\<lparr>hub_metrics := f (hub_metrics (app_hub A))\<rparr>\<rparr>"

definition set_profiles :: "(string \<rightharpoonup> profile) \<Rightarrow> 'w app \<Rightarrow> 'w app" where
  "set_profiles ps A = A\<lparr>app_profiles := ps\<rparr>"

definition with_profiles_dir :: "string \<Rightarrow> 'w app \<Rightarrow> 'w app" where
  "with_profiles_dir dir A = A\<lparr>app_profiles_dir := dir\<rparr>"

definition with_calendar_owner :: "string option \<Rightarrow> 'w app \<Rightarrow> 'w app" where
  "with_calendar_owner owner A = A\<lparr>calendar_owner := owner\<rparr>"

section \<open>What Google's list is corrected with\<close>

definition remember_deleted_calendar :: "string \<Rightarrow> 'w app \<Rightarrow> 'w app" where
  "remember_deleted_calendar cal A = A\<lparr>deleted_calendars := insert cal (deleted_calendars A)\<rparr>"

definition remember_calendars :: "(string \<times> string) list \<Rightarrow> 'w app \<Rightarrow> 'w app" where
  "remember_calendars cals A = A\<lparr>calendar_names := cals\<rparr>"

definition calendar_options :: "'w app \<Rightarrow> (string \<times> string) list" where
  "calendar_options A = calendar_names A"

definition calendar_name :: "string \<Rightarrow> 'w app \<Rightarrow> string" where
  "calendar_name cal A =
     (case find (\<lambda>(i, n). i = cal) (calendar_names A) of Some (i, n) \<Rightarrow> n | None \<Rightarrow> cal)"

definition without_deleted_calendars ::
  "(string \<times> string) list \<Rightarrow> 'w app \<Rightarrow> (string \<times> string) list \<times> 'w app" where
  "without_deleted_calendars cals A =
     (if deleted_calendars A = {} then (cals, A)
      else
        (let listed = set (map fst cals);
             deleted = {i \<in> deleted_calendars A. i \<in> listed}
         in (filter (\<lambda>(i, n). i \<notin> deleted) cals, A\<lparr>deleted_calendars := deleted\<rparr>)))"

text \<open>
  \<open>HashMap<String, String>\<close> from names to ids, as a list of pairs with one pair per name; the order
  of iteration does not show, because what is taken from it is sorted by name.
\<close>

definition remember_created_calendar :: "string \<Rightarrow> string \<Rightarrow> 'w app \<Rightarrow> 'w app" where
  "remember_created_calendar name cal A =
     A\<lparr>created_calendars := (name, cal) # filter (\<lambda>(n, i). n \<noteq> name) (created_calendars A)\<rparr>"

definition remembered_calendar :: "string \<Rightarrow> 'w app \<Rightarrow> string option" where
  "remembered_calendar name A = map_of (created_calendars A) name"

definition forget_created_calendar :: "string \<Rightarrow> 'w app \<Rightarrow> 'w app" where
  "forget_created_calendar cal A =
     A\<lparr>created_calendars := filter (\<lambda>(n, i). i \<noteq> cal) (created_calendars A)\<rparr>"

definition with_created_calendars ::
  "(string \<times> string) list \<Rightarrow> 'w app \<Rightarrow> (string \<times> string) list \<times> 'w app" where
  "with_created_calendars cals A =
     (if created_calendars A = [] then (cals, A)
      else
        (let listed = set (map fst cals);
             missing = filter (\<lambda>(n, i). i \<notin> listed) (created_calendars A)
         in (sort_named (cals @ map (\<lambda>(n, i). (i, n)) missing),
             A\<lparr>created_calendars := missing\<rparr>)))"

text \<open>What the page shows: both corrections applied to what Google listed.\<close>

lemma shown_without_deleted:
  assumes "without_deleted_calendars cals A = (shown, A')"
  shows "set shown = {(i, n) \<in> set cals. i \<notin> deleted_calendars A}"
    "deleted_calendars A' = deleted_calendars A \<inter> fst ` set cals"
  using assms
  by (force simp: without_deleted_calendars_def Let_def split: if_splits)+

lemma shown_with_created:
  assumes "with_created_calendars cals A = (shown, A')"
  shows "set shown =
      set cals \<union> {(i, n). (n, i) \<in> set (created_calendars A) \<and> i \<notin> fst ` set cals}"
    "set (created_calendars A') = {(n, i) \<in> set (created_calendars A). i \<notin> fst ` set cals}"
  using assms
  by (force simp: with_created_calendars_def Let_def split: if_splits)+

section \<open>Notifications\<close>

record notice =
  notice_op :: string
  notice_ok :: bool
  notice_version :: string
  notice_error :: "string option"

definition WEBHOOK_ENV :: string where "WEBHOOK_ENV = ''ALMANAC_NOTIFY_WEBHOOK''"

definition UPDATE_APPLIED :: string where "UPDATE_APPLIED = ''almanac-update''"

definition UPDATE_REVERTED :: string where "UPDATE_REVERTED = ''almanac-update-reverted''"

definition UPDATE_UNVERIFIED :: string where "UPDATE_UNVERIFIED = ''almanac-update-unverified''"

definition ENTRY_SET_ASIDE :: string where
  "ENTRY_SET_ASIDE = ''almanac-entry-set-aside''"

definition JOURNAL_BACKLOG :: string where
  "JOURNAL_BACKLOG = ''almanac-journal-backlog''"

definition notice_to_json :: "notice \<Rightarrow> json" where
  "notice_to_json n =
     JObj ([(''op'', JStr (notice_op n)), (''ok'', JBool (notice_ok n)),
            (''version'', JStr (notice_version n))] @ skip_none ''error'' JStr (notice_error n))"

text \<open>The variable's value, when it is set and Unicode; blank counts as unset.\<close>

definition notifier_from_env :: "string option \<Rightarrow> string option" where
  "notifier_from_env var =
     (case var of Some url \<Rightarrow> if is_blank url then None else Some (trim url) | None \<Rightarrow> None)"

definition notifier_to :: "string \<Rightarrow> string option" where
  "notifier_to webhook = Some webhook"

definition notifier_disabled :: "string option" where
  "notifier_disabled = None"

definition notifier_is_enabled :: "string option \<Rightarrow> bool" where
  "notifier_is_enabled webhook \<longleftrightarrow> webhook \<noteq> None"

text \<open>Whatever becomes of the request, the caller goes on.\<close>

definition notifier_send ::
  "('w, 'k) services \<Rightarrow> string option \<Rightarrow> notice \<Rightarrow> 'w hub \<Rightarrow> 'w hub" where
  "notifier_send S webhook n h =
     (case webhook of
        None \<Rightarrow> h
      | Some url \<Rightarrow>
          snd (hub_send S
            \<lparr>http_method = ''POST'', http_url = url, http_bearer = None, http_query = [],
             http_body = JsonBody (notice_to_json n)\<rparr> h))"

section \<open>The journal of the service\<close>

definition app_accept ::
  "('w, 'k, 'dt, 'nd) app_env \<Rightarrow> entry \<Rightarrow> 'w app \<Rightarrow> unit result \<times> 'w app" where
  "app_accept E e A =
     (case ask (env_append_faults E) A of (F, A1) \<Rightarrow>
        (case journal_accept (env_encoder E) (env_journal E) F e (app_files A1) of
           (r, fs) \<Rightarrow> (r, A1\<lparr>app_files := fs\<rparr>)))"

definition app_mark_done ::
  "('w, 'k, 'dt, 'nd) app_env \<Rightarrow> string \<Rightarrow> 'w app \<Rightarrow> unit result \<times> 'w app" where
  "app_mark_done E i A =
     (case ask (env_append_faults E) A of (F, A1) \<Rightarrow>
        (case journal_mark_done (env_encoder E) (env_journal E) F i (app_files A1) of
           (r, fs) \<Rightarrow> (r, A1\<lparr>app_files := fs\<rparr>)))"

definition app_mark_dead ::
  "('w, 'k, 'dt, 'nd) app_env \<Rightarrow> string \<Rightarrow> string \<Rightarrow> string \<Rightarrow> 'w app \<Rightarrow> unit result \<times> 'w app" where
  "app_mark_dead E i why at A =
     (case ask (env_append_faults E) A of (F, A1) \<Rightarrow>
        (case journal_mark_dead (env_encoder E) (env_journal E) F i why at (app_files A1) of
           (r, fs) \<Rightarrow> (r, A1\<lparr>app_files := fs\<rparr>)))"

definition app_pending ::
  "('w, 'k, 'dt, 'nd) app_env \<Rightarrow> 'w app \<Rightarrow> entry list result \<times> 'w app" where
  "app_pending E A =
     (case ask (env_read_fault E) A of (fault, A1) \<Rightarrow>
        (journal_pending (env_decoder E) (env_journal E) fault (app_files A1), A1))"

definition app_compact :: "('w, 'k, 'dt, 'nd) app_env \<Rightarrow> 'w app \<Rightarrow> nat result \<times> 'w app" where
  "app_compact E A =
     (case ask (env_read_fault E) A of (fault, A1) \<Rightarrow>
        (case ask (env_rewrite_faults E) A1 of (F, A2) \<Rightarrow>
           (case journal_compact (env_encoder E) (env_decoder E) (env_journal E) fault F
                   (app_files A2) of
              (r, fs) \<Rightarrow> (r, A2\<lparr>app_files := fs\<rparr>))))"

text \<open>\<open>deliver\<close> on the shared state: the client it calls and the lock table it fetches its lock from.\<close>

definition locks_after ::
  "('dt, 'nd) crates \<Rightarrow> entry \<Rightarrow> profile \<Rightarrow> key_locks \<Rightarrow> key_locks" where
  "locks_after K e p L =
     (case map_payload K (payload e) p (''profile '' @ source_id p) of
        Ok ev \<Rightarrow> (case upsert_key e ev of Some k \<Rightarrow> snd (for_key k L) | None \<Rightarrow> L)
      | _ \<Rightarrow> L)"

definition app_deliver ::
  "('w, 'k, 'dt, 'nd) app_env \<Rightarrow> entry \<Rightarrow> profile \<Rightarrow> 'w app \<Rightarrow> delivered outcome \<times> 'w app" where
  "app_deliver E e p A =
     (case deliver (env_crates E) (env_google E) e p (app_hub A) of
        (r, h) \<Rightarrow>
          (r, A\<lparr>app_hub := h, app_locks := locks_after (env_crates E) e p (app_locks A)\<rparr>))"

section \<open>Facts\<close>

lemma ask_frame:
  "ask f A = (x, A') \<Longrightarrow>
     app_files A' = app_files A \<and> app_profiles A' = app_profiles A \<and> app_routes A' = app_routes A \<and>
     hub_metrics (app_hub A') = hub_metrics (app_hub A) \<and> app_locks A' = app_locks A"
  by (auto simp: ask_def split: prod.splits)

lemma on_metrics_frame [simp]:
  "app_files (on_metrics f A) = app_files A" "app_profiles (on_metrics f A) = app_profiles A"
  "app_routes (on_metrics f A) = app_routes A"
  by (simp_all add: on_metrics_def)

lemma app_deliver_frame:
  "app_deliver E e p A = (r, A') \<Longrightarrow>
     app_files A' = app_files A \<and> app_profiles A' = app_profiles A \<and> app_routes A' = app_routes A"
  by (auto simp: app_deliver_def split: prod.splits)

text \<open>
  The journal file of the service holds the records \<open>rs\<close>. Writes that the disk cuts short are the
  one fault that is excluded below, as \<open>whole_writes\<close>.
\<close>

definition app_holds :: "('w, 'k, 'dt, 'nd) app_env \<Rightarrow> log_record list \<Rightarrow> 'w app \<Rightarrow> bool" where
  "app_holds E rs A \<longleftrightarrow> disk_holds (env_encoder E) (env_journal E) rs (app_files A)"

definition whole_writes :: "('w, 'k, 'dt, 'nd) app_env \<Rightarrow> bool" where
  "whole_writes E \<longleftrightarrow> (\<forall>w. append_fault (fst (env_append_faults E w)) = None)"

definition app_codec :: "('w, 'k, 'dt, 'nd) app_env \<Rightarrow> bool" where
  "app_codec E \<longleftrightarrow> record_codec (env_encoder E) (env_decoder E)"

lemma append_step:
  assumes "record_codec enc dec" "append_fault F = None" "disk_holds enc j rs fs"
    "journal_append enc j F r fs = (res, fs')"
  shows "disk_holds enc j (rs @ [r]) fs' \<or> (\<exists>e. res = Inl e) \<and> disk_holds enc j rs fs'"
  using append_outcome [OF assms(1,4)] assms(2,3)
  by (auto simp: disk_holds_def file_text_def)

definition app_append ::
  "('w, 'k, 'dt, 'nd) app_env \<Rightarrow> log_record \<Rightarrow> 'w app \<Rightarrow> unit result \<times> 'w app" where
  "app_append E r A =
     (case ask (env_append_faults E) A of (F, A1) \<Rightarrow>
        (case journal_append (env_encoder E) (env_journal E) F r (app_files A1) of
           (res, fs) \<Rightarrow> (res, A1\<lparr>app_files := fs\<rparr>)))"

lemma app_append_eqs:
  "app_accept E e = app_append E (EntryRec e)"
  "app_mark_done E i = app_append E (Done i)"
  "app_mark_dead E i why at = app_append E (Dead i why at)"
  by (simp_all add: fun_eq_iff app_accept_def app_mark_done_def app_mark_dead_def app_append_def
      journal_accept_def journal_mark_done_def journal_mark_dead_def)

lemma app_append_frame:
  "app_append E r A = (res, A') \<Longrightarrow>
     app_profiles A' = app_profiles A \<and> app_routes A' = app_routes A \<and>
     hub_metrics (app_hub A') = hub_metrics (app_hub A)"
  by (auto simp: app_append_def dest!: ask_frame split: prod.splits)

lemma app_append_step:
  "app_append E r A = (res, A') \<Longrightarrow>
     \<exists>w. journal_append (env_encoder E) (env_journal E) (fst (env_append_faults E w)) r (app_files A)
       = (res, app_files A')"
  by (rule exI [of _ "outside (app_hub A)"]) (auto simp: app_append_def ask_def split: prod.splits)

text \<open>An append adds its record, or fails and either way leaves a file of whole records.\<close>

lemma app_append_holds:
  assumes "app_codec E" "whole_writes E" "app_holds E rs A" "app_append E r A = (res, A')"
  shows "app_holds E (rs @ [r]) A' \<or> (\<exists>er. res = Inl er) \<and> app_holds E rs A'"
proof -
  obtain w where j: "journal_append (env_encoder E) (env_journal E)
      (fst (env_append_faults E w)) r (app_files A) = (res, app_files A')"
    using app_append_step [OF assms(4)] by blast
  have "append_fault (fst (env_append_faults E w)) = None"
    using assms(2) by (simp add: whole_writes_def)
  from append_step [OF _ this _ j] assms(1,3) show ?thesis
    by (simp add: app_codec_def app_holds_def)
qed

lemma app_pending_holds:
  assumes "app_codec E" "app_holds E rs A" "app_pending E A = (Inr es, A')"
  shows "es = pending rs" "app_holds E rs A'"
proof -
  obtain fault where f: "journal_pending (env_decoder E) (env_journal E) fault (app_files A') = Inr es"
    "app_files A' = app_files A"
    using assms(3) by (auto simp: app_pending_def dest: ask_frame split: prod.splits)
  have r: "read_records (env_decoder E) (env_journal E) None (app_files A) = Inr rs"
    using holds_read assms(1,2) by (auto simp: app_codec_def app_holds_def)
  show "es = pending rs"
    using f r by (auto simp: journal_pending_def outcome_simps read_records_def split: option.splits)
  show "app_holds E rs A'"
    using assms(2) f(2) by (simp add: app_holds_def)
qed

end
