(* ===== verification/Ingest.thy ===== *)
theory Ingest
  imports App
begin

text \<open>
  The inbound HTTP surface: the handlers of src/shell/ingest.rs. A handler maps the decoded request
  and the shared state to a reply and the new state; no reply means that it panicked. Decoding the
  request (axum) and naming the caller (the chassis crate) come before it.
\<close>

section \<open>Replies\<close>

type_synonym reply = "nat \<times> json"

datatype caller = Admin | Client string

definition error_reply :: "nat \<Rightarrow> string \<Rightarrow> string \<Rightarrow> reply" where
  "error_reply status msg rem =
     (status, JObj [(''status'', JStr ''error''), (''message'', JStr msg), (''remedy'', JStr rem)])"

definition refuse_with :: "nat \<Rightarrow> almanac_error \<Rightarrow> reply" where
  "refuse_with status e = error_reply status (error_display e) (remedy e)"

section \<open>At the door\<close>

definition unauthorized :: reply where
  "unauthorized =
     error_reply 401 ''unknown source or invalid token''
       (''post with the token issued for this source on the Sources page (the client's name is '' @
        ''the source id)'')"

definition authenticate :: "'w app \<Rightarrow> string \<Rightarrow> caller \<Rightarrow> reply + profile" where
  "authenticate A src who =
     (case app_profiles A src of
        None \<Rightarrow> Inl unauthorized
      | Some p \<Rightarrow>
          (case who of
             Admin \<Rightarrow> Inr p
           | Client name \<Rightarrow> if name = src then Inr p else Inl unauthorized))"

text \<open>
  The header is its text, when it is there and is text (\<open>v.to_str().ok()\<close>).
\<close>

definition requires_an_id :: "json \<Rightarrow> string option \<Rightarrow> reply option" where
  "requires_an_id body header =
     (let has_external_id =
            (case Option.bind (json_get body ''external_id'') json_as_str of
               Some i \<Rightarrow> \<not> is_blank i | None \<Rightarrow> False);
          has_header = (case header of Some s \<Rightarrow> \<not> is_blank s | None \<Rightarrow> False)
      in if has_external_id \<or> has_header then None
         else Some (error_reply 422
           (''the payload has no '' @ quoted ''external_id'' @ '' and no Idempotency-Key header'')
           (''send '' @ quoted ''external_id'' @ '' with the source's own id for this thing, or an '' @
            ''Idempotency-Key header '' @ em_dash @
            '' without one of the two, almanac cannot find the event again to update or delete '' @
            ''it, and every resend creates another'')))"

datatype verdict = Pass | Refuse reply | Crash

definition must_be_mappable :: "('dt, 'nd) crates \<Rightarrow> json \<Rightarrow> profile \<Rightarrow> verdict" where
  "must_be_mappable K body p =
     (case map_payload K body p (''profile '' @ source_id p) of
        Ok ev \<Rightarrow> Pass
      | Err e \<Rightarrow> Refuse (refuse_with 422 e)
      | Panic \<Rightarrow> Crash)"

definition build_entry ::
  "('w, 'k, 'dt, 'nd) app_env \<Rightarrow> string \<Rightarrow> string option \<Rightarrow> json \<Rightarrow> 'w app \<Rightarrow> entry \<times> 'w app" where
  "build_entry E src header body A =
     (let key = (case header of
                   Some s \<Rightarrow> if trim s = [] then None else Some (trim s)
                 | None \<Rightarrow> None)
      in case ask (env_uuid E) A of (i, A1) \<Rightarrow>
           (case ask (env_now E) A1 of (now, A2) \<Rightarrow>
              (\<lparr>entry_id = i, entry_source = src, received_at = now, payload = body,
                idempotency_key = key\<rparr>, A2)))"

text \<open>The checks both ingest handlers begin with, in their order.\<close>

definition admit ::
  "('w, 'k, 'dt, 'nd) app_env \<Rightarrow> 'w app \<Rightarrow> string \<Rightarrow> caller \<Rightarrow> string option \<Rightarrow> json \<Rightarrow>
     verdict + profile" where
  "admit E A src who header body =
     (case authenticate A src who of
        Inl r \<Rightarrow> Inl (Refuse r)
      | Inr p \<Rightarrow>
          (case requires_an_id body header of
             Some r \<Rightarrow> Inl (Refuse r)
           | None \<Rightarrow>
               (case must_be_mappable (env_crates E) body p of
                  Pass \<Rightarrow> Inr p
                | Refuse r \<Rightarrow> Inl (Refuse r)
                | Crash \<Rightarrow> Inl Crash)))"

fun verdict_reply :: "verdict \<Rightarrow> reply option" where
  "verdict_reply (Refuse r) = Some r"
| "verdict_reply Crash = None"
| "verdict_reply Pass = None"

section \<open>The handlers\<close>

definition ingest ::
  "('w, 'k, 'dt, 'nd) app_env \<Rightarrow> string \<Rightarrow> caller \<Rightarrow> string option \<Rightarrow> json \<Rightarrow> 'w app \<Rightarrow>
     reply option \<times> 'w app" where
  "ingest E src who header body A =
     (case admit E A src who header body of
        Inl v \<Rightarrow> (verdict_reply v, A)
      | Inr p \<Rightarrow>
          (case build_entry E (source_id p) header body A of (e, A1) \<Rightarrow>
             (case app_accept E e A1 of
                (Inl err, A2) \<Rightarrow> (Some (refuse_with 500 err), A2)
              | (Inr _, A2) \<Rightarrow>
                  (Some (202, JObj [(''status'', JStr ''accepted''),
                                    (''entry_id'', JStr (entry_id e))]),
                   on_metrics count_accepted A2))))"

definition ingest_sync ::
  "('w, 'k, 'dt, 'nd) app_env \<Rightarrow> string \<Rightarrow> caller \<Rightarrow> string option \<Rightarrow> json \<Rightarrow> 'w app \<Rightarrow>
     reply option \<times> 'w app" where
  "ingest_sync E src who header body A =
     (case admit E A src who header body of
        Inl v \<Rightarrow> (verdict_reply v, A)
      | Inr p \<Rightarrow>
          (case build_entry E (source_id p) header body A of (e, A1) \<Rightarrow>
             (case app_accept E e A1 of
                (Inl err, A2) \<Rightarrow> (Some (refuse_with 500 err), A2)
              | (Inr _, A2) \<Rightarrow>
                  (case app_deliver E e p (on_metrics count_accepted A2) of
                     (Panic, A3) \<Rightarrow> (None, A3)
                   | (Err err, A3) \<Rightarrow> (Some (refuse_with 502 err), A3)
                   | (Ok d, A3) \<Rightarrow>
                       (Some (200, JObj [(''status'', JStr ''delivered''),
                                         (''event_id'', JStr (del_event_id d)),
                                         (''created'', JBool (del_created d))]),
                        snd (app_mark_done E (entry_id e) A3))))))"

definition delete_event ::
  "('w, 'k, 'dt, 'nd) app_env \<Rightarrow> string \<Rightarrow> string \<Rightarrow> caller \<Rightarrow> 'w app \<Rightarrow> reply \<times> 'w app" where
  "delete_event E src ext who A =
     (case authenticate A src who of
        Inl r \<Rightarrow> (r, A)
      | Inr p \<Rightarrow>
          (let key = source_key (source_id p) ext;
               cal = target_calendar_id p;
               A1 = A\<lparr>app_locks := snd (for_key key (app_locks A))\<rparr>
           in case find_event_by_property (env_google E) cal UPSERT_PROPERTY key (app_hub A1) of
                (Inl err, h) \<Rightarrow> (refuse_with 502 err, A1\<lparr>app_hub := h\<rparr>)
              | (Inr None, h) \<Rightarrow>
                  ((404, JObj [(''status'', JStr ''not_found''),
                               (''message'', JStr (''no event on '' @ cal @ '' carries '' @ key)),
                               (''remedy'',
                                JStr (''check the external id; it must be the one this source '' @
                                      ''used when the event was created''))]),
                   A1\<lparr>app_hub := h\<rparr>)
              | (Inr (Some ev), h) \<Rightarrow>
                  (case event_id ev of
                     None \<Rightarrow>
                       (error_reply 502 ''the Calendar API returned a matching event with no id''
                          ''this is unexpected; nothing was deleted'', A1\<lparr>app_hub := h\<rparr>)
                   | Some i \<Rightarrow>
                       (case client_delete_event (env_google E) cal i h of
                          (Inl err, h2) \<Rightarrow> (refuse_with 502 err, A1\<lparr>app_hub := h2\<rparr>)
                        | (Inr _, h2) \<Rightarrow>
                            ((200, JObj [(''status'', JStr ''deleted''), (''event_id'', JStr i)]),
                             A1\<lparr>app_hub := h2\<rparr>)))))"

section \<open>Facts\<close>

lemma authenticate_Inr:
  "authenticate A src who = Inr p \<longleftrightarrow>
     app_profiles A src = Some p \<and> (who = Admin \<or> who = Client src)"
  by (auto simp: authenticate_def split: option.splits caller.splits)

lemma authenticate_Inl: "authenticate A src who = Inl r \<Longrightarrow> r = unauthorized"
  by (auto simp: authenticate_def split: option.splits caller.splits if_splits)

lemma admit_Inr:
  assumes "admit E A src who header body = Inr p"
  shows "app_profiles A src = Some p" "who = Admin \<or> who = Client src"
    "requires_an_id body header = None"
    "\<exists>ev. map_payload (env_crates E) body p (''profile '' @ source_id p) = Ok ev"
  using assms
  by (auto simp: admit_def authenticate_Inr must_be_mappable_def
      split: sum.splits option.splits verdict.splits outcome.splits)

lemma build_entry_fields:
  assumes "build_entry E src header body A = (e, A')"
  shows "entry_source e = src" "payload e = body"
    "idempotency_key e =
       (case header of Some s \<Rightarrow> if is_blank s then None else Some (trim s) | None \<Rightarrow> None)"
    "app_files A' = app_files A" "app_profiles A' = app_profiles A"
    "hub_metrics (app_hub A') = hub_metrics (app_hub A)"
  using assms
  by (auto simp: build_entry_def is_blank_def Let_def dest!: ask_frame
      split: prod.splits option.splits)

text \<open>
  The id an admitted request carries is one the delivery finds: in the event, or in the header.
\<close>

lemma parsed_external_id:
  assumes "serde_reads_request K" "event_request_parse K body origin = Inr r"
    "Option.bind (json_get body ''external_id'') json_as_str = Some i"
  shows "req_external_id r = Some i"
proof -
  have req: "event_request_of_json body = Some r"
    using assms(1,2) serde_reads_requestD
    by (auto simp: event_request_parse_def split: sum.splits)
  obtain j where j: "json_get body ''external_id'' = Some j" "json_as_str j = Some i"
    using assms(3) by (auto simp: bind_eq_Some_conv)
  obtain kvs where body: "body = JObj kvs"
    using j(1) by (cases body) auto
  have m: "map_of kvs ''external_id'' = Some (JStr i)"
    using j by (cases j) (auto simp: body)
  have "event_request_of_fields kvs = Some r"
    using req by (simp add: body event_request_of_json_def split: if_splits)
  then have "field_or None (de_opt de_string) ''external_id'' kvs = Some (req_external_id r)"
    unfolding event_request_of_fields_def bind_eq_Some_conv by auto
  with m show ?thesis by (simp add: field_or_def)
qed

lemma admitted_has_key:
  assumes "serde_reads_request (env_crates E)" "admit E A src who header body = Inr p"
    "build_entry E (source_id p) header body A = (e, A')"
    "map_payload (env_crates E) (payload e) p origin = Ok ev"
  shows "upsert_key e ev \<noteq> None"
proof -
  note e = build_entry_fields [OF assms(3)]
  show ?thesis
  proof (cases "\<exists>i. Option.bind (json_get body ''external_id'') json_as_str = Some i \<and> \<not> is_blank i")
    case True
    then obtain i where i: "Option.bind (json_get body ''external_id'') json_as_str = Some i"
      by blast
    obtain r where r: "event_request_parse (env_crates E) body origin = Inr r"
      "to_google_event (env_crates E) r p origin = Ok ev"
      using assms(4) e(2) by (auto simp: map_payload_def outcome_simps)
    from parsed_external_id [OF assms(1) r(1) i] r(2) show ?thesis
      by (auto simp: to_google_event_def Let_def outcome_simps upsert_key_def
          split: if_splits prod.splits)
  next
    case False
    with admit_Inr(3) [OF assms(2)] obtain s where "header = Some s" "\<not> is_blank s"
      by (auto simp: requires_an_id_def Let_def split: option.splits if_splits)
    with e(3) show ?thesis by (auto simp: upsert_key_def split: option.splits)
  qed
qed

end
