(* ===== verification/Profile_Store.thy ===== *)
theory Profile_Store
  imports Profile Files "HOL-Library.List_Lexorder" "HOL-Library.Char_ord"
begin

text \<open>
  The profiles on disk: src/shell/profiles.rs. Reading a directory and reading a file can fail, and
  the order in which a directory yields its entries is the file system's: these are the fields of
  \<open>profiles_env\<close>, with the \<open>toml\<close> crate and the table of time zones. Everything else is a function of
  the files. Paths are sorted as byte strings; the code sorts them as paths, which is the same for
  the entries of one directory.
\<close>

section \<open>Loading\<close>

record profiles_env =
  ps_toml :: toml_crate
  ps_tz :: "string \<Rightarrow> bool"
  ps_read_dir :: "string \<Rightarrow> fs \<Rightarrow> string + string list"
  ps_read_fault :: "string \<Rightarrow> string option"

record unusable =
  un_path :: string
  un_reason :: string

record loaded =
  ld_profiles :: "profile list"
  ld_unusable :: "unusable list"

definition unusable_name :: "unusable \<Rightarrow> string" where
  "unusable_name u = file_name (un_path u)"

definition is_toml :: "string \<Rightarrow> bool" where
  "is_toml p \<longleftrightarrow> name_extension (file_name p) = Some ''toml''"

definition read_profile :: "profiles_env \<Rightarrow> fs \<Rightarrow> string \<Rightarrow> string + string" where
  "read_profile N fs p =
     (case ps_read_fault N p of
        Some e \<Rightarrow> Inl e
      | None \<Rightarrow>
          (case fs p of
             None \<Rightarrow> Inl ''No such file or directory (os error 2)''
           | Some s \<Rightarrow>
               if utf8_valid s then Inr s else Inl ''stream did not contain valid UTF-8''))"

definition outdated_reason :: "nat \<Rightarrow> string" where
  "outdated_reason v =
     ''written for schema_version '' @ show_nat v @ ''; this build reads '' @
     show_nat SUPPORTED_SCHEMA_VERSION @ '' '' @ em_dash @
     '' reduce it to source_id and target_calendar_id, and have the source send almanac's '' @
     ''event shape''"

definition clash_reason :: "string \<Rightarrow> string" where
  "clash_reason sid =
     ''source_id '' @ quoted sid @ '' is already used by another profile, which is being served '' @
     ''instead '' @ em_dash @ '' a source_id is an identity (AR15) and two files cannot share one''"

text \<open>One file, given the profiles that are served already: its profile, or why it is not used.\<close>

definition load_file :: "profiles_env \<Rightarrow> fs \<Rightarrow> profile list \<Rightarrow> string \<Rightarrow> string + profile" where
  "load_file N fs served p =
     (case read_profile N fs p of
        Inl e \<Rightarrow> Inl (''could not be read: '' @ e)
      | Inr s \<Rightarrow>
          (case outdated_version (ps_toml N) s of
             Some v \<Rightarrow> Inl (outdated_reason v)
           | None \<Rightarrow>
               (case profile_parse (ps_toml N) (ps_tz N) s p of
                  Inl e \<Rightarrow> Inl (error_display e)
                | Inr prof \<Rightarrow>
                    (case find (\<lambda>q. source_id q = source_id prof) served of
                       Some clash \<Rightarrow> Inl (clash_reason (source_id clash))
                     | None \<Rightarrow> Inr prof))))"

fun load_paths :: "profiles_env \<Rightarrow> fs \<Rightarrow> string list \<Rightarrow> profile list \<Rightarrow> unusable list \<Rightarrow> loaded" where
  "load_paths N fs [] served bad = \<lparr>ld_profiles = served, ld_unusable = bad\<rparr>"
| "load_paths N fs (p # ps) served bad =
     (case load_file N fs served p of
        Inl why \<Rightarrow> load_paths N fs ps served (bad @ [\<lparr>un_path = p, un_reason = why\<rparr>])
      | Inr prof \<Rightarrow> load_paths N fs ps (served @ [prof]) bad)"

definition load_all :: "profiles_env \<Rightarrow> string \<Rightarrow> fs \<Rightarrow> loaded" where
  "load_all N dir fs =
     (case ps_read_dir N dir fs of
        Inl e \<Rightarrow>
          \<lparr>ld_profiles = [],
           ld_unusable = [\<lparr>un_path = dir, un_reason =
             ''the profiles directory could not be read: '' @ e @ '' '' @ em_dash @
             '' create it, or add a source from the dashboard and almanac will''\<rparr>]\<rparr>
      | Inr entries \<Rightarrow> load_paths N fs (sort (filter is_toml entries)) [] [])"

definition load_map :: "profiles_env \<Rightarrow> string \<Rightarrow> fs \<Rightarrow> string \<rightharpoonup> profile" where
  "load_map N dir fs = map_of (rev (map (\<lambda>p. (source_id p, p)) (ld_profiles (load_all N dir fs))))"

section \<open>Writing\<close>

definition profile_path :: "string \<Rightarrow> string \<Rightarrow> string" where
  "profile_path dir sid = path_join dir (sid @ ''.toml'')"

definition profile_temp :: "string \<Rightarrow> string" where
  "profile_temp p = with_extension p ''toml.tmp''"

definition profile_write_error :: "string \<Rightarrow> string \<Rightarrow> string \<Rightarrow> almanac_error" where
  "profile_write_error p what e =
     Config (''failed to '' @ what @ '' '' @ p @ '': '' @ e)
       (''check the profiles directory '' @
        (case path_parent p of Some d \<Rightarrow> d | None \<Rightarrow> ''.'') @
        '' is writable by the almanac user'')"

definition profile_write_errors :: "string \<Rightarrow> rewrite_errors" where
  "profile_write_errors p =
     \<lparr>create_error = profile_write_error p ''create'', write_error = profile_write_error p ''write'',
      sync_error = profile_write_error p ''flush'', rename_error = profile_write_error p ''rename''\<rparr>"

definition write_atomically ::
  "rewrite_faults \<Rightarrow> string \<Rightarrow> string \<Rightarrow> fs \<Rightarrow> unit result \<times> fs" where
  "write_atomically F p contents fs =
     replace_via (profile_write_errors p) F (profile_temp p) p contents fs"

text \<open>\<open>mkdir\<close> is the error of creating the directory, when that fails.\<close>

definition save_new ::
  "profiles_env \<Rightarrow> string option \<Rightarrow> rewrite_faults \<Rightarrow> string \<Rightarrow> string \<Rightarrow> fs \<Rightarrow> profile result \<times> fs" where
  "save_new N mkdir F dir contents fs =
     (case profile_parse (ps_toml N) (ps_tz N) contents ''the submitted profile'' of
        Inl e \<Rightarrow> (Inl e, fs)
      | Inr prof \<Rightarrow>
          (case mkdir of
             Some e \<Rightarrow>
               (Inl (Config (''could not create the profiles directory '' @ dir @ '': '' @ e)
                            ''check the path is writable by the almanac user''), fs)
           | None \<Rightarrow>
               if list_ex (\<lambda>q. source_id q = source_id prof) (ld_profiles (load_all N dir fs)) then
                 (Inl (Config (''a profile with source_id '' @ quoted (source_id prof) @
                               '' already exists'')
                    (''choose a different source_id, or edit the existing profile on the machine'')),
                  fs)
               else if fs (profile_path dir (source_id prof)) \<noteq> None then
                 (Inl (Config (profile_path dir (source_id prof) @ '' already exists'')
                    (''choose a different source_id '' @ em_dash @
                     '' the dashboard adds profiles, it does not replace them'')), fs)
               else
                 (case write_atomically F (profile_path dir (source_id prof)) contents fs of
                    (Inl e, fs') \<Rightarrow> (Inl e, fs')
                  | (Inr _, fs') \<Rightarrow> (Inr prof, fs'))))"

section \<open>Deleting\<close>

definition remove_file ::
  "string option \<Rightarrow> string \<Rightarrow> string \<Rightarrow> string \<Rightarrow> fs \<Rightarrow> string result \<times> fs" where
  "remove_file fault dir p gone fs =
     (if fs p = None then (Inl (Config (p @ '' does not exist'') gone), fs)
      else
        (case fault of
           Some e \<Rightarrow>
             (Inl (Config (''failed to delete '' @ p @ '': '' @ e)
                (''check the profiles directory '' @ dir @ '' is writable by the almanac user'')), fs)
         | None \<Rightarrow> (Inr p, fs(p := None))))"

definition delete_profile :: "string option \<Rightarrow> string \<Rightarrow> string \<Rightarrow> fs \<Rightarrow> string result \<times> fs" where
  "delete_profile fault dir sid fs =
     (if \<not> source_id_is_safe sid then
        (Inl (Config (quoted sid @ '' is not a valid source_id'') ''check the source id in the URL''),
         fs)
      else remove_file fault dir (profile_path dir sid)
             (''this source has no profile file '' @ em_dash @ '' reload the page'') fs)"

definition looks_safe :: "string \<Rightarrow> bool" where
  "looks_safe n \<longleftrightarrow>
     n \<noteq> [] \<and> \<not> prefix ''.'' n \<and> suffix ''.toml'' n \<and>
     list_all (\<lambda>c. is_ascii_alphanumeric c \<or> c \<in> {CHR ''.'', CHR ''-'', CHR ''_''}) n"

definition delete_file :: "string option \<Rightarrow> string \<Rightarrow> string \<Rightarrow> fs \<Rightarrow> string result \<times> fs" where
  "delete_file fault dir n fs =
     (if \<not> looks_safe n then
        (Inl (Config (quoted n @ '' is not a profile file name'') ''check the name in the URL''), fs)
      else remove_file fault dir (path_join dir n)
             (''reload the page '' @ em_dash @ '' it may already be gone'') fs)"

section \<open>Which file serves a source\<close>

interpretation profile_files: atomic_replace write_atomically profile_temp
  by unfold_locales (auto simp: write_atomically_def intro: replace_via_laws)

text \<open>A file that could be served on its own, and the profile in it.\<close>

definition usable :: "profiles_env \<Rightarrow> fs \<Rightarrow> string \<Rightarrow> profile option" where
  "usable N fs p = (case load_file N fs [] p of Inl why \<Rightarrow> None | Inr prof \<Rightarrow> Some prof)"

lemma usable_iff:
  "usable N fs p = Some prof \<longleftrightarrow>
     (\<exists>s. ps_read_fault N p = None \<and> fs p = Some s \<and> utf8_valid s \<and>
          toml_profile (ps_toml N) s = Inr prof \<and> profile_wf (ps_tz N) prof \<and>
          (\<forall>v. declared_version (ps_toml N) s = Some v \<longrightarrow> v = int SUPPORTED_SCHEMA_VERSION))"
proof -
  have parse: "(\<exists>p'. profile_parse T tz s origin = Inr p' \<and> P p') \<longleftrightarrow>
      (\<exists>p'. toml_profile T s = Inr p' \<and> profile_wf tz p' \<and> P p' \<and>
        (\<forall>v. declared_version T s = Some v \<longrightarrow> v = int SUPPORTED_SCHEMA_VERSION))" for T tz s origin P
    by (auto simp: profile_parse_inv)
  have "usable N fs p = Some prof \<longleftrightarrow>
      (\<exists>s. read_profile N fs p = Inr s \<and> outdated_version (ps_toml N) s = None \<and>
        profile_parse (ps_toml N) (ps_tz N) s p = Inr prof)"
    by (auto simp: usable_def load_file_def split: option.splits sum.splits)
  moreover have "read_profile N fs p = Inr s \<longleftrightarrow>
      ps_read_fault N p = None \<and> fs p = Some s \<and> utf8_valid s" for s
    by (auto simp: read_profile_def split: option.splits)
  moreover have "outdated_version (ps_toml N) s = None \<longleftrightarrow>
      (\<forall>v. declared_version (ps_toml N) s = Some v \<longrightarrow> v = int SUPPORTED_SCHEMA_VERSION)" for s
    using outdated_iff [of "ps_toml N" s] by blast
  ultimately show ?thesis by (auto simp: profile_parse_inv)
qed

lemma load_file_usable:
  "load_file N fs served p = Inr prof \<longleftrightarrow>
     usable N fs p = Some prof \<and> source_id prof \<notin> source_id ` set served"
proof -
  have "find (\<lambda>q. source_id q = source_id prof) served = None \<longleftrightarrow>
      source_id prof \<notin> source_id ` set served"
    by (auto simp: find_None_iff image_iff)
  then show ?thesis
    by (auto simp: usable_def load_file_def split: option.splits sum.splits)
qed

lemma usable_wf: "usable N fs p = Some prof \<Longrightarrow> profile_wf (ps_tz N) prof"
  by (auto simp: usable_iff)

text \<open>The first of the files that claims an id serves it.\<close>

fun serves :: "profiles_env \<Rightarrow> fs \<Rightarrow> string list \<Rightarrow> profile \<Rightarrow> bool" where
  "serves N fs [] prof = False"
| "serves N fs (p # ps) prof =
     (usable N fs p = Some prof \<or>
      (\<forall>q. usable N fs p = Some q \<longrightarrow> source_id q \<noteq> source_id prof) \<and> serves N fs ps prof)"

lemma load_paths_served:
  "set (ld_profiles (load_paths N fs ps served bad)) =
     set served \<union> {prof. source_id prof \<notin> source_id ` set served \<and> serves N fs ps prof}"
proof (induction ps arbitrary: served bad)
  case Nil
  then show ?case by simp
next
  case (Cons p ps)
  show ?case
  proof (cases "load_file N fs served p")
    case (Inl why)
    then have "\<nexists>prof. load_file N fs served p = Inr prof" by simp
    then have "source_id q \<in> source_id ` set served" if "usable N fs p = Some q" for q
      using that load_file_usable by blast
    then show ?thesis using Inl by (auto simp: Cons.IH)
  next
    case (Inr q)
    then have "usable N fs p = Some q" "source_id q \<notin> source_id ` set served"
      by (auto simp: load_file_usable)
    then show ?thesis using Inr by (auto simp: Cons.IH)
  qed
qed

lemma load_paths_distinct:
  "distinct (map source_id served) \<Longrightarrow>
   distinct (map source_id (ld_profiles (load_paths N fs ps served bad)))"
proof (induction ps arbitrary: served bad)
  case Nil
  then show ?case by simp
next
  case (Cons p ps)
  show ?case
  proof (cases "load_file N fs served p")
    case (Inl why)
    with Cons show ?thesis by simp
  next
    case (Inr q)
    with Cons.prems have "distinct (map source_id (served @ [q]))"
      by (simp add: load_file_usable)
    from Cons.IH [OF this] Inr show ?thesis by simp
  qed
qed

lemma load_paths_all_accounted:
  "length (ld_profiles (load_paths N fs ps served bad)) +
   length (ld_unusable (load_paths N fs ps served bad)) = length served + length bad + length ps"
  by (induction ps arbitrary: served bad) (auto split: sum.splits)

lemma load_paths_reported:
  "set (map un_path (ld_unusable (load_paths N fs ps served bad))) \<subseteq> un_path ` set bad \<union> set ps"
proof (induction ps arbitrary: served bad)
  case Nil
  then show ?case by simp
next
  case (Cons p ps)
  show ?case
  proof (cases "load_file N fs served p")
    case (Inl why)
    then show ?thesis
      using Cons.IH [of served "bad @ [\<lparr>un_path = p, un_reason = why\<rparr>]"] by auto
  next
    case (Inr q)
    then show ?thesis using Cons.IH [of "served @ [q]" bad] by auto
  qed
qed

text \<open>On a sorted list of paths the first claim is the smallest path that makes it.\<close>

lemma serves_sorted:
  assumes "sorted ps" "distinct ps"
  shows "serves N fs ps prof \<longleftrightarrow>
    (\<exists>p \<in> set ps. usable N fs p = Some prof \<and>
       (\<forall>p' \<in> set ps. \<forall>q. p' < p \<longrightarrow> usable N fs p' = Some q \<longrightarrow> source_id q \<noteq> source_id prof))"
  using assms
proof (induction ps)
  case Nil
  then show ?case by simp
next
  case (Cons x xs)
  then have less: "\<forall>p \<in> set xs. x < p" by (auto simp: order_less_le)
  show ?case
  proof (cases "usable N fs x = Some prof")
    case True
    with less show ?thesis by auto
  next
    case False
    with less Cons show ?thesis by (auto dest: less_asym)
  qed
qed

lemma serves_someone:
  "p \<in> set ps \<Longrightarrow> usable N fs p = Some q \<Longrightarrow>
     \<exists>prof. serves N fs ps prof \<and> source_id prof = source_id q"
proof (induction ps)
  case Nil
  then show ?case by simp
next
  case (Cons x ps)
  show ?case
  proof (cases "\<exists>r. usable N fs x = Some r \<and> source_id r = source_id q")
    case True
    then show ?thesis by auto
  next
    case False
    with Cons have "p \<in> set ps" by auto
    with Cons obtain prof where "serves N fs ps prof" "source_id prof = source_id q" by blast
    with False show ?thesis by (intro exI [of _ prof]) simp
  qed
qed

lemma serves_cong:
  "(\<And>p. p \<in> set ps \<Longrightarrow> usable N fs p = usable N fs' p) \<Longrightarrow> serves N fs ps = serves N fs' ps"
  by (induction ps) (auto simp: fun_eq_iff)

section \<open>The files of the directory\<close>

lemma path_join_prefix:
  "\<exists>pre. (\<forall>n. n \<noteq> [] \<longrightarrow> CHR ''/'' \<notin> set n \<longrightarrow> path_join dir n = pre @ n) \<and>
     (pre = [] \<or> last pre = CHR ''/'')"
proof (intro exI conjI allI impI)
  let ?pre = "if dir = [] then [] else if last dir = CHR ''/'' then dir else dir @ ''/''"
  show "path_join dir n = ?pre @ n" if "n \<noteq> []" "CHR ''/'' \<notin> set n" for n
    using that by (cases n) (auto simp: path_join_def)
  show "?pre = [] \<or> last ?pre = CHR ''/''" by simp
qed

lemma file_name_prefix:
  assumes "CHR ''/'' \<notin> set n" "pre = [] \<or> last pre = CHR ''/''"
  shows "file_name (pre @ n) = n"
proof -
  have all: "\<forall>c \<in> set (rev n). c \<noteq> CHR ''/''" using assms(1) by auto
  have "takeWhile (\<lambda>c. c \<noteq> CHR ''/'') (rev pre) = []"
    using assms(2) by (cases pre rule: rev_cases) auto
  moreover have "takeWhile (\<lambda>c. c \<noteq> CHR ''/'') (rev n @ rev pre) =
      rev n @ takeWhile (\<lambda>c. c \<noteq> CHR ''/'') (rev pre)"
    by (rule takeWhile_append2) (use all in auto)
  ultimately show ?thesis by (simp add: file_name_def)
qed

lemma dot_toml_extension:
  assumes "sid \<noteq> []"
  shows "name_extension (sid @ ''.toml'') = Some ''toml''" "name_stem (sid @ ''.toml'') = sid"
    "name_extension (sid @ ''.toml.tmp'') = Some ''tmp''"
  using assms by (simp_all add: name_extension_def name_stem_def Let_def)

text \<open>
  What reading the directory gives, when it can be read: every file in it once, in some order.
\<close>

definition in_dir :: "string \<Rightarrow> string \<Rightarrow> bool" where
  "in_dir dir p \<longleftrightarrow> (\<exists>n. n \<noteq> [] \<and> CHR ''/'' \<notin> set n \<and> p = path_join dir n)"

definition lists_dir :: "profiles_env \<Rightarrow> string \<Rightarrow> fs \<Rightarrow> bool" where
  "lists_dir N dir fs \<longleftrightarrow>
     (case ps_read_dir N dir fs of
        Inl e \<Rightarrow> False
      | Inr entries \<Rightarrow> distinct entries \<and> (\<forall>p. p \<in> set entries \<longleftrightarrow> in_dir dir p \<and> fs p \<noteq> None))"

lemma profile_path_facts:
  assumes "source_id_is_safe sid"
  shows "is_toml (profile_path dir sid)" "in_dir dir (profile_path dir sid)"
    "\<not> is_toml (profile_temp (profile_path dir sid))"
    "profile_temp (profile_path dir sid) \<noteq> profile_path dir sid"
    "in_dir dir (profile_temp (profile_path dir sid))"
proof -
  note sid = safe_id_chars [OF assms]
  obtain pre where pre: "\<forall>n. n \<noteq> [] \<longrightarrow> CHR ''/'' \<notin> set n \<longrightarrow> path_join dir n = pre @ n"
    "pre = [] \<or> last pre = CHR ''/''"
    using path_join_prefix [of dir] by blast
  have path: "profile_path dir sid = pre @ sid @ ''.toml''"
    using pre(1) [rule_format, of "sid @ ''.toml''"] sid by (simp add: profile_path_def)
  have name: "file_name (pre @ sid @ ''.toml'') = sid @ ''.toml''"
    by (rule file_name_prefix) (use sid pre in auto)
  have temp: "profile_temp (profile_path dir sid) = pre @ sid @ ''.toml.tmp''"
    by (simp add: profile_temp_def with_extension_def path name dot_toml_extension sid)
  have temp_name: "file_name (pre @ sid @ ''.toml.tmp'') = sid @ ''.toml.tmp''"
    by (rule file_name_prefix) (use sid pre in auto)
  show "is_toml (profile_path dir sid)"
    by (simp add: is_toml_def path name dot_toml_extension sid)
  show "\<not> is_toml (profile_temp (profile_path dir sid))"
    by (simp add: is_toml_def temp temp_name dot_toml_extension sid)
  then show "profile_temp (profile_path dir sid) \<noteq> profile_path dir sid"
    using \<open>is_toml (profile_path dir sid)\<close> by auto
  show "in_dir dir (profile_path dir sid)"
    unfolding in_dir_def profile_path_def
    by (rule exI [of _ "sid @ ''.toml''"]) (use sid in simp)
  show "in_dir dir (profile_temp (profile_path dir sid))"
    unfolding in_dir_def temp
    by (rule exI [of _ "sid @ ''.toml.tmp''"])
      (use sid pre(1) [rule_format, of "sid @ ''.toml.tmp''"] in simp)
qed

definition claims :: "profiles_env \<Rightarrow> string \<Rightarrow> fs \<Rightarrow> string \<Rightarrow> profile \<Rightarrow> bool" where
  "claims N dir fs p prof \<longleftrightarrow> in_dir dir p \<and> is_toml p \<and> usable N fs p = Some prof"

lemma served_iff:
  assumes "lists_dir N dir fs"
  shows "prof \<in> set (ld_profiles (load_all N dir fs)) \<longleftrightarrow>
    (\<exists>p. claims N dir fs p prof \<and>
       (\<forall>p' q. p' < p \<longrightarrow> claims N dir fs p' q \<longrightarrow> source_id q \<noteq> source_id prof))"
proof -
  obtain entries where e: "ps_read_dir N dir fs = Inr entries" "distinct entries"
    "\<And>p. p \<in> set entries \<longleftrightarrow> in_dir dir p \<and> fs p \<noteq> None"
    using assms by (auto simp: lists_dir_def split: sum.splits)
  let ?ps = "sort (filter is_toml entries)"
  have mem: "p \<in> set ?ps \<and> usable N fs p = Some q \<longleftrightarrow> claims N dir fs p q" for p q
    using e(3) by (auto simp: claims_def usable_iff)
  have "prof \<in> set (ld_profiles (load_all N dir fs)) \<longleftrightarrow> serves N fs ?ps prof"
    by (simp add: load_all_def e(1) load_paths_served)
  also have "\<dots> \<longleftrightarrow> (\<exists>p \<in> set ?ps. usable N fs p = Some prof \<and>
      (\<forall>p' \<in> set ?ps. \<forall>q. p' < p \<longrightarrow> usable N fs p' = Some q \<longrightarrow> source_id q \<noteq> source_id prof))"
    by (rule serves_sorted) (use e(2) in auto)
  finally show ?thesis using mem by blast
qed

lemma claimed_someone:
  assumes "lists_dir N dir fs" "claims N dir fs p q"
  shows "\<exists>prof \<in> set (ld_profiles (load_all N dir fs)). source_id prof = source_id q"
proof -
  obtain entries where e: "ps_read_dir N dir fs = Inr entries"
    "\<And>p. p \<in> set entries \<longleftrightarrow> in_dir dir p \<and> fs p \<noteq> None"
    using assms(1) by (auto simp: lists_dir_def split: sum.splits)
  let ?ps = "sort (filter is_toml entries)"
  have "p \<in> set ?ps" "usable N fs p = Some q"
    using e(2) assms(2) by (auto simp: claims_def usable_iff)
  from serves_someone [OF this] obtain prof where
    "serves N fs ?ps prof" "source_id prof = source_id q" by blast
  then show ?thesis
    by (intro bexI [of _ prof]) (simp_all add: load_all_def e(1) load_paths_served)
qed

lemma load_all_distinct: "distinct (map source_id (ld_profiles (load_all N dir fs)))"
  by (simp add: load_all_def load_paths_distinct split: sum.splits)

lemma load_map_iff:
  "load_map N dir fs sid = Some prof \<longleftrightarrow>
     prof \<in> set (ld_profiles (load_all N dir fs)) \<and> source_id prof = sid"
proof -
  have "distinct (map fst (rev (map (\<lambda>p. (source_id p, p)) (ld_profiles (load_all N dir fs)))))"
    using load_all_distinct by (simp add: rev_map [symmetric] comp_def)
  from map_of_eq_Some_iff [OF this] show ?thesis by (auto simp: load_map_def)
qed

lemma usable_cong: "fs' p = fs p \<Longrightarrow> usable N fs' p = usable N fs p"
proof -
  assume "fs' p = fs p"
  then have "read_profile N fs' p = read_profile N fs p"
    by (simp add: read_profile_def split: option.split)
  then show ?thesis by (simp add: usable_def load_file_def)
qed

lemma served_cong:
  assumes "lists_dir N dir fs" "lists_dir N dir fs'"
    "\<And>p. in_dir dir p \<Longrightarrow> is_toml p \<Longrightarrow> fs' p = fs p"
  shows "set (ld_profiles (load_all N dir fs')) = set (ld_profiles (load_all N dir fs))"
proof -
  have "claims N dir fs' p q = claims N dir fs p q" for p q
    using usable_cong [of fs' p fs N] assms(3) by (auto simp: claims_def)
  then show ?thesis by (auto simp: served_iff [OF assms(1)] served_iff [OF assms(2)])
qed

text \<open>A new file whose id nothing claimed adds its profile and changes nothing else.\<close>

lemma served_add:
  assumes "lists_dir N dir fs" "lists_dir N dir fs'"
    "\<And>p. in_dir dir p \<Longrightarrow> is_toml p \<Longrightarrow> p \<noteq> new \<Longrightarrow> fs' p = fs p"
    "claims N dir fs' new prof" "fs new = None"
    "\<forall>q \<in> set (ld_profiles (load_all N dir fs)). source_id q \<noteq> source_id prof"
  shows "set (ld_profiles (load_all N dir fs')) = insert prof (set (ld_profiles (load_all N dir fs)))"
proof -
  have old: "claims N dir fs p q \<Longrightarrow> claims N dir fs' p q \<and> p \<noteq> new" for p q
  proof -
    assume c: "claims N dir fs p q"
    then have "p \<noteq> new" using assms(5) by (auto simp: claims_def usable_iff)
    moreover from c this have "fs' p = fs p" using assms(3) by (simp add: claims_def)
    ultimately show ?thesis using c usable_cong [of fs' p fs N] by (simp add: claims_def)
  qed
  have new: "claims N dir fs' p q \<longleftrightarrow> claims N dir fs p q \<or> p = new \<and> q = prof" for p q
  proof (cases "p = new")
    case True
    with assms(4) old show ?thesis by (auto simp: claims_def)
  next
    case False
    show ?thesis
    proof
      assume c: "claims N dir fs' p q"
      then have "fs' p = fs p" using assms(3) False by (simp add: claims_def)
      with c show "claims N dir fs p q \<or> p = new \<and> q = prof"
        using usable_cong [of fs' p fs N] by (simp add: claims_def)
    next
      assume "claims N dir fs p q \<or> p = new \<and> q = prof"
      with False old show "claims N dir fs' p q" by blast
    qed
  qed
  have other: "claims N dir fs p q \<Longrightarrow> source_id q \<noteq> source_id prof" for p q
    using claimed_someone [OF assms(1)] assms(6) by metis
  have first: "(\<exists>p. claims N dir fs' p q \<and>
        (\<forall>p' r. p' < p \<longrightarrow> claims N dir fs' p' r \<longrightarrow> source_id r \<noteq> source_id q)) \<longleftrightarrow>
      q = prof \<or> (\<exists>p. claims N dir fs p q \<and>
        (\<forall>p' r. p' < p \<longrightarrow> claims N dir fs p' r \<longrightarrow> source_id r \<noteq> source_id q))" for q
  proof (cases "q = prof")
    case True
    have "\<forall>p' r. p' < new \<longrightarrow> claims N dir fs' p' r \<longrightarrow> source_id r \<noteq> source_id prof"
      using new other by auto
    with True assms(4) show ?thesis by blast
  next
    case False
    then have same: "claims N dir fs' p q \<longleftrightarrow> claims N dir fs p q" for p
      using new by blast
    have "source_id r \<noteq> source_id q" if "claims N dir fs p q" "claims N dir fs' p' r"
      "\<not> claims N dir fs p' r" for p p' r
      using that new other by metis
    with False same old show ?thesis by metis
  qed
  show ?thesis
    unfolding set_eq_iff insert_iff served_iff [OF assms(1)] served_iff [OF assms(2)]
    by (intro allI) (rule first)
qed

section \<open>Saving\<close>

lemma serves_split:
  "serves N fs ps prof \<longleftrightarrow>
     (\<exists>before p after. ps = before @ p # after \<and> usable N fs p = Some prof \<and>
        (\<forall>p' \<in> set before. \<forall>q. usable N fs p' = Some q \<longrightarrow> source_id q \<noteq> source_id prof))"
  (is "_ \<longleftrightarrow> (\<exists>before p after. ?split ps before p after)")
proof (induction ps)
  case Nil
  then show ?case by simp
next
  case (Cons x ps)
  note Cons_IH = Cons.IH
  show ?case
  proof
    assume "serves N fs (x # ps) prof"
    then consider "usable N fs x = Some prof"
      | before p after where "?split ps before p after"
        "\<forall>q. usable N fs x = Some q \<longrightarrow> source_id q \<noteq> source_id prof"
      using Cons.IH by auto
    then show "\<exists>before p after. ?split (x # ps) before p after"
    proof cases
      case 1
      then have "?split (x # ps) [] x ps" by simp
      then show ?thesis by blast
    next
      case 2
      then have "?split (x # ps) (x # before) p after" by simp
      then show ?thesis by blast
    qed
  next
    assume "\<exists>before p after. ?split (x # ps) before p after"
    then obtain before p after where s: "?split (x # ps) before p after" by blast
    show "serves N fs (x # ps) prof"
    proof (cases before)
      case Nil
      with s show ?thesis by simp
    next
      case (Cons b bs)
      with s have "?split ps bs p after" "\<forall>q. usable N fs x = Some q \<longrightarrow> source_id q \<noteq> source_id prof"
        by auto
      then have "serves N fs ps prof" "\<forall>q. usable N fs x = Some q \<longrightarrow> source_id q \<noteq> source_id prof"
        using Cons_IH by blast+
      then show ?thesis by simp
    qed
  qed
qed

lemma save_new_Inr:
  assumes "save_new N mkdir F dir contents fs = (Inr prof, fs')"
  shows "profile_parse (ps_toml N) (ps_tz N) contents ''the submitted profile'' = Inr prof \<and>
    source_id prof \<notin> source_id ` set (ld_profiles (load_all N dir fs)) \<and>
    fs (profile_path dir (source_id prof)) = None \<and>
    write_atomically F (profile_path dir (source_id prof)) contents fs = (Inr (), fs')"
  using assms
  by (auto simp: save_new_def list_ex_iff
      split: sum.splits option.splits if_splits prod.splits)

lemma parsed_is_safe:
  "profile_parse T tz s origin = Inr prof \<Longrightarrow> source_id_is_safe (source_id prof)"
  by (simp add: profile_parse_inv profile_wf_def)

lemma save_new_served:
  assumes "lists_dir N dir fs" "lists_dir N dir fs'" "\<forall>p. ps_read_fault N p = None"
    "utf8_valid contents"
    "profile_parse (ps_toml N) (ps_tz N) contents ''the submitted profile'' = Inr prof"
    "source_id prof \<notin> source_id ` set (ld_profiles (load_all N dir fs))"
    "fs (profile_path dir (source_id prof)) = None"
    "write_atomically F (profile_path dir (source_id prof)) contents fs = (Inr (), fs')"
  shows "set (ld_profiles (load_all N dir fs')) = insert prof (set (ld_profiles (load_all N dir fs)))"
proof (rule served_add [OF assms(1,2) _ _ assms(7)])
  note facts = profile_path_facts [OF parsed_is_safe [OF assms(5)], of dir]
  show "fs' p = fs p" if "in_dir dir p" "is_toml p" "p \<noteq> profile_path dir (source_id prof)" for p
    using profile_files.frame [OF assms(8)] that facts by metis
  have "fs' (profile_path dir (source_id prof)) = Some contents"
    by (rule profile_files.replaced [OF assms(8)])
  then show "claims N dir fs' (profile_path dir (source_id prof)) prof"
    using facts assms(3,4,5) by (auto simp: claims_def usable_iff profile_parse_inv)
  show "\<forall>q \<in> set (ld_profiles (load_all N dir fs)). source_id q \<noteq> source_id prof"
    using assms(6) by (metis imageI)
qed

lemma save_new_Inl:
  assumes "save_new N mkdir F dir contents fs = (Inl e, fs')" "lists_dir N dir fs" "lists_dir N dir fs'"
  shows "set (ld_profiles (load_all N dir fs')) = set (ld_profiles (load_all N dir fs))"
proof (cases "fs' = fs")
  case True
  then show ?thesis by simp
next
  case False
  then obtain prof where p:
    "profile_parse (ps_toml N) (ps_tz N) contents ''the submitted profile'' = Inr prof"
    "write_atomically F (profile_path dir (source_id prof)) contents fs = (Inl e, fs')"
    using assms(1)
    by (auto simp: save_new_def split: sum.splits option.splits if_splits prod.splits)
  note facts = profile_path_facts [OF parsed_is_safe [OF p(1)], of dir]
  show ?thesis
  proof (rule served_cong [OF assms(2,3)])
    fix q
    assume "in_dir dir q" "is_toml q"
    then show "fs' q = fs q"
      using profile_files.frame [OF p(2), of q] profile_files.kept [OF p(2)] facts
      by (cases "q = profile_path dir (source_id prof)") auto
  qed
qed

end
