(* ===== verification/Display.thy ===== *)
theory Display
  imports Prelude "HOL-Library.Sublist"
begin

text \<open>
  What the operator's pages show: HTML escaping (src/core/html.rs) and readable times
  (src/core/humanise.rs). Reading a timestamp and placing it in a zone is the \<open>chrono\<close> crate's,
  the record \<open>clock_crate\<close>.
\<close>

section \<open>Escaping\<close>

text \<open>
  The five characters are ASCII, and in UTF-8 their bytes occur nowhere else, so the loop over
  characters is a loop over bytes.
\<close>

definition escape_char :: "char \<Rightarrow> string" where
  "escape_char c =
     (if c = CHR ''&'' then ''&amp;''
      else if c = CHR ''<'' then ''&lt;''
      else if c = CHR ''>'' then ''&gt;''
      else if c = CHR 0x22 then ''&quot;''
      else if c = CHR 0x27 then ''&#x27;''
      else [c])"

fun escape :: "string \<Rightarrow> string" where
  "escape [] = []"
| "escape (c # s) = escape_char c @ escape s"

text \<open>What a browser makes of the five references.\<close>

definition references :: "(string \<times> char) list" where
  "references =
     [(''&amp;'', CHR ''&''), (''&lt;'', CHR ''<''), (''&gt;'', CHR ''>''),
      (''&quot;'', CHR 0x22), (''&#x27;'', CHR 0x27)]"

fun unescape :: "nat \<Rightarrow> string \<Rightarrow> string" where
  "unescape 0 s = []"
| "unescape (Suc n) [] = []"
| "unescape (Suc n) (c # s) =
     (case find (\<lambda>(r, x). prefix r (c # s)) references of
        Some (r, x) \<Rightarrow> x # unescape n (drop (length r) (c # s))
      | None \<Rightarrow> c # unescape n s)"

definition inert :: "char \<Rightarrow> bool" where
  "inert c \<longleftrightarrow> c \<noteq> CHR ''<'' \<and> c \<noteq> CHR ''>'' \<and> c \<noteq> CHR 0x22 \<and> c \<noteq> CHR 0x27"

lemma escape_append: "escape (a @ b) = escape a @ escape b"
  by (induction a) auto

lemma escape_char_inert: "\<forall>x \<in> set (escape_char c). inert x"
  by (auto simp: escape_char_def inert_def)

lemma escape_inert_aux: "x \<in> set (escape s) \<Longrightarrow> inert x"
  using escape_char_inert by (induction s) auto

lemma unescape_step:
  "unescape (Suc n) (escape_char c @ s) = c # unescape n s"
  by (auto simp: escape_char_def references_def)

lemma unescape_escape: "length s < n \<Longrightarrow> unescape n (escape s) = s"
proof (induction s arbitrary: n)
  case Nil
  then show ?case by (cases n) auto
next
  case (Cons c s)
  then obtain m where "n = Suc m" "length s < m" by (cases n) auto
  with Cons.IH [of m] show ?case by (simp only: escape.simps unescape_step)
qed

section \<open>Readable times\<close>

record ('dt, 'utc, 'tz) clock_crate =
  read_rfc3339 :: "string \<Rightarrow> 'dt option"
  local_parts :: "'dt \<Rightarrow> 'tz \<Rightarrow> nat \<times> nat \<times> int \<times> nat \<times> nat"
  seconds_since :: "'utc \<Rightarrow> 'dt \<Rightarrow> int"

definition MONTHS :: "string list" where
  "MONTHS =
     [''Jan'', ''Feb'', ''Mar'', ''Apr'', ''May'', ''Jun'', ''Jul'', ''Aug'', ''Sep'', ''Oct'',
      ''Nov'', ''Dec'']"

text \<open>\<open>{:02}\<close>\<close>

definition show_02 :: "nat \<Rightarrow> string" where
  "show_02 n = (if n < 10 then ''0'' @ show_nat n else show_nat n)"

definition timestamp :: "('dt, 'utc, 'tz) clock_crate \<Rightarrow> string \<Rightarrow> 'tz \<Rightarrow> string" where
  "timestamp K raw zone =
     (case read_rfc3339 K raw of
        None \<Rightarrow> raw
      | Some parsed \<Rightarrow>
          (case local_parts K parsed zone of (day, month, year, hour, minute) \<Rightarrow>
             show_nat day @ '' '' @ MONTHS ! min (month - 1) 11 @ '' '' @ show_int year @ '', '' @
             show_02 hour @ '':'' @ show_02 minute))"

definition plural :: "int \<Rightarrow> string \<Rightarrow> string" where
  "plural count unit =
     (if count = 1 then ''1 '' @ unit @ '' ago'' else show_int count @ '' '' @ unit @ ''s ago'')"

definition how_long_ago :: "('dt, 'utc, 'tz) clock_crate \<Rightarrow> string \<Rightarrow> 'utc \<Rightarrow> string option" where
  "how_long_ago K raw now =
     (case read_rfc3339 K raw of
        None \<Rightarrow> None
      | Some parsed \<Rightarrow>
          (let seconds = seconds_since K now parsed in
           if seconds < 0 then None
           else Some
             (if seconds < 90 then ''just now''
              else if seconds < 3600 then plural (seconds div 60) ''minute''
              else if seconds < 86400 then plural (seconds div 3600) ''hour''
              else plural (seconds div 86400) ''day'')))"

end
