(* ===== verification/Sources.thy ===== *)
theory Sources
  imports Ingest Profile_Store Display
begin

text \<open>
  What the dashboard does to the running service: the hooks and status sections that
  src/shell/kit.rs hangs on the chassis kit, and the pages of src/shell/dashboard.rs. The kit's
  router, layout, login and templates are not here: a handler answers with a redirect, a not-found
  text, or the data its page is rendered from.
\<close>

section \<open>The surroundings\<close>

text \<open>
  Beyond what the service itself uses: the \<open>toml\<close> crate, the profiles directory with what can fail
  in it, and the order in which a \<open>HashMap\<close> is walked, which the standard library leaves open.
\<close>

record ('w, 'k, 'dt, 'nd) site =
  site_env :: "('w, 'k, 'dt, 'nd) app_env"
  site_toml :: toml_crate
  site_read_dir :: "string \<Rightarrow> fs \<Rightarrow> string + string list"
  site_read_faults :: "'w \<Rightarrow> (string \<Rightarrow> string option) \<times> 'w"
  site_mkdir_fault :: "'w \<Rightarrow> string option \<times> 'w"
  site_remove_fault :: "'w \<Rightarrow> string option \<times> 'w"
  site_map_order :: "(string \<rightharpoonup> profile) \<Rightarrow> string list"

definition walks_maps :: "('w, 'k, 'dt, 'nd) site \<Rightarrow> bool" where
  "walks_maps S \<longleftrightarrow>
     (\<forall>m. finite (dom m) \<longrightarrow> distinct (site_map_order S m) \<and> set (site_map_order S m) = dom m)"

definition map_values :: "('w, 'k, 'dt, 'nd) site \<Rightarrow> (string \<rightharpoonup> profile) \<Rightarrow> profile list" where
  "map_values S m = List.map_filter m (site_map_order S m)"

definition profiles_at ::
  "('w, 'k, 'dt, 'nd) site \<Rightarrow> (string \<Rightarrow> string option) \<Rightarrow> profiles_env" where
  "profiles_at S faults =
     \<lparr>ps_toml = site_toml S, ps_tz = tz_known (env_crates (site_env S)),
      ps_read_dir = site_read_dir S, ps_read_fault = faults\<rparr>"

definition app_load_all :: "('w, 'k, 'dt, 'nd) site \<Rightarrow> 'w app \<Rightarrow> loaded \<times> 'w app" where
  "app_load_all S A =
     (case ask (site_read_faults S) A of (faults, A1) \<Rightarrow>
        (load_all (profiles_at S faults) (app_profiles_dir A1) (app_files A1), A1))"

text \<open>\<open>set_profiles(load_map(&profiles_dir))\<close>, which four of the handlers end with.\<close>

definition app_reload :: "('w, 'k, 'dt, 'nd) site \<Rightarrow> 'w app \<Rightarrow> 'w app" where
  "app_reload S A =
     (case ask (site_read_faults S) A of (faults, A1) \<Rightarrow>
        set_profiles (load_map (profiles_at S faults) (app_profiles_dir A1) (app_files A1)) A1)"

definition app_save_new ::
  "('w, 'k, 'dt, 'nd) site \<Rightarrow> string \<Rightarrow> 'w app \<Rightarrow> profile result \<times> 'w app" where
  "app_save_new S contents A =
     (case ask (site_read_faults S) A of (faults, A1) \<Rightarrow>
        (case ask (site_mkdir_fault S) A1 of (mkdir, A2) \<Rightarrow>
           (case ask (env_rewrite_faults (site_env S)) A2 of (F, A3) \<Rightarrow>
              (case save_new (profiles_at S faults) mkdir F (app_profiles_dir A3) contents
                      (app_files A3) of
                 (r, fs) \<Rightarrow> (r, A3\<lparr>app_files := fs\<rparr>)))))"

definition app_delete_profile ::
  "('w, 'k, 'dt, 'nd) site \<Rightarrow> string \<Rightarrow> 'w app \<Rightarrow> string result \<times> 'w app" where
  "app_delete_profile S sid A =
     (case ask (site_remove_fault S) A of (fault, A1) \<Rightarrow>
        (case delete_profile fault (app_profiles_dir A1) sid (app_files A1) of
           (r, fs) \<Rightarrow> (r, A1\<lparr>app_files := fs\<rparr>)))"

definition app_delete_file ::
  "('w, 'k, 'dt, 'nd) site \<Rightarrow> string \<Rightarrow> 'w app \<Rightarrow> string result \<times> 'w app" where
  "app_delete_file S n A =
     (case ask (site_remove_fault S) A of (fault, A1) \<Rightarrow>
        (case delete_file fault (app_profiles_dir A1) n (app_files A1) of
           (r, fs) \<Rightarrow> (r, A1\<lparr>app_files := fs\<rparr>)))"

section \<open>Adding and removing a source\<close>

datatype kit_error = Invalid string string | Internal string string

definition create_source ::
  "('w, 'k, 'dt, 'nd) site \<Rightarrow> string \<Rightarrow> string \<Rightarrow> 'w app \<Rightarrow> (kit_error + unit) \<times> 'w app" where
  "create_source S source calendar A =
     (let sid = trim source; cal = trim calendar in
      if app_profiles A sid \<noteq> None then (Inr (), A)
      else if \<not> source_id_is_safe sid then
        (Inl (Invalid (quoted sid @ '' cannot be a source name'')
           ''use letters, digits, '.', '-' and '_', and do not start with a dot''), A)
      else if cal = [] then
        (Inl (Invalid ''no calendar chosen'' ''pick the calendar this source writes to''), A)
      else
        (case app_save_new S (default_profile_toml sid cal) A of
           (Inl e, A1) \<Rightarrow> (Inl (Invalid (error_display e) (remedy e)), A1)
         | (Inr _, A1) \<Rightarrow> (Inr (), app_reload S A1)))"

definition remove_source ::
  "('w, 'k, 'dt, 'nd) site \<Rightarrow> string \<Rightarrow> 'w app \<Rightarrow> (kit_error + unit) \<times> 'w app" where
  "remove_source S sid A =
     (if app_profiles A sid = None then (Inr (), A)
      else
        (case app_pending (site_env S) A of
           (Inl e, A1) \<Rightarrow> (Inl (Internal (error_display e) (remedy e)), A1)
         | (Inr es, A1) \<Rightarrow>
             (let waiting = length (filter (\<lambda>e. entry_source e = sid) es) in
              if 0 < waiting then
                (Inl (Invalid
                   (sid @ '' still has '' @ show_nat waiting @ '' event(s) waiting to be delivered'')
                   (''wait for the queue to drain, or fix whatever is blocking delivery, and '' @
                    ''delete it then'')), A1)
              else
                (case app_delete_profile S sid A1 of
                   (Inl e, A2) \<Rightarrow> (Inl (Internal (error_display e) (remedy e)), A2)
                 | (Inr _, A2) \<Rightarrow> (Inr (), app_reload S A2)))))"

section \<open>The calendars page\<close>

record calendar_row =
  row_id :: string
  row_name :: string
  row_in_use_by :: "string list"

record calendars_page =
  page_error :: "string option"
  page_dir :: string
  page_unusable :: "(string \<times> string) list"
  page_calendars :: "calendar_row list"
  page_calendar_error :: "string option"
  page_can_create :: bool

datatype page_reply = Redirect string | NotFound string | Page calendars_page

definition render_calendars ::
  "('w, 'k, 'dt, 'nd) site \<Rightarrow> string option \<Rightarrow> 'w app \<Rightarrow> page_reply \<times> 'w app" where
  "render_calendars S err A =
     (let profiles = sort_key source_id (map_values S (app_profiles A));
          (ld, A1) = app_load_all S A;
          can_create = (calendar_owner A1 \<noteq> None);
          (cals, cal_err, A2) =
            (case list_calendars (env_google (site_env S)) (app_hub A1) of
               (Inr listed, h) \<Rightarrow>
                 (let (c1, B1) = with_created_calendars listed (A1\<lparr>app_hub := h\<rparr>);
                      (c2, B2) = without_deleted_calendars c1 B1
                  in (c2, None, remember_calendars c2 B2))
             | (Inl e, h) \<Rightarrow> ([], Some (error_display e), A1\<lparr>app_hub := h\<rparr>));
          rows = map (\<lambda>(i, n).
            \<lparr>row_id = i, row_name = n,
             row_in_use_by = map source_id (filter (\<lambda>p. target_calendar_id p = i) profiles)\<rparr>) cals
      in (Page
            \<lparr>page_error = err, page_dir = app_profiles_dir A2,
             page_unusable = map (\<lambda>u. (unusable_name u, un_reason u)) (ld_unusable ld),
             page_calendars = rows, page_calendar_error = cal_err,
             page_can_create = can_create\<rparr>, A2))"

definition no_owner_error :: string where
  "no_owner_error =
     ''ALMANAC_CALENDAR_OWNER is not set '' @ em_dash @
     '' without an owner to share it with, a '' @
     ''calendar Almanac creates belongs to the service account and is visible to '' @ ''nobody.''"

text \<open>The lock is held from here to the end, so a handler runs as one step per name.\<close>

definition page_create_calendar ::
  "('w, 'k, 'dt, 'nd) site \<Rightarrow> string \<Rightarrow> 'w app \<Rightarrow> page_reply \<times> 'w app" where
  "page_create_calendar S form_name A =
     (let name = trim form_name in
      if name = [] then render_calendars S (Some ''Name the calendar.'') A
      else
        (case calendar_owner A of
           None \<Rightarrow> render_calendars S (Some no_owner_error) A
         | Some owner \<Rightarrow>
             (let A1 = A\<lparr>app_locks := snd (for_key (''calendar:'' @ name) (app_locks A))\<rparr> in
              case remembered_calendar name A1 of
                Some i \<Rightarrow> (Redirect ''/calendars'', A1)
              | None \<Rightarrow>
                  (case ensure_calendar (env_google (site_env S)) name owner (app_hub A1) of
                     (Inr (i, created), h) \<Rightarrow>
                       (let A2 = A1\<lparr>app_hub := h\<rparr> in
                        (Redirect ''/calendars'',
                         if created then remember_created_calendar name i A2 else A2))
                   | (Inl e, h) \<Rightarrow> render_calendars S (Some (error_display e)) (A1\<lparr>app_hub := h\<rparr>)))))"

definition page_delete_calendar ::
  "('w, 'k, 'dt, 'nd) site \<Rightarrow> string \<Rightarrow> 'w app \<Rightarrow> page_reply \<times> 'w app" where
  "page_delete_calendar S cal A =
     (let users = map source_id
            (filter (\<lambda>p. target_calendar_id p = cal) (map_values S (app_profiles A)))
      in if users \<noteq> [] then
           render_calendars S
             (Some (join_with '', '' users @
                '' still writes to that calendar, so it cannot be deleted yet. Delete the '' @
                ''source first '' @ em_dash @ '' its events stay on the calendar either way.'')) A
         else
           (case client_delete_calendar (env_google (site_env S)) cal (app_hub A) of
              (Inr _, h) \<Rightarrow>
                (Redirect ''/calendars'',
                 forget_created_calendar cal (remember_deleted_calendar cal (A\<lparr>app_hub := h\<rparr>)))
            | (Inl e, h) \<Rightarrow> render_calendars S (Some (error_display e)) (A\<lparr>app_hub := h\<rparr>)))"

definition page_delete_unusable ::
  "('w, 'k, 'dt, 'nd) site \<Rightarrow> string \<Rightarrow> 'w app \<Rightarrow> page_reply \<times> 'w app" where
  "page_delete_unusable S n A =
     (case app_load_all S A of (ld, A1) \<Rightarrow>
        if \<not> list_ex (\<lambda>u. unusable_name u = n) (ld_unusable ld)
        then (NotFound ''no such unusable profile'', A1)
        else
          (case app_delete_file S n A1 of
             (Inr _, A2) \<Rightarrow> (Redirect ''/calendars'', app_reload S A2)
           | (Inl e, A2) \<Rightarrow> render_calendars S (Some (error_display e)) A2))"

definition page_reload_profiles ::
  "('w, 'k, 'dt, 'nd) site \<Rightarrow> 'w app \<Rightarrow> page_reply \<times> 'w app" where
  "page_reload_profiles S A = (Redirect ''/calendars'', app_reload S A)"

section \<open>Facts\<close>

lemma ask_fields:
  "ask f A = (x, A') \<Longrightarrow>
     app_files A' = app_files A \<and> app_profiles A' = app_profiles A \<and>
     app_profiles_dir A' = app_profiles_dir A \<and> deleted_calendars A' = deleted_calendars A \<and>
     created_calendars A' = created_calendars A \<and> calendar_owner A' = calendar_owner A"
  by (auto simp: ask_def split: prod.splits)

lemma app_load_all_fields:
  "app_load_all S A = (ld, A') \<Longrightarrow>
     app_files A' = app_files A \<and> app_profiles A' = app_profiles A \<and>
     app_profiles_dir A' = app_profiles_dir A \<and> deleted_calendars A' = deleted_calendars A \<and>
     created_calendars A' = created_calendars A \<and> calendar_owner A' = calendar_owner A"
  by (auto simp: app_load_all_def dest: ask_fields split: prod.splits)

text \<open>The page once Google's list is there.\<close>

lemma render_listed:
  assumes "list_calendars (env_google (site_env S)) (app_hub (snd (app_load_all S A))) = (Inr listed, h)"
    "with_created_calendars listed (snd (app_load_all S A)\<lparr>app_hub := h\<rparr>) = (c1, B1)"
    "without_deleted_calendars c1 B1 = (c2, B2)"
  shows "\<exists>pg. render_calendars S err A = (Page pg, remember_calendars c2 B2) \<and>
    map (\<lambda>r. (row_id r, row_name r)) (page_calendars pg) = c2 \<and> page_error pg = err \<and>
    page_calendar_error pg = None \<and>
    (\<forall>r \<in> set (page_calendars pg). row_in_use_by r =
       map source_id (filter (\<lambda>p. target_calendar_id p = row_id r)
         (sort_key source_id (map_values S (app_profiles A)))))"
proof -
  obtain ld A1 where l: "app_load_all S A = (ld, A1)" by fastforce
  let ?rows = "map (\<lambda>(i, n). \<lparr>row_id = i, row_name = n,
    row_in_use_by = map source_id (filter (\<lambda>p. target_calendar_id p = i)
      (sort_key source_id (map_values S (app_profiles A))))\<rparr>) c2"
  obtain pg where "render_calendars S err A = (Page pg, remember_calendars c2 B2)"
      "page_calendars pg = ?rows" "page_error pg = err" "page_calendar_error pg = None"
    using assms by (simp add: render_calendars_def l)
  moreover have "map (\<lambda>r. (row_id r, row_name r)) ?rows = c2"
    by (simp add: comp_def case_prod_beta)
  moreover have "\<forall>r \<in> set ?rows. row_in_use_by r =
       map source_id (filter (\<lambda>p. target_calendar_id p = row_id r)
         (sort_key source_id (map_values S (app_profiles A))))"
    by (simp add: case_prod_beta)
  ultimately show ?thesis by (intro exI [of _ pg]) simp
qed

text \<open>What Google's list and the two corrections come to.\<close>

lemma corrected_list:
  assumes "with_created_calendars listed A = (c1, B1)" "without_deleted_calendars c1 B1 = (c2, B2)"
  shows "fst ` set c2 = (fst ` set listed \<union> snd ` set (created_calendars A)) - deleted_calendars A"
    "created_calendars B2 = filter (\<lambda>(n, i). i \<notin> fst ` set listed) (created_calendars A)"
proof -
  have without: "fst ` {(i, n) \<in> X. i \<notin> D} = fst ` X - D" for X :: "(string \<times> string) set" and D
    by force
  have with_missing: "fst ` (L \<union> {(i, n). (n, i) \<in> C \<and> i \<notin> fst ` L}) = fst ` L \<union> snd ` C"
    for L C :: "(string \<times> string) set"
  proof -
    have "fst ` {(i, n). (n, i) \<in> C \<and> i \<notin> X} = snd ` C - X" for X
      by (force simp: image_iff Bex_def)
    then show ?thesis unfolding image_Un by blast
  qed
  have B1: "deleted_calendars B1 = deleted_calendars A"
    using assms(1) by (auto simp: with_created_calendars_def Let_def split: if_splits)
  have B2: "created_calendars B2 = created_calendars B1"
    using assms(2) by (auto simp: without_deleted_calendars_def Let_def split: if_splits)
  have "created_calendars B1 = filter (\<lambda>(n, i). i \<notin> fst ` set listed) (created_calendars A)"
    using assms(1)
    by (auto simp: with_created_calendars_def Let_def filter_id_conv split: if_splits)
  with B2 show "created_calendars B2 =
      filter (\<lambda>(n, i). i \<notin> fst ` set listed) (created_calendars A)" by simp
  show "fst ` set c2 = (fst ` set listed \<union> snd ` set (created_calendars A)) - deleted_calendars A"
    unfolding shown_without_deleted(1) [OF assms(2)] shown_with_created(1) [OF assms(1)] B1
      without with_missing ..
qed

lemma remembered_iff:
  "remembered_calendar name A = Some i \<Longrightarrow> (name, i) \<in> set (created_calendars A)"
  by (auto simp: remembered_calendar_def dest: map_of_SomeD)

text \<open>A name keeps its id in the memory as long as Google does not list that id.\<close>

lemma map_of_filter_kept:
  "map_of xs k = Some v \<Longrightarrow> P (k, v) \<Longrightarrow> map_of (filter P xs) k = Some v"
proof (induction xs)
  case Nil
  then show ?case by simp
next
  case (Cons x xs)
  then show ?case by (cases x) (auto split: if_splits)
qed

lemma still_remembered:
  assumes "with_created_calendars listed A = (c1, B1)" "without_deleted_calendars c1 B1 = (c2, B2)"
    "remembered_calendar name A = Some i" "i \<notin> fst ` set listed"
  shows "remembered_calendar name (remember_calendars c2 B2) = Some i"
proof -
  have "created_calendars B2 = filter (\<lambda>(n, i). i \<notin> fst ` set listed) (created_calendars A)"
    by (rule corrected_list(2) [OF assms(1,2)])
  moreover have "map_of (filter (\<lambda>(n, i). i \<notin> fst ` set listed) (created_calendars A)) name = Some i"
    by (rule map_of_filter_kept) (use assms(3,4) in \<open>auto simp: remembered_calendar_def\<close>)
  ultimately show ?thesis by (simp add: remembered_calendar_def remember_calendars_def)
qed

text \<open>Once a name is remembered, asking for it again asks Google nothing.\<close>

lemma create_remembered:
  "remembered_calendar (trim form_name) A = Some i \<Longrightarrow> trim form_name \<noteq> [] \<Longrightarrow>
   calendar_owner A \<noteq> None \<Longrightarrow>
   page_create_calendar S form_name A =
     (Redirect ''/calendars'',
      A\<lparr>app_locks := snd (for_key (''calendar:'' @ trim form_name) (app_locks A))\<rparr>)"
  by (auto simp: page_create_calendar_def Let_def remembered_calendar_def)

lemma page_create_made:
  assumes "page_create_calendar S form_name A = (Redirect u, A')"
    "calendar_owner A = Some owner" "trim form_name \<noteq> []"
    "remembered_calendar (trim form_name) A = None"
  shows "\<exists>i created h.
    ensure_calendar (env_google (site_env S)) (trim form_name) owner (app_hub A) = (Inr (i, created), h) \<and>
    (created \<longrightarrow> remembered_calendar (trim form_name) A' = Some i) \<and>
    calendar_owner A' = Some owner \<and> app_hub A' = h"
proof -
  let ?A = "A\<lparr>app_locks := snd (for_key (''calendar:'' @ trim form_name) (app_locks A))\<rparr>"
  have rem: "remembered_calendar (trim form_name) ?A = None"
    using assms(4) by (simp add: remembered_calendar_def)
  obtain r h where e: "ensure_calendar (env_google (site_env S)) (trim form_name) owner (app_hub A) = (r, h)"
    by fastforce
  have page: "\<exists>pg B. render_calendars S err B' = (Page pg, B)" for err B'
    by (simp add: render_calendars_def Let_def case_prod_beta split: prod.split)
  show ?thesis
  proof (cases r)
    case (Inl err)
    then show ?thesis
      using assms(1,2,3) rem e page [of "Some (error_display err)" "?A\<lparr>app_hub := h\<rparr>"]
      by (auto simp: page_create_calendar_def Let_def)
  next
    case (Inr ic)
    obtain i created where ic: "ic = (i, created)" by fastforce
    show ?thesis
      using assms(1,2,3) rem e Inr ic
      by (auto simp: page_create_calendar_def Let_def remember_created_calendar_def
          remembered_calendar_def)
  qed
qed

section \<open>Sources\<close>

text \<open>Texts that stay themselves between the quotes of a TOML string.\<close>

definition plain_text :: "string \<Rightarrow> bool" where
  "plain_text s \<longleftrightarrow> utf8_valid s \<and> (\<forall>c \<in> set s. 32 \<le> byte c \<and> byte c \<noteq> 127 \<and> c \<noteq> CHR 0x22 \<and> c \<noteq> CHR 0x5C)"

definition source_profile :: "string \<Rightarrow> string \<Rightarrow> profile" where
  "source_profile sid cal =
     \<lparr>schema_version = SUPPORTED_SCHEMA_VERSION, source_id = sid, target_calendar_id = cal,
      timezone = default_timezone, default_duration_minutes = Some FALLBACK_DURATION_MINUTES\<rparr>"

text \<open>The \<open>toml\<close> crate reads a file of five plain key-value lines as what it says.\<close>

definition toml_reads_default :: "toml_crate \<Rightarrow> bool" where
  "toml_reads_default T \<longleftrightarrow>
     (\<forall>sid cal prof. source_id_is_safe sid \<longrightarrow> plain_text cal \<longrightarrow>
        toml_profile T (default_profile_toml sid cal) = Inr prof \<longrightarrow> prof = source_profile sid cal)"

definition reads_succeed :: "('w, 'k, 'dt, 'nd) site \<Rightarrow> bool" where
  "reads_succeed S \<longleftrightarrow> (\<forall>w p. fst (site_read_faults S w) p = None)"

lemma utf8_ascii: "(\<And>c. c \<in> set s \<Longrightarrow> byte c < 128) \<Longrightarrow> utf8_valid s"
  by (induction s) (simp_all add: utf8_valid.simps(2))

lemma utf8_default_toml:
  assumes "source_id_is_safe sid" "utf8_valid cal"
  shows "utf8_valid (default_profile_toml sid cal)"
proof -
  have "utf8_valid sid"
    using assms(1) source_id_char_excludes
    by (intro utf8_ascii) (auto simp: source_id_is_safe_def list_all_iff)
  moreover have "utf8_valid (show_nat SUPPORTED_SCHEMA_VERSION)"
    "utf8_valid (show_int FALLBACK_DURATION_MINUTES)"
    by code_simp+
  moreover have "utf8_valid em_dash" "utf8_valid dq"
    by (simp_all add: em_dash_def dq_def utf8_valid.simps(2) byte_def second_ok_def cont_byte_def bytes_def)
  ultimately show ?thesis
    using assms(2)
    by (simp add: default_profile_toml_def quoted_def utf8_append utf8_valid.simps(2) byte_def)
qed

lemma load_map_insert:
  assumes "set (ld_profiles (load_all N dir fs')) = insert prof (set (ld_profiles (load_all N dir fs)))"
    "source_id prof \<notin> source_id ` set (ld_profiles (load_all N dir fs))"
  shows "load_map N dir fs' = (load_map N dir fs)(source_id prof \<mapsto> prof)"
proof (rule ext)
  fix k
  have "load_map N dir fs' k = Some v \<longleftrightarrow> ((load_map N dir fs)(source_id prof \<mapsto> prof)) k = Some v" for v
    using assms by (auto simp: load_map_iff image_iff)
  then show "load_map N dir fs' k = ((load_map N dir fs)(source_id prof \<mapsto> prof)) k"
    by (metis not_None_eq)
qed

text \<open>With reads that succeed there is one reading of the directory.\<close>

abbreviation quiet_profiles :: "('w, 'k, 'dt, 'nd) site \<Rightarrow> profiles_env" where
  "quiet_profiles S \<equiv> profiles_at S (\<lambda>p. None)"

lemma quiet_faults:
  assumes "reads_succeed S" "ask (site_read_faults S) A = (faults, A')"
  shows "faults = (\<lambda>p. None)"
proof -
  have "faults = fst (site_read_faults S (outside (app_hub A)))"
    using assms(2) by (auto simp: ask_def split: prod.splits)
  with assms(1) show ?thesis by (auto simp: reads_succeed_def)
qed

lemma app_reload_quiet:
  "reads_succeed S \<Longrightarrow>
     app_profiles (app_reload S A) = load_map (quiet_profiles S) (app_profiles_dir A) (app_files A)"
  "app_files (app_reload S A) = app_files A"
  "app_profiles_dir (app_reload S A) = app_profiles_dir A"
proof -
  obtain faults A1 where a: "ask (site_read_faults S) A = (faults, A1)" by fastforce
  note f = ask_fields [OF a]
  show "app_files (app_reload S A) = app_files A" "app_profiles_dir (app_reload S A) = app_profiles_dir A"
    using f by (simp_all add: app_reload_def a set_profiles_def)
  assume "reads_succeed S"
  then show "app_profiles (app_reload S A) =
      load_map (quiet_profiles S) (app_profiles_dir A) (app_files A)"
    using f quiet_faults [OF _ a] by (simp add: app_reload_def a set_profiles_def)
qed

lemma app_save_new_quiet:
  assumes "reads_succeed S" "app_save_new S contents A = (r, A')"
  shows "\<exists>mkdir F. save_new (quiet_profiles S) mkdir F (app_profiles_dir A) contents (app_files A)
      = (r, app_files A')"
    "app_profiles_dir A' = app_profiles_dir A" "app_profiles A' = app_profiles A"
proof -
  obtain faults A1 where 1: "ask (site_read_faults S) A = (faults, A1)" by fastforce
  obtain mkdir A2 where 2: "ask (site_mkdir_fault S) A1 = (mkdir, A2)" by fastforce
  obtain F A3 where 3: "ask (env_rewrite_faults (site_env S)) A2 = (F, A3)" by fastforce
  obtain r' fs where s: "save_new (profiles_at S faults) mkdir F (app_profiles_dir A3) contents
      (app_files A3) = (r', fs)" by fastforce
  note f = ask_fields [OF 1] ask_fields [OF 2] ask_fields [OF 3]
  have A': "r = r'" "A' = A3\<lparr>app_files := fs\<rparr>"
    using assms(2) by (simp_all add: app_save_new_def 1 2 3 s)
  show "\<exists>mkdir F. save_new (quiet_profiles S) mkdir F (app_profiles_dir A) contents (app_files A)
      = (r, app_files A')"
    using s f quiet_faults [OF assms(1) 1] A' by auto
  show "app_profiles_dir A' = app_profiles_dir A" "app_profiles A' = app_profiles A"
    using f A' by simp_all
qed

lemma create_source_added:
  assumes "reads_succeed S" "lists_dir (quiet_profiles S) (app_profiles_dir A) (app_files A)"
    "lists_dir (quiet_profiles S) (app_profiles_dir A) (app_files A')"
    "toml_reads_default (site_toml S)" "plain_text (trim cal)" "app_profiles A (trim source) = None"
    "create_source S source cal A = (Inr (), A')"
  shows "app_profiles A' = (load_map (quiet_profiles S) (app_profiles_dir A) (app_files A))
      (trim source \<mapsto> source_profile (trim source) (trim cal))"
    "load_map (quiet_profiles S) (app_profiles_dir A) (app_files A) (trim source) = None"
proof -
  let ?N = "quiet_profiles S" and ?toml = "default_profile_toml (trim source) (trim cal)"
  have safe: "source_id_is_safe (trim source)"
    using assms(6,7) by (auto simp: create_source_def Let_def split: if_splits)
  obtain p A1 where s: "app_save_new S ?toml A = (Inr p, A1)" "A' = app_reload S A1"
    using assms(6,7)
    by (auto simp: create_source_def Let_def split: if_splits prod.splits sum.splits)
  obtain mkdir F where n:
    "save_new ?N mkdir F (app_profiles_dir A) ?toml (app_files A) = (Inr p, app_files A1)"
    using app_save_new_quiet(1) [OF assms(1) s(1)] by blast
  note saved = save_new_Inr [OF n]
  have p: "p = source_profile (trim source) (trim cal)"
    using saved assms(4,5) safe
    by (auto simp: toml_reads_default_def profile_parse_inv profiles_at_def)
  then have id: "source_id p = trim source" by (simp add: source_profile_def)
  have "utf8_valid ?toml"
    using utf8_default_toml [OF safe] assms(5) by (simp add: plain_text_def)
  then have served: "set (ld_profiles (load_all ?N (app_profiles_dir A) (app_files A1))) =
      insert p (set (ld_profiles (load_all ?N (app_profiles_dir A) (app_files A))))"
    using saved assms(2,3) s(2)
    by (intro save_new_served [where F = F]) (auto simp: app_reload_quiet(2) profiles_at_def)
  have dir: "app_profiles_dir A1 = app_profiles_dir A"
    by (rule app_save_new_quiet(2) [OF assms(1) s(1)])
  show "app_profiles A' = (load_map ?N (app_profiles_dir A) (app_files A))
      (trim source \<mapsto> source_profile (trim source) (trim cal))"
    using load_map_insert [OF served] saved p id
    by (simp add: s(2) app_reload_quiet(1) [OF assms(1)] dir)
  show "load_map ?N (app_profiles_dir A) (app_files A) (trim source) = None"
    using saved id by (metis (no_types, lifting) imageI load_map_iff not_None_eq)
qed

lemma remove_source_done:
  assumes "app_profiles A sid \<noteq> None" "remove_source S sid A = (Inr (), A')"
  shows "\<exists>es A1. app_pending (site_env S) A = (Inr es, A1) \<and>
    (\<forall>e \<in> set es. entry_source e \<noteq> sid) \<and> source_id_is_safe sid \<and>
    app_files A' = (app_files A)(profile_path (app_profiles_dir A) sid := None)"
proof -
  obtain es A1 where p: "app_pending (site_env S) A = (Inr es, A1)"
    "\<forall>e \<in> set es. entry_source e \<noteq> sid"
    using assms by (auto simp: remove_source_def Let_def filter_empty_conv
        split: if_splits prod.splits sum.splits)
  then obtain q A2 where d: "app_delete_profile S sid A1 = (Inr q, A2)" "A' = app_reload S A2"
    using assms by (auto simp: remove_source_def Let_def split: if_splits prod.splits sum.splits)
  have f: "app_files A1 = app_files A" "app_profiles_dir A1 = app_profiles_dir A"
    using p by (auto simp: app_pending_def dest: ask_fields split: prod.splits)
  have "source_id_is_safe sid \<and>
      app_files A2 = (app_files A1)(profile_path (app_profiles_dir A1) sid := None)"
    using d(1) by (auto simp: app_delete_profile_def delete_profile_def remove_file_def
        dest!: ask_fields split: prod.splits if_splits option.splits)
  with p f d(2) show ?thesis by (auto simp: app_reload_quiet(2))
qed

lemma remove_source_refused:
  assumes "remove_source S sid A = (Inl e, A')"
  shows "app_files A' = app_files A" "app_profiles A' = app_profiles A"
proof -
  obtain p A1 where p: "app_pending (site_env S) A = (p, A1)" by fastforce
  then have f: "app_files A1 = app_files A" "app_profiles A1 = app_profiles A"
    by (auto simp: app_pending_def dest: ask_fields split: prod.splits)
  have d: "app_files A2 = app_files A1 \<and> app_profiles A2 = app_profiles A1"
    if "app_delete_profile S sid A1 = (Inl e', A2)" for e' A2
    using that by (auto simp: app_delete_profile_def delete_profile_def remove_file_def
        dest!: ask_fields split: prod.splits if_splits option.splits)
  have "A' = A1 \<or> (\<exists>e'. app_delete_profile S sid A1 = (Inl e', A'))"
    using assms p
    by (auto simp: remove_source_def Let_def split: if_splits prod.splits sum.splits)
  with f d show "app_files A' = app_files A" "app_profiles A' = app_profiles A" by auto
qed

lemma set_map_values:
  assumes "walks_maps S" "finite (dom m)"
  shows "set (map_values S m) = ran m"
  using assms by (force simp: walks_maps_def map_values_def ran_def List.map_filter_def dom_def)

lemma render_is_page: "\<exists>pg B. render_calendars S err A = (Page pg, B)"
  by (simp add: render_calendars_def Let_def case_prod_beta)

lemma page_deleted:
  assumes "page_delete_calendar S cal A = (Redirect u, A')"
  shows "\<exists>h. client_delete_calendar (env_google (site_env S)) cal (app_hub A) = (Inr (), h) \<and>
    A' = forget_created_calendar cal (remember_deleted_calendar cal (A\<lparr>app_hub := h\<rparr>)) \<and>
    (\<forall>p \<in> set (map_values S (app_profiles A)). target_calendar_id p \<noteq> cal)"
proof -
  obtain r h where c: "client_delete_calendar (env_google (site_env S)) cal (app_hub A) = (r, h)"
    by fastforce
  have none: "filter (\<lambda>p. target_calendar_id p = cal) (map_values S (app_profiles A)) = []"
  proof (rule ccontr)
    assume "\<not> ?thesis"
    then show False
      using assms by (simp add: page_delete_calendar_def render_calendars_def Let_def case_prod_beta)
  qed
  show ?thesis
  proof (cases r)
    case (Inl e)
    then show ?thesis
      using assms none c render_is_page [of S "Some (error_display e)" "A\<lparr>app_hub := h\<rparr>"]
      by (auto simp: page_delete_calendar_def)
  next
    case (Inr v)
    then show ?thesis
      using assms none c by (auto simp: page_delete_calendar_def filter_empty_conv)
  qed
qed

end
