(* ===== verification/Status.thy ===== *)
theory Status
  imports Sources
begin

text \<open>
  What the service says about itself: the health check, the metrics and the sections of the status
  page from src/shell/kit.rs, and the operator's routes of src/shell/admin.rs.
\<close>

section \<open>The kit's view\<close>

text \<open>The health check: whether it is well, and the sentence that says why.\<close>

definition journal_check :: "('w, 'k, 'dt, 'nd) app_env \<Rightarrow> 'w app \<Rightarrow> (bool \<times> string) \<times> 'w app" where
  "journal_check E A =
     (case app_pending E A of
        (Inr es, A1) \<Rightarrow>
          (if es = [] then (True, ''readable; nothing pending'')
           else (True, ''readable; '' @ show_nat (length es) @ '' undelivered entr'' @
                       (if length es = 1 then ''y'' else ''ies'') @ '' waiting for the worker''), A1)
      | (Inl e, A1) \<Rightarrow>
          ((False, ''cannot be read: '' @ error_display e @ ''. What now: '' @ remedy e), A1))"

definition scrape :: "('w, 'k, 'dt, 'nd) app_env \<Rightarrow> 'w app \<Rightarrow> string \<times> 'w app" where
  "scrape E A =
     (case app_pending E A of
        (Inr es, A1) \<Rightarrow>
          (metrics_render (hub_metrics (app_hub A1)) (Some (of_nat (length es))) (env_version E), A1)
      | (Inl e, A1) \<Rightarrow> (metrics_render (hub_metrics (app_hub A1)) None (env_version E), A1))"

record status_section =
  sec_title :: string
  sec_explain :: string
  sec_rows :: "(string \<times> string) list"
  sec_html :: "string option"

fun outcome_text :: "route_outcome \<Rightarrow> string" where
  "outcome_text (Created i) = ''created '' @ i"
| "outcome_text (Updated i) = ''updated '' @ i"
| "outcome_text (Failed msg rem) = ''failed: '' @ msg"

definition route_row :: "route_record \<Rightarrow> string" where
  "route_row r =
     ''<tr><td>'' @ escape (route_at r) @ ''</td><td><code>'' @ escape (route_source r) @
     ''</code></td><td>'' @ escape (outcome_text (route_outcome r)) @ ''</td></tr>''"

definition nothing_delivered_html :: string where
  "nothing_delivered_html =
     ''<p class='' @ quoted ''text-secondary'' @ ''>Nothing delivered yet this run.</p>''"

definition routes_table :: "string list \<Rightarrow> string" where
  "routes_table rows =
     ''<table class='' @ quoted ''kp-table'' @
     ''><thead><tr><th>When</th><th>Source</th><th>Result</th></tr></thead><tbody>'' @
     concat rows @ ''</tbody></table>''"

text \<open>\<open>busy\<close> says that the history's lock is taken, in which case no route is shown.\<close>

definition journal_section ::
  "('w, 'k, 'dt, 'nd) app_env \<Rightarrow> bool \<Rightarrow> 'w app \<Rightarrow> status_section \<times> 'w app" where
  "journal_section E busy A =
     (case app_pending E A of (p, A1) \<Rightarrow>
        (let waiting = (case p of Inr es \<Rightarrow> show_nat (length es) | Inl e \<Rightarrow> ''unreadable'');
             explain = (case p of Inr es \<Rightarrow> []
                        | Inl e \<Rightarrow> '' '' @ error_display e @ '' '' @ em_dash @ '' '' @ remedy e);
             recent = (if busy then [] else map route_row (ring_items (app_routes A1)))
         in (\<lparr>sec_title = ''Journal'',
              sec_explain =
                ''Events are journalled on arrival and delivered to Google by the worker; '' @
                ''what is waiting has not reached the calendar yet.'' @ explain,
              sec_rows = [(''Waiting to be delivered'', waiting)],
              sec_html = Some (if recent = [] then nothing_delivered_html
                               else routes_table recent)\<rparr>, A1)))"

text \<open>The calendar column of the sources page.\<close>

definition calendar_cell :: "'w app \<Rightarrow> string \<Rightarrow> string" where
  "calendar_cell A client =
     (case app_profiles A client of
        Some p \<Rightarrow> escape (calendar_name (target_calendar_id p) A)
      | None \<Rightarrow> ''<span class='' @ quoted ''text-secondary italic'' @ ''>no profile</span>'')"

definition profiles_section :: "('w, 'k, 'dt, 'nd) site \<Rightarrow> 'w app \<Rightarrow> status_section" where
  "profiles_section S A =
     \<lparr>sec_title = ''Sources'',
      sec_explain =
        ''Every loaded mapping profile and the calendar it writes to; sources are managed on the '' @
        ''Sources page, calendars on theirs.'',
      sec_rows = map (\<lambda>p. (source_id p, calendar_name (target_calendar_id p) A))
        (sort_key source_id (map_values S (app_profiles A))),
      sec_html = Some
        (''<p><a class='' @ quoted ''kp-button'' @ '' href='' @ quoted ''/clients'' @
         ''>Sources</a> <a class='' @ quoted ''kp-button'' @ '' href='' @ quoted ''/calendars'' @
         ''>Calendars</a></p>'')\<rparr>"

section \<open>The operator's routes\<close>

definition require_admin :: "caller \<Rightarrow> reply option" where
  "require_admin who =
     (case who of
        Admin \<Rightarrow> None
      | Client name \<Rightarrow>
          Some (error_reply 403 ''this needs the admin, not a client token''
            ''send the service's login token (ALMANAC_TOKEN) as `Authorization: Bearer <token>`''))"

fun outcome_to_json :: "route_outcome \<Rightarrow> json" where
  "outcome_to_json (Created i) = JObj [(''result'', JStr ''created''), (''event_id'', JStr i)]"
| "outcome_to_json (Updated i) = JObj [(''result'', JStr ''updated''), (''event_id'', JStr i)]"
| "outcome_to_json (Failed msg rem) =
     JObj [(''result'', JStr ''failed''), (''message'', JStr msg), (''remedy'', JStr rem)]"

definition route_to_json :: "route_record \<Rightarrow> json" where
  "route_to_json r =
     JObj [(''at'', JStr (route_at r)), (''source_id'', JStr (route_source r)),
           (''entry_id'', JStr (route_entry r)),
           (''upsert_key'', case route_key r of None \<Rightarrow> JNull | Some k \<Rightarrow> JStr k),
           (''outcome'', outcome_to_json (route_outcome r))]"

definition profile_summary :: "profile \<Rightarrow> json" where
  "profile_summary p =
     JObj [(''source_id'', JStr (source_id p)), (''target_calendar_id'', JStr (target_calendar_id p)),
           (''schema_version'', JInt (int (schema_version p)))]"

definition pending_summary :: "entry list result \<Rightarrow> json" where
  "pending_summary r =
     (case r of
        Inr es \<Rightarrow>
          JObj [(''count'', JInt (int (length es))),
                (''oldest'',
                 case es of
                   [] \<Rightarrow> JNull
                 | e # _ \<Rightarrow>
                     JObj [(''entry_id'', JStr (entry_id e)), (''source_id'', JStr (entry_source e)),
                           (''received_at'', JStr (received_at e))])]
      | Inl e \<Rightarrow> JObj [(''error'', JStr (error_display e)), (''remedy'', JStr (remedy e))])"

definition debug_status ::
  "('w, 'k, 'dt, 'nd) site \<Rightarrow> caller \<Rightarrow> 'w app \<Rightarrow> reply \<times> 'w app" where
  "debug_status S who A =
     (case require_admin who of
        Some r \<Rightarrow> (r, A)
      | None \<Rightarrow>
          (let profiles = map profile_summary (sort_key source_id (map_values S (app_profiles A)));
               (p, A1) = app_pending (site_env S) A
           in ((200, JObj [(''status'', JStr ''ok''), (''profiles'', JArr profiles),
                           (''journal'', pending_summary p),
                           (''recent_routes'',
                            JArr (map route_to_json (ring_items (app_routes A1))))]), A1)))"

text \<open>No reply means that the handler panicked; nothing is written anywhere.\<close>

definition dry_run ::
  "('dt, 'nd) crates \<Rightarrow> string \<Rightarrow> caller \<Rightarrow> json \<Rightarrow> 'w app \<Rightarrow> reply option" where
  "dry_run K src who body A =
     (case require_admin who of
        Some r \<Rightarrow> Some r
      | None \<Rightarrow>
          (case app_profiles A src of
             None \<Rightarrow>
               Some (error_reply 404 (''no profile with source_id '' @ quoted src)
                       ''check the loaded profiles at /v1/debug/status'')
           | Some p \<Rightarrow>
               (case map_payload K body p (''profile '' @ src) of
                  Ok ev \<Rightarrow>
                    Some (200, JObj [(''status'', JStr ''ok''),
                                     (''would_write_to_calendar'', JStr (target_calendar_id p)),
                                     (''event'', event_to_json ev)])
                | Err e \<Rightarrow> Some (refuse_with 422 e)
                | Panic \<Rightarrow> None)))"

definition ping :: "caller \<Rightarrow> reply" where
  "ping who =
     (200, JObj [(''status'', JStr ''ok''),
                 (''caller'', JStr (case who of Admin \<Rightarrow> ''admin'' | Client name \<Rightarrow> name))])"

end
