(* ===== verification/Pacing.thy ===== *)
theory Pacing
  imports Prelude "HOL-Library.Log_Nat"
begin

text \<open>
  How fast the delivery worker comes back: src/core/pacing.rs.
\<close>

section \<open>One pass\<close>

definition FAILURE_BACKOFF_SECS :: "nat list" where
  "FAILURE_BACKOFF_SECS = [15, 60, 300, 900, 1800]"

definition POLL_INTERVAL_SECS :: nat where
  "POLL_INTERVAL_SECS = 5"

record drain_summary =
  sum_delivered :: nat
  sum_failed :: nat

record pacing =
  wait_secs :: nat
  report_backlog :: bool
  recovered :: bool

record pacer =
  consecutive_failures :: nat
  backlog_reported :: bool

definition pacer_new :: pacer where
  "pacer_new = \<lparr>consecutive_failures = 0, backlog_reported = False\<rparr>"

definition stalled :: "drain_summary \<Rightarrow> bool" where
  "stalled s \<longleftrightarrow> 0 < sum_failed s \<and> sum_delivered s = 0"

definition pace_after :: "drain_summary \<Rightarrow> bool \<Rightarrow> pacer \<Rightarrow> pacing \<times> pacer" where
  "pace_after s filling w =
     (if \<not> stalled s then
        (\<lparr>wait_secs = POLL_INTERVAL_SECS, report_backlog = False,
          recovered = 0 < consecutive_failures w\<rparr>,
         \<lparr>consecutive_failures = 0, backlog_reported = False\<rparr>)
      else
        (let wait = FAILURE_BACKOFF_SECS !
               min (consecutive_failures w) (length FAILURE_BACKOFF_SECS - 1);
             report = (filling \<and> \<not> backlog_reported w)
         in (\<lparr>wait_secs = wait, report_backlog = report, recovered = False\<rparr>,
             \<lparr>consecutive_failures = consecutive_failures w + 1,
              backlog_reported = (report \<or> backlog_reported w)\<rparr>)))"

text \<open>
  \<open>size as f64 >= cap as f64 * 0.5\<close>. \<open>f64_of_u64\<close> is the conversion: the nearest number with a
  53-bit significand, ties to even. Halving is exact, so the comparison is one of naturals.
\<close>

definition f64_of_u64 :: "nat \<Rightarrow> nat" where
  "f64_of_u64 n =
     (let k = floorlog 2 n - 53; q = n div 2 ^ k; r = 2 * (n mod 2 ^ k) in
      if k = 0 then n
      else if 2 ^ k < r \<or> (r = 2 ^ k \<and> odd q) then (q + 1) * 2 ^ k
      else q * 2 ^ k)"

definition journal_is_filling :: "nat \<Rightarrow> nat \<Rightarrow> bool" where
  "journal_is_filling used cap \<longleftrightarrow> f64_of_u64 cap \<le> 2 * f64_of_u64 used"

lemma f64_exact: "n < 2 ^ 53 \<Longrightarrow> f64_of_u64 n = n"
  by (simp add: f64_of_u64_def floorlog_leI Let_def)

section \<open>Runs of passes\<close>

fun paces :: "(drain_summary \<times> bool) list \<Rightarrow> pacer \<Rightarrow> pacing list" where
  "paces [] w = []"
| "paces ((s, filling) # ps) w =
     (case pace_after s filling w of (p, w') \<Rightarrow> p # paces ps w')"

fun pacer_after :: "(drain_summary \<times> bool) list \<Rightarrow> pacer \<Rightarrow> pacer" where
  "pacer_after [] w = w"
| "pacer_after ((s, filling) # ps) w = pacer_after ps (snd (pace_after s filling w))"

definition reports :: "pacing list \<Rightarrow> nat" where
  "reports ps = length (filter report_backlog ps)"

lemma pace_stalled:
  assumes "stalled s"
  shows "wait_secs (fst (pace_after s f w)) = FAILURE_BACKOFF_SECS ! min (consecutive_failures w) 4"
    "report_backlog (fst (pace_after s f w)) \<longleftrightarrow> f \<and> \<not> backlog_reported w"
    "\<not> recovered (fst (pace_after s f w))"
    "consecutive_failures (snd (pace_after s f w)) = Suc (consecutive_failures w)"
    "backlog_reported (snd (pace_after s f w)) \<longleftrightarrow> f \<or> backlog_reported w"
  using assms by (auto simp: pace_after_def Let_def FAILURE_BACKOFF_SECS_def numeral_eq_Suc)

lemma pace_moving:
  assumes "\<not> stalled s"
  shows "fst (pace_after s f w) = \<lparr>wait_secs = POLL_INTERVAL_SECS, report_backlog = False,
      recovered = 0 < consecutive_failures w\<rparr>" "snd (pace_after s f w) = pacer_new"
  using assms by (simp_all add: pace_after_def pacer_new_def)

text \<open>While deliveries stall, a reported backlog is not reported again.\<close>

lemma stalled_reports:
  "\<forall>(s, f) \<in> set ps. stalled s \<Longrightarrow>
   reports (paces ps w) =
     (if \<not> backlog_reported w \<and> (\<exists>(s, f) \<in> set ps. f) then 1 else 0)"
proof (induction ps arbitrary: w)
  case Nil
  then show ?case by (simp add: reports_def)
next
  case (Cons x ps)
  obtain s f where x: "x = (s, f)" by fastforce
  with Cons.prems have st: "stalled s" and rest: "\<forall>(s, f) \<in> set ps. stalled s" by auto
  note p = pace_stalled [OF st, of f w]
  have "reports (paces (x # ps) w) =
      (if report_backlog (fst (pace_after s f w)) then 1 else 0)
      + reports (paces ps (snd (pace_after s f w)))"
    by (simp add: x reports_def split: prod.split)
  then show ?case
    using Cons.IH [OF rest, of "snd (pace_after s f w)"] p(2,5) by (auto simp: x)
qed

lemma stalled_run:
  "\<forall>(s, f) \<in> set ps. stalled s \<Longrightarrow>
   consecutive_failures (pacer_after ps w) = consecutive_failures w + length ps"
  by (induction ps arbitrary: w) (auto simp: pace_stalled)

lemma stalled_waits:
  "\<forall>(s, f) \<in> set ps. stalled s \<Longrightarrow>
   map wait_secs (paces ps w) =
     map (\<lambda>i. FAILURE_BACKOFF_SECS ! min (consecutive_failures w + i) 4) [0..<length ps]"
proof (induction ps arbitrary: w)
  case Nil
  then show ?case by simp
next
  case (Cons x ps)
  obtain s f where x: "x = (s, f)" by fastforce
  with Cons.prems have st: "stalled s" and rest: "\<forall>(s, f) \<in> set ps. stalled s" by auto
  have "map wait_secs (paces (x # ps) w) = FAILURE_BACKOFF_SECS ! min (consecutive_failures w) 4 #
      map wait_secs (paces ps (snd (pace_after s f w)))"
    using pace_stalled(1) [OF st, of f w] by (cases "pace_after s f w") (simp add: x)
  also have "\<dots> = FAILURE_BACKOFF_SECS ! min (consecutive_failures w) 4 #
      map (\<lambda>i. FAILURE_BACKOFF_SECS ! min (consecutive_failures w + Suc i) 4) [0..<length ps]"
    using Cons.IH [OF rest] pace_stalled(4) [OF st] by simp
  finally show ?case
    by (simp add: upt_conv_Cons map_Suc_upt [symmetric] comp_def del: upt_Suc)
qed

end
