(* ===== verification/Worker.thy ===== *)
theory Worker
  imports App Pacing
begin

text \<open>
  The background delivery loop: src/shell/worker.rs. A pass is a fold over the pending entries; the
  loop is a run over the signals it wakes up on. A panic inside a delivery ends the task, which is
  the result \<open>None\<close>.
\<close>

section \<open>One entry\<close>

definition PERMANENT_FAILURES_BEFORE_DEAD :: nat where
  "PERMANENT_FAILURES_BEFORE_DEAD = 3"

definition COMPACT_AFTER_DELIVERIES :: nat where
  "COMPACT_AFTER_DELIVERIES = 100"

type_synonym permanent_failures = "string \<rightharpoonup> nat"

fun route_of :: "delivered result \<Rightarrow> route_outcome" where
  "route_of (Inr d) =
     (if del_created d then Created (del_event_id d) else Updated (del_event_id d))"
| "route_of (Inl e) = Failed (error_display e) (remedy e)"

fun route_key_of :: "delivered result \<Rightarrow> string option" where
  "route_key_of (Inr d) = del_key d"
| "route_key_of (Inl e) = None"

definition record_route ::
  "('w, 'k, 'dt, 'nd) app_env \<Rightarrow> entry \<Rightarrow> delivered result \<Rightarrow> 'w app \<Rightarrow> 'w app" where
  "record_route E e res A =
     (case ask (env_now E) A of (now, A1) \<Rightarrow>
        A1\<lparr>app_routes := ring_push
             \<lparr>route_at = now, route_source = entry_source e, route_entry = entry_id e,
              route_key = route_key_of res, route_outcome = route_of res\<rparr> (app_routes A1)\<rparr>)"

definition send_notice ::
  "('w, 'k, 'dt, 'nd) app_env \<Rightarrow> string option \<Rightarrow> string \<Rightarrow> string \<Rightarrow> 'w app \<Rightarrow> 'w app" where
  "send_notice E webhook opname err A =
     A\<lparr>app_hub := notifier_send (env_services (env_google E)) webhook
         \<lparr>notice_op = opname, notice_ok = False, notice_version = env_version E,
          notice_error = Some err\<rparr> (app_hub A)\<rparr>"

definition set_aside_reason :: "almanac_error \<Rightarrow> string" where
  "set_aside_reason e = error_display e @ '' '' @ em_dash @ '' '' @ remedy e"

definition failures_seen :: "permanent_failures \<Rightarrow> string \<Rightarrow> nat" where
  "failures_seen perm i = (case perm i of None \<Rightarrow> 0 | Some n \<Rightarrow> n)"

text \<open>The third branch of the match: a failure that retrying will not fix.\<close>

definition permanent_failure ::
  "('w, 'k, 'dt, 'nd) app_env \<Rightarrow> string option \<Rightarrow> entry \<Rightarrow> almanac_error \<Rightarrow> 'w app \<Rightarrow>
     permanent_failures \<Rightarrow> 'w app \<times> permanent_failures" where
  "permanent_failure E webhook e err A perm =
     (let seen = failures_seen perm (entry_id e) + 1;
          perm1 = perm(entry_id e \<mapsto> seen);
          why = set_aside_reason err
      in if PERMANENT_FAILURES_BEFORE_DEAD \<le> seen then
           (case ask (env_now E) A of (now, A1) \<Rightarrow>
              (case app_mark_dead E (entry_id e) why now A1 of
                 (Inr _, A2) \<Rightarrow>
                   (send_notice E webhook ENTRY_SET_ASIDE
                      (''an event from '' @ entry_source e @
                       '' can never be delivered and was set aside: '' @ why)
                      (on_metrics (count_dead 1) A2),
                    perm1(entry_id e := None))
               | (Inl _, A2) \<Rightarrow> (A2, perm1)))
         else (A, perm1))"

text \<open>\<open>Some True\<close> is a delivery, \<open>Some False\<close> a failure, \<open>None\<close> a panic.\<close>

definition drain_one ::
  "('w, 'k, 'dt, 'nd) app_env \<Rightarrow> string option \<Rightarrow> (string \<rightharpoonup> profile) \<Rightarrow> entry \<Rightarrow> 'w app \<Rightarrow>
     permanent_failures \<Rightarrow> bool option \<times> 'w app \<times> permanent_failures" where
  "drain_one E webhook profiles e A perm =
     (case profiles (entry_source e) of
        None \<Rightarrow> (Some False, A, perm)
      | Some p \<Rightarrow>
          (case app_deliver E e p A of
             (Panic, A1) \<Rightarrow> (None, A1, perm)
           | (Ok d, A1) \<Rightarrow>
               (Some True, snd (app_mark_done E (entry_id e) (record_route E e (Inr d) A1)), perm)
           | (Err err, A1) \<Rightarrow>
               (let A2 = record_route E e (Inl err) A1 in
                if error_is_transient err then (Some False, A2, perm(entry_id e := None))
                else (Some False, permanent_failure E webhook e err A2 perm))))"

section \<open>One pass\<close>

fun drain_all ::
  "('w, 'k, 'dt, 'nd) app_env \<Rightarrow> string option \<Rightarrow> (string \<rightharpoonup> profile) \<Rightarrow> entry list \<Rightarrow>
     nat \<Rightarrow> nat \<Rightarrow> 'w app \<Rightarrow> permanent_failures \<Rightarrow>
     drain_summary option \<times> 'w app \<times> permanent_failures" where
  "drain_all E webhook profiles [] d f A perm =
     (Some \<lparr>sum_delivered = d, sum_failed = f\<rparr>, A, perm)"
| "drain_all E webhook profiles (e # es) d f A perm =
     (case drain_one E webhook profiles e A perm of
        (None, A1, perm1) \<Rightarrow> (None, A1, perm1)
      | (Some True, A1, perm1) \<Rightarrow> drain_all E webhook profiles es (d + 1) f A1 perm1
      | (Some False, A1, perm1) \<Rightarrow> drain_all E webhook profiles es d (f + 1) A1 perm1)"

definition drain_once_tracking ::
  "('w, 'k, 'dt, 'nd) app_env \<Rightarrow> string option \<Rightarrow> 'w app \<Rightarrow> permanent_failures \<Rightarrow>
     drain_summary option \<times> 'w app \<times> permanent_failures" where
  "drain_once_tracking E webhook A perm =
     (case app_pending E A of
        (Inl e, A1) \<Rightarrow> (Some \<lparr>sum_delivered = 0, sum_failed = 1\<rparr>, A1, perm)
      | (Inr [], A1) \<Rightarrow> (Some \<lparr>sum_delivered = 0, sum_failed = 0\<rparr>, A1, perm)
      | (Inr es, A1) \<Rightarrow>
          (case drain_all E webhook (app_profiles A1) es 0 0 A1 perm of
             (None, A2, perm2) \<Rightarrow> (None, A2, perm2)
           | (Some s, A2, perm2) \<Rightarrow>
               (Some s,
                on_metrics (count_failed (of_nat (sum_failed s)))
                  (on_metrics (count_delivered (of_nat (sum_delivered s))) A2), perm2)))"

definition drain_once_detailed ::
  "('w, 'k, 'dt, 'nd) app_env \<Rightarrow> 'w app \<Rightarrow> drain_summary option \<times> 'w app" where
  "drain_once_detailed E A =
     (case drain_once_tracking E None A Map.empty of (s, A1, _) \<Rightarrow> (s, A1))"

definition drain_once ::
  "('w, 'k, 'dt, 'nd) app_env \<Rightarrow> 'w app \<Rightarrow> nat option \<times> 'w app" where
  "drain_once E A =
     (case drain_once_detailed E A of (s, A1) \<Rightarrow> (map_option sum_delivered s, A1))"

section \<open>The loop\<close>

definition worker_journal_is_filling ::
  "('w, 'k, 'dt, 'nd) app_env \<Rightarrow> 'w app \<Rightarrow> bool \<times> 'w app" where
  "worker_journal_is_filling E A =
     (case ask (env_append_faults E) A of (F, A1) \<Rightarrow>
        (case app_files A1 (journal_path (env_journal E)) of
           None \<Rightarrow> (False, A1)
         | Some s \<Rightarrow>
             (\<not> stat_fails F \<and> journal_is_filling (length s) (max_bytes (env_journal E)), A1)))"

record worker =
  since_compaction :: nat
  permanent_map :: permanent_failures
  pace :: pacer
  period :: nat

definition backlog_notice :: string where
  "backlog_notice =
     ''deliveries keep failing and the journal is over half its cap; '' @
     ''once it fills, ingest starts refusing events and the sources' '' @
     ''own retries will eventually give up''"

definition maybe_compact ::
  "('w, 'k, 'dt, 'nd) app_env \<Rightarrow> nat \<Rightarrow> 'w app \<Rightarrow> nat \<times> 'w app" where
  "maybe_compact E since A =
     (if COMPACT_AFTER_DELIVERIES \<le> since then
        (case app_compact E A of (Inr kept, A1) \<Rightarrow> (0, A1) | (Inl e, A1) \<Rightarrow> (since, A1))
      else (since, A))"

definition worker_tick ::
  "('w, 'k, 'dt, 'nd) app_env \<Rightarrow> string option \<Rightarrow> 'w app \<Rightarrow> worker \<Rightarrow> ('w app \<times> worker) option" where
  "worker_tick E webhook A W =
     (case drain_once_tracking E webhook A (permanent_map W) of
        (None, A1, _) \<Rightarrow> None
      | (Some s, A1, perm) \<Rightarrow>
          (let st = stalled s;
               (filling, A2) = (if st then worker_journal_is_filling E A1 else (False, A1));
               (next, pacer') = pace_after s (st \<and> filling) (pace W);
               A3 = (if report_backlog next
                     then send_notice E webhook JOURNAL_BACKLOG backlog_notice A2 else A2);
               (since, A4) = maybe_compact E (since_compaction W + sum_delivered s) A3
           in Some (A4, \<lparr>since_compaction = since, permanent_map = perm, pace = pacer',
                         period = wait_secs next\<rparr>)))"

text \<open>What wakes the loop: its ticker, or a change of the shutdown flag with its new value.\<close>

datatype signal = Tick | Changed bool

text \<open>
  The loop over a sequence of signals. \<open>Finished\<close> is the return after the final drain,
  \<open>Running\<close> the state in which more signals are awaited.
\<close>

datatype 'w loop = Running "'w app" worker | Finished "'w app" | Crashed

fun worker_loop ::
  "('w, 'k, 'dt, 'nd) app_env \<Rightarrow> string option \<Rightarrow> signal list \<Rightarrow> 'w app \<Rightarrow> worker \<Rightarrow> 'w loop" where
  "worker_loop E webhook [] A W = Running A W"
| "worker_loop E webhook (Tick # ss) A W =
     (case worker_tick E webhook A W of
        None \<Rightarrow> Crashed
      | Some (A1, W1) \<Rightarrow> worker_loop E webhook ss A1 W1)"
| "worker_loop E webhook (Changed stop # ss) A W =
     (if stop then
        (case drain_once E A of (None, A1) \<Rightarrow> Crashed | (Some n, A1) \<Rightarrow> Finished A1)
      else worker_loop E webhook ss A W)"

definition worker_run ::
  "('w, 'k, 'dt, 'nd) app_env \<Rightarrow> string option \<Rightarrow> signal list \<Rightarrow> 'w app \<Rightarrow> 'w loop" where
  "worker_run E webhook ss A =
     (case drain_once E A of
        (None, A1) \<Rightarrow> Crashed
      | (Some replayed, A1) \<Rightarrow>
          worker_loop E webhook ss A1
            \<lparr>since_compaction = replayed, permanent_map = Map.empty, pace = pacer_new,
             period = POLL_INTERVAL_SECS\<rparr>)"

section \<open>Facts\<close>

lemma record_route_frame:
  "app_files (record_route E e res A) = app_files A"
  "app_profiles (record_route E e res A) = app_profiles A"
  "app_holds E rs (record_route E' e res A) = app_holds E rs A"
  by (auto simp: record_route_def app_holds_def dest: ask_frame split: prod.split)

lemma record_route_bounded:
  "ring_items (app_routes (record_route E e res A)) =
     take (ring_capacity (app_routes A))
       (hd (ring_items (app_routes (record_route E e res A))) # ring_items (app_routes A))
   \<or> ring_capacity (app_routes A) = 0"
  by (cases "ring_capacity (app_routes A)")
    (auto simp: record_route_def ring.items_push dest: ask_frame split: prod.split)

lemma send_notice_frame [simp]:
  "app_files (send_notice E wh opname err A) = app_files A"
  "app_profiles (send_notice E wh opname err A) = app_profiles A"
  by (simp_all add: send_notice_def)

lemma app_holds_cong: "app_files A' = app_files A \<Longrightarrow> app_holds E rs A' = app_holds E rs A"
  by (simp add: app_holds_def)

text \<open>The effect of one entry on the log: at most one marker, and which one.\<close>

definition marks_entry ::
  "('w, 'k, 'dt, 'nd) app_env \<Rightarrow> (string \<rightharpoonup> profile) \<Rightarrow> entry \<Rightarrow> 'w app \<Rightarrow> log_record \<Rightarrow> bool" where
  "marks_entry E profiles e A1 m \<longleftrightarrow>
     (\<exists>p A2. profiles (entry_source e) = Some p \<and>
        ((\<exists>d. app_deliver E e p A1 = (Ok d, A2) \<and> m = Done (entry_id e)) \<or>
         (\<exists>err stamp. app_deliver E e p A1 = (Err err, A2) \<and> \<not> error_is_transient err \<and>
            m = Dead (entry_id e) (set_aside_reason err) stamp)))"

text \<open>The entries a pass gets to, each with the state in which its turn comes.\<close>

fun drain_visits ::
  "('w, 'k, 'dt, 'nd) app_env \<Rightarrow> string option \<Rightarrow> (string \<rightharpoonup> profile) \<Rightarrow> entry list \<Rightarrow> 'w app \<Rightarrow>
     permanent_failures \<Rightarrow> (entry \<times> 'w app) list" where
  "drain_visits E webhook profiles [] A perm = []"
| "drain_visits E webhook profiles (e # es) A perm =
     (e, A) #
     (case drain_one E webhook profiles e A perm of
        (None, _, _) \<Rightarrow> []
      | (Some _, A1, perm1) \<Rightarrow> drain_visits E webhook profiles es A1 perm1)"

lemma permanent_failure_log:
  assumes "app_codec E" "whole_writes E" "app_holds E rs A"
    "permanent_failure E wh e err A perm = (A', perm')"
  shows "app_holds E rs A' \<or> (\<exists>stamp. app_holds E (rs @ [Dead (entry_id e) (set_aside_reason err) stamp]) A')"
proof (cases "PERMANENT_FAILURES_BEFORE_DEAD \<le> failures_seen perm (entry_id e) + 1")
  case False
  with assms(3,4) show ?thesis by (simp add: permanent_failure_def Let_def)
next
  case True
  obtain now A1 where now: "ask (env_now E) A = (now, A1)" by fastforce
  obtain res A2 where m: "app_mark_dead E (entry_id e) (set_aside_reason err) now A1 = (res, A2)"
    by fastforce
  have "app_holds E rs A1"
    using ask_frame [OF now] assms(3) by (simp add: app_holds_def)
  from app_append_holds [OF assms(1,2) this m [unfolded app_append_eqs]]
  have "app_holds E rs A2 \<or> app_holds E (rs @ [Dead (entry_id e) (set_aside_reason err) now]) A2"
    by blast
  moreover have "app_files A' = app_files A2"
    using assms(4) True now m by (auto simp: permanent_failure_def Let_def split: sum.splits)
  ultimately show ?thesis by (auto simp: app_holds_def)
qed

lemma one_mark:
  assumes "app_holds E (rs @ [m]) A \<or> app_holds E rs A" "P m"
  shows "\<exists>ms. app_holds E (rs @ ms) A \<and> length ms \<le> 1 \<and> (\<forall>m \<in> set ms. P m)"
  using assms(1)
proof
  assume "app_holds E (rs @ [m]) A"
  with assms(2) show ?thesis by (intro exI [of _ "[m]"]) simp
next
  assume "app_holds E rs A"
  then show ?thesis by (intro exI [of _ "[]"]) simp
qed

lemma drain_one_log:
  assumes "app_codec E" "whole_writes E" "app_holds E rs A"
    "drain_one E wh profiles e A perm = (r, A', perm')"
  shows "\<exists>ms. app_holds E (rs @ ms) A' \<and> length ms \<le> 1 \<and>
    (\<forall>m \<in> set ms. marks_entry E profiles e A m)"
proof (cases "profiles (entry_source e)")
  case None
  with assms(3,4) show ?thesis by (intro exI [of _ "[]"]) (simp add: drain_one_def)
next
  case (Some p)
  obtain res A1 where d: "app_deliver E e p A = (res, A1)" by fastforce
  have holds: "app_holds E rs A1"
    using assms(3) app_deliver_frame [OF d] by (simp add: app_holds_def)
  show ?thesis
  proof (cases res)
    case Panic
    with assms(4) Some d holds show ?thesis
      by (intro exI [of _ "[]"]) (simp add: drain_one_def)
  next
    case (Ok x)
    obtain res2 A2 where m: "app_mark_done E (entry_id e) (record_route E e (Inr x) A1) = (res2, A2)"
      by fastforce
    have "app_holds E (rs @ [Done (entry_id e)]) A2 \<or> app_holds E rs A2"
      using app_append_holds [OF assms(1,2) _ m [unfolded app_append_eqs]] holds
      by (auto simp: record_route_frame)
    moreover have "A' = A2"
      using assms(4) Some d Ok m by (simp add: drain_one_def)
    moreover have "marks_entry E profiles e A (Done (entry_id e))"
      using Some d Ok by (auto simp: marks_entry_def)
    ultimately show ?thesis
      using one_mark [of E rs _ A2 "marks_entry E profiles e A"] by blast
  next
    case (Err err)
    show ?thesis
    proof (cases "error_is_transient err")
      case True
      with assms(4) Some d Err holds show ?thesis
        by (intro exI [of _ "[]"]) (auto simp: drain_one_def record_route_frame)
    next
      case False
      with assms(4) Some d Err
      have pf: "permanent_failure E wh e err (record_route E e (Inl err) A1) perm = (A', perm')"
        by (simp add: drain_one_def)
      have mark: "marks_entry E profiles e A (Dead (entry_id e) (set_aside_reason err) stamp)"
        for stamp
        using Some d Err False by (auto simp: marks_entry_def)
      have "app_holds E rs A' \<or>
          (\<exists>stamp. app_holds E (rs @ [Dead (entry_id e) (set_aside_reason err) stamp]) A')"
        by (rule permanent_failure_log [OF assms(1,2) _ pf]) (simp add: record_route_frame holds)
      then obtain stamp where
        "app_holds E (rs @ [Dead (entry_id e) (set_aside_reason err) stamp]) A' \<or> app_holds E rs A'"
        by blast
      from one_mark [where P = "marks_entry E profiles e A", OF this mark] show ?thesis .
    qed
  qed
qed

lemma drain_all_log:
  assumes "app_codec E" "whole_writes E"
  shows "app_holds E rs A \<Longrightarrow> drain_all E wh profiles es d f A perm = (r, A', perm') \<Longrightarrow>
    \<exists>ms. app_holds E (rs @ ms) A' \<and> 
      (\<forall>m \<in> set ms. \<exists>(e, B) \<in> set (drain_visits E wh profiles es A perm). marks_entry E profiles e B m)"
proof (induction es arbitrary: rs d f A perm)
  case Nil
  then show ?case by (intro exI [of _ "[]"]) simp
next
  case (Cons e es)
  obtain r1 A1 perm1 where one: "drain_one E wh profiles e A perm = (r1, A1, perm1)"
    by (cases "drain_one E wh profiles e A perm") auto
  obtain ms where ms: "app_holds E (rs @ ms) A1" "\<forall>m \<in> set ms. marks_entry E profiles e A m"
    using drain_one_log [OF assms Cons.prems(1) one] by blast
  show ?case
  proof (cases r1)
    case None
    with Cons.prems(2) one ms show ?thesis by (intro exI [of _ ms]) auto
  next
    case (Some b)
    obtain d' f' where "drain_all E wh profiles es d' f' A1 perm1 = (r, A', perm')"
      using Cons.prems(2) one Some by (cases b) auto
    from Cons.IH [OF ms(1) this] obtain ms' where
      "app_holds E ((rs @ ms) @ ms') A'"
      "\<forall>m \<in> set ms'. \<exists>(e, B) \<in> set (drain_visits E wh profiles es A1 perm1). marks_entry E profiles e B m"
      by blast
    with ms(2) show ?thesis by (intro exI [of _ "ms @ ms'"]) (auto simp: one Some)
  qed
qed

lemma drain_all_count:
  "drain_all E wh profiles es d f A perm = (Some s, A', perm') \<Longrightarrow>
   sum_delivered s + sum_failed s = d + f + length es \<and> d \<le> sum_delivered s \<and> f \<le> sum_failed s"
proof (induction es arbitrary: d f A perm)
  case Nil
  then show ?case by auto
next
  case (Cons e es)
  obtain r1 A1 perm1 where one: "drain_one E wh profiles e A perm = (r1, A1, perm1)"
    by (cases "drain_one E wh profiles e A perm") auto
  show ?case
  proof (cases r1)
    case None
    with Cons.prems one show ?thesis by simp
  next
    case (Some b)
    show ?thesis
      by (cases b) (use Cons.prems one Some Cons.IH in force)+
  qed
qed

text \<open>A pass leaves a log that extends the one it found by markers it had cause to write.\<close>

lemma drain_visits_entries:
  "(e, B) \<in> set (drain_visits E wh profiles es A perm) \<Longrightarrow> e \<in> set es"
proof (induction es arbitrary: A perm)
  case Nil
  then show ?case by simp
next
  case (Cons x es)
  obtain r A1 perm1 where "drain_one E wh profiles x A perm = (r, A1, perm1)"
    by (cases "drain_one E wh profiles x A perm") auto
  with Cons show ?case by (cases r) auto
qed

lemma drain_log:
  assumes "app_codec E" "whole_writes E" "app_holds E rs A"
    "drain_once_tracking E wh A perm = (r, A', perm')"
  shows "\<exists>ms. app_holds E (rs @ ms) A' \<and>
    (\<forall>m \<in> set ms.
       \<exists>(e, B) \<in> set (drain_visits E wh (app_profiles A) (pending rs) (snd (app_pending E A)) perm).
         marks_entry E (app_profiles A) e B m)"
proof -
  obtain p A1 where p: "app_pending E A = (p, A1)" by fastforce
  have files: "app_files A1 = app_files A" "app_profiles A1 = app_profiles A"
    using p by (auto simp: app_pending_def dest!: ask_frame split: prod.splits)
  then have A1: "app_holds E rs A1"
    using assms(3) by (simp add: app_holds_def)
  show ?thesis
  proof (cases "p \<noteq> Inr [] \<and> (\<exists>es. p = Inr es)")
    case False
    then have "A' = A1"
      using assms(4) p by (cases p) (auto simp: drain_once_tracking_def)
    with A1 show ?thesis by (intro exI [of _ "[]"]) simp
  next
    case True
    then obtain e es where es: "p = Inr (e # es)"
      by (metis neq_Nil_conv)
    obtain r2 A2 perm2 where d: "drain_all E wh (app_profiles A1) (e # es) 0 0 A1 perm = (r2, A2, perm2)"
      by (cases "drain_all E wh (app_profiles A1) (e # es) 0 0 A1 perm") auto
    have "app_files A' = app_files A2"
      using assms(4) p es d by (cases r2) (auto simp: drain_once_tracking_def)
    moreover have "pending rs = e # es"
      using app_pending_holds(1) [OF assms(1,3)] p es by auto
    ultimately show ?thesis
      using drain_all_log [OF assms(1,2) A1 d] files by (simp add: app_holds_def p)
  qed
qed

end
