(* ===== verification/Secrets.thy ===== *)
theory Secrets
  imports Errors
begin

text \<open>
  The sealing of the stored tokens (src/core/secrets.rs) and the bearer-token helpers
  (src/core/token.rs).

  The \<open>hex\<close>, \<open>chacha20poly1305\<close>, \<open>sha2\<close> and \<open>subtle\<close> crates are the fields of \<open>crypto\<close>; what the
  code relies on is \<open>crypto_ok\<close>. The bytes the operating system gives for a nonce are an argument of
  \<open>seal\<close>, an error when it refuses.
\<close>

section \<open>The crates\<close>

record crypto =
  hex_encode :: "string \<Rightarrow> string"
  hex_decode :: "string \<Rightarrow> string + string"
  xc_encrypt :: "string \<Rightarrow> string \<Rightarrow> string \<Rightarrow> string option"
  xc_decrypt :: "string \<Rightarrow> string \<Rightarrow> string \<Rightarrow> string option"
  sha256 :: "string \<Rightarrow> string"
  ct_eq :: "string \<Rightarrow> string \<Rightarrow> bool"

text \<open>
  Hex text has no white space and decodes to what was encoded; decryption with a key and a nonce
  undoes encryption with them, and the ciphertext carries a tag; a digest has 32 bytes; the
  constant-time comparison is equality.
\<close>

definition crypto_ok :: "crypto \<Rightarrow> bool" where
  "crypto_ok C \<longleftrightarrow>
     (\<forall>b. hex_decode C (hex_encode C b) = Inr b \<and>
          set (hex_encode C b) \<subseteq> set ''0123456789abcdef'') \<and>
     (\<forall>k n p c. xc_encrypt C k n p = Some c \<longrightarrow> xc_decrypt C k n c = Some p \<and> c \<noteq> []) \<and>
     (\<forall>s. length (sha256 C s) = 32) \<and>
     (\<forall>a b. length a = length b \<longrightarrow> ct_eq C a b = (a = b))"

section \<open>Sealing\<close>

definition KEY_BYTES :: nat where "KEY_BYTES = 32"

definition NONCE_BYTES :: nat where "NONCE_BYTES = 24"

definition key_remedy :: string where
  "key_remedy =
     ''set a '' @ show_nat (KEY_BYTES * 2) @
     ''-character hex key; generate one with `openssl rand -hex '' @ show_nat KEY_BYTES @ ''`''"

definition parse_key :: "crypto \<Rightarrow> string \<Rightarrow> string result" where
  "parse_key C hex_key =
     (case hex_decode C (trim hex_key) of
        Inl e \<Rightarrow> Inl (Config (''the encryption key is not valid hex: '' @ e) key_remedy)
      | Inr b \<Rightarrow>
          if length b = KEY_BYTES then Inr b
          else Inl (Config
            (''the encryption key must be exactly '' @ show_nat KEY_BYTES @ '' bytes'') key_remedy))"

definition seal :: "crypto \<Rightarrow> string + string \<Rightarrow> string \<Rightarrow> string \<Rightarrow> string result" where
  "seal C nonce key plaintext =
     (case nonce of
        Inl e \<Rightarrow>
          Inl (Config (''the OS refused to provide randomness: '' @ e)
                 ''this is a system-level problem; check the entropy source'')
      | Inr n \<Rightarrow>
          (case xc_encrypt C key n plaintext of
             None \<Rightarrow> Inl (Config ''failed to encrypt a token'' ''this is a bug in almanac'')
           | Some c \<Rightarrow> Inr (hex_encode C (n @ c))))"

text \<open>
  \<open>Utf8Error\<close> of the standard library: where the text stops being UTF-8, and how many bytes of it
  are wrong; no number when the text ends too early. The walk is the one of
  \<open>run_utf8_validation\<close>.
\<close>

definition utf8_second :: "nat \<Rightarrow> char \<Rightarrow> bool" where
  "utf8_second b c \<longleftrightarrow> (if b < 224 then cont_byte c else second_ok b c)"

definition utf8_width :: "nat \<Rightarrow> nat" where
  "utf8_width b =
     (if b < 128 then 1 else if b < 194 then 0 else if b < 224 then 2
      else if b < 240 then 3 else if b < 245 then 4 else 0)"

fun utf8_tail :: "nat \<Rightarrow> nat \<Rightarrow> string \<Rightarrow> nat option option" where
  "utf8_tail seen 0 s = None"
| "utf8_tail seen (Suc n) [] = Some None"
| "utf8_tail seen (Suc n) (c # s) =
     (if cont_byte c then utf8_tail (Suc seen) n s else Some (Some seen))"

definition utf8_bad_head :: "string \<Rightarrow> nat option option" where
  "utf8_bad_head s =
     (let b = byte (hd s); w = utf8_width b in
      if w = 0 then Some (Some 1)
      else if w = 1 then None
      else (case tl s of
              [] \<Rightarrow> Some None
            | c # r \<Rightarrow> if utf8_second b c then utf8_tail 2 (w - 2) r else Some (Some 1)))"

function utf8_error :: "nat \<Rightarrow> string \<Rightarrow> (nat \<times> nat option) option" where
  "utf8_error i [] = None"
| "utf8_error i (a # s) =
     (case utf8_bad_head (a # s) of
        Some l \<Rightarrow> Some (i, l)
      | None \<Rightarrow>
          (let w = max 1 (utf8_width (byte a)) in utf8_error (i + w) (drop w (a # s))))"
  by pat_completeness auto
termination by (relation "measure (length \<circ> snd)") auto

definition utf8_error_text :: "nat \<times> nat option \<Rightarrow> string" where
  "utf8_error_text e =
     (case e of
        (i, None) \<Rightarrow> ''incomplete utf-8 byte sequence from index '' @ show_nat i
      | (i, Some n) \<Rightarrow>
          ''invalid utf-8 sequence of '' @ show_nat n @ '' bytes from index '' @ show_nat i)"

definition open_sealed :: "crypto \<Rightarrow> string \<Rightarrow> string \<Rightarrow> string result" where
  "open_sealed C key sealed =
     (case hex_decode C (trim sealed) of
        Inl e \<Rightarrow>
          Inl (Config (''a stored token is not valid hex: '' @ e)
            ''the token store is damaged; restore it from backup or re-issue the token'')
      | Inr envelope \<Rightarrow>
          if length envelope \<le> NONCE_BYTES then
            Inl (Config ''a stored token is too short to contain a nonce and ciphertext''
              ''the token store is damaged; restore it from backup or re-issue the token'')
          else
            (case xc_decrypt C key (take NONCE_BYTES envelope) (drop NONCE_BYTES envelope) of
               None \<Rightarrow>
                 Inl (Config ''a stored token could not be decrypted''
                   (''the encryption key does not match the one the store was written with, or the '' @
                    ''store was modified; check ALMANAC_SECRET_KEY before re-issuing tokens''))
             | Some plaintext \<Rightarrow>
                 (case utf8_error 0 plaintext of
                    Some e \<Rightarrow>
                      Inl (Config
                        (''a decrypted token is not valid UTF-8: '' @ utf8_error_text e)
                        ''the token store is damaged; re-issue the token'')
                  | None \<Rightarrow> Inr plaintext)))"

section \<open>Bearer tokens\<close>

definition hex_byte :: "char \<Rightarrow> string" where
  "hex_byte c = [hex_char (byte c div 16), hex_char (byte c mod 16)]"

definition hash_token :: "crypto \<Rightarrow> string \<Rightarrow> string" where
  "hash_token C token = concat (map hex_byte (sha256 C token))"

definition verify_token :: "crypto \<Rightarrow> string \<Rightarrow> string \<Rightarrow> bool" where
  "verify_token C presented expected_hash =
     (let actual = hash_token C presented in
      if length actual \<noteq> length expected_hash then False else ct_eq C actual expected_hash)"

definition constant_time_eq :: "crypto \<Rightarrow> string \<Rightarrow> string \<Rightarrow> bool" where
  "constant_time_eq C a b = (if length a \<noteq> length b then False else ct_eq C a b)"

definition parse_bearer :: "string \<Rightarrow> string option" where
  "parse_bearer header_value =
     (if \<not> prefix ''Bearer '' header_value then None
      else
        (let rest = trim (drop (length ''Bearer '') header_value) in
         if rest = [] then None else Some rest))"

section \<open>Facts\<close>

text \<open>The walk finds an error exactly in a text that is not UTF-8.\<close>

lemma utf8_tail_None:
  "utf8_tail k n s = None \<longleftrightarrow> n \<le> length s \<and> list_all cont_byte (take n s)"
  by (induction k n s rule: utf8_tail.induct) auto

lemma utf8_width_cases:
  obtains "byte a < 128" "utf8_width (byte a) = 1"
  | "128 \<le> byte a" "byte a < 194" "utf8_width (byte a) = 0"
  | "194 \<le> byte a" "byte a \<le> 223" "utf8_width (byte a) = 2"
  | "224 \<le> byte a" "byte a \<le> 239" "utf8_width (byte a) = 3"
  | "240 \<le> byte a" "byte a \<le> 244" "utf8_width (byte a) = 4"
  | "245 \<le> byte a" "utf8_width (byte a) = 0"
proof -
  consider "byte a < 128" | "128 \<le> byte a \<and> byte a < 194" | "194 \<le> byte a \<and> byte a \<le> 223"
    | "224 \<le> byte a \<and> byte a \<le> 239" | "240 \<le> byte a \<and> byte a \<le> 244" | "245 \<le> byte a"
    by linarith
  then show thesis by cases (use that in \<open>simp_all add: utf8_width_def\<close>)
qed

lemma utf8_valid_head:
  "utf8_valid (a # s) \<longleftrightarrow>
     utf8_bad_head (a # s) = None \<and> utf8_valid (drop (max 1 (utf8_width (byte a))) (a # s))"
proof (cases a rule: utf8_width_cases)
  case 1
  then show ?thesis by (simp add: utf8_valid.simps(2) utf8_bad_head_def)
next
  case 3
  then show ?thesis
    by (cases s) (auto simp: utf8_valid.simps(2) utf8_bad_head_def utf8_second_def)
next
  case 4
  then have "\<not> byte a < 128" "\<not> (194 \<le> byte a \<and> byte a \<le> 223)" "\<not> byte a < 224" by auto
  with 4 show ?thesis
    by (cases s; cases "tl s")
      (auto simp: utf8_valid.simps(2) [of a] utf8_bad_head_def utf8_second_def utf8_tail_None
        eval_nat_numeral)
next
  case 5
  then have "\<not> byte a < 128" "\<not> (194 \<le> byte a \<and> byte a \<le> 223)" "\<not> byte a < 224"
    "\<not> (224 \<le> byte a \<and> byte a \<le> 239)" by auto
  with 5 show ?thesis
    by (cases s; cases "tl s"; cases "tl (tl s)")
      (auto simp: utf8_valid.simps(2) [of a] utf8_bad_head_def utf8_second_def utf8_tail_None
        eval_nat_numeral)
qed (auto simp: utf8_valid.simps(2) utf8_bad_head_def split: list.splits)

lemma utf8_error_None: "utf8_error i s = None \<longleftrightarrow> utf8_valid s"
proof (induction i s rule: utf8_error.induct)
  case (1 i)
  then show ?case by simp
next
  case (2 i a s)
  show ?case
  proof (cases "utf8_bad_head (a # s)")
    case None
    then have "utf8_error i (a # s)
        = utf8_error (i + max 1 (utf8_width (byte a))) (drop (max 1 (utf8_width (byte a))) (a # s))"
      by (simp add: Let_def)
    with 2 [OF None refl] None show ?thesis by (simp only: utf8_valid_head [of a s]) simp
  next
    case (Some l)
    then show ?thesis by (simp add: utf8_valid_head [of a s])
  qed
qed

declare utf8_error.simps(2) [simp del]

lemma hex_text_trims:
  assumes "set s \<subseteq> set ''0123456789abcdef''"
  shows "trim s = s"
proof (cases s rule: rev_cases)
  case Nil
  then show ?thesis by (simp add: trim_def trim_start_def trim_end_def)
next
  case (snoc t c)
  have hex: "byte d < 128 \<and> \<not> ws1 d" if "d \<in> set s" for d
  proof -
    from that assms have "d \<in> set ''0123456789abcdef''" by blast
    then show ?thesis by (auto simp: byte_def ws1_def)
  qed
  then have "trim_start s = s"
    by (intro strip_ws_no_change) (auto simp: snoc hd_append)
  with hex [of c] show ?thesis by (simp add: trim_def snoc trim_end_stop)
qed

lemma hex_encode_trims [simp]: "crypto_ok C \<Longrightarrow> trim (hex_encode C b) = hex_encode C b"
  by (rule hex_text_trims) (simp add: crypto_ok_def)

lemma constant_time_eq_iff [simp]: "crypto_ok C \<Longrightarrow> constant_time_eq C a b \<longleftrightarrow> a = b"
  by (auto simp: constant_time_eq_def crypto_ok_def)

text \<open>
  The contract of sealing, over any state \<open>C\<close> of the crates: what opens is what was sealed, so
  equal sealed texts hold equal tokens.
\<close>

locale sealed_box =
  fixes fit :: "'c \<Rightarrow> 'n \<Rightarrow> string \<Rightarrow> bool"
    and shut :: "'c \<Rightarrow> 'n \<Rightarrow> string \<Rightarrow> string \<Rightarrow> string result"
    and unshut :: "'c \<Rightarrow> string \<Rightarrow> string \<Rightarrow> string result"
  assumes opens: "fit C n p \<Longrightarrow> shut C n k p = Inr s \<Longrightarrow> unshut C k s = Inr p"
begin

lemma sealed_inj:
  assumes "fit C n p" "fit C n' p'" "shut C n k p = Inr s" "shut C n' k p' = Inr s"
  shows "p = p'"
  using opens [OF assms(1,3)] opens [OF assms(2,4)] by simp

end

text \<open>Sealing fits when the crates behave, the nonce is whole and the token is text.\<close>

definition sealable :: "crypto \<Rightarrow> string + string \<Rightarrow> string \<Rightarrow> bool" where
  "sealable C nonce p \<longleftrightarrow>
     crypto_ok C \<and> utf8_valid p \<and> (\<forall>n. nonce = Inr n \<longrightarrow> length n = NONCE_BYTES)"

interpretation box: sealed_box sealable seal open_sealed
proof
  fix C n p k s
  assume fit: "sealable C n p" and shut: "seal C n k p = Inr s"
  from shut obtain b c where n: "n = Inr b" and c: "xc_encrypt C k b p = Some c"
    and s: "s = hex_encode C (b @ c)"
    by (auto simp: seal_def split: sum.splits option.splits)
  from fit n c have "length b = NONCE_BYTES" "xc_decrypt C k b c = Some p" "c \<noteq> []"
    by (auto simp: sealable_def crypto_ok_def)
  with fit show "open_sealed C k s = Inr p"
    by (auto simp: open_sealed_def s sealable_def utf8_error_None [THEN iffD2])
      (auto simp: crypto_ok_def utf8_error_None [THEN iffD2])
qed

text \<open>What opens, exactly; in particular a text that was not produced under this key does not.\<close>

lemma open_sealed_iff:
  "open_sealed C k s = Inr p \<longleftrightarrow>
     (\<exists>n c. hex_decode C (trim s) = Inr (n @ c) \<and> length n = NONCE_BYTES \<and> c \<noteq> [] \<and>
        xc_decrypt C k n c = Some p \<and> utf8_valid p)" (is "?l = ?r")
proof
  assume ?l
  then obtain e where "hex_decode C (trim s) = Inr e" "NONCE_BYTES < length e"
    "xc_decrypt C k (take NONCE_BYTES e) (drop NONCE_BYTES e) = Some p" "utf8_valid p"
    by (auto simp: open_sealed_def utf8_error_None [of 0, symmetric]
        split: sum.splits option.splits if_splits)
  then show ?r by (intro exI [of _ "take NONCE_BYTES e"] exI [of _ "drop NONCE_BYTES e"]) simp
next
  assume ?r
  then show ?l by (auto simp: open_sealed_def utf8_error_None [THEN iffD2])
qed

lemma open_sealed_remedy:
  "open_sealed C k s = Inl e \<Longrightarrow> \<not> error_is_transient e \<and> remedy e \<noteq> []"
  by (auto simp: open_sealed_def split: sum.splits option.splits if_splits)

text \<open>A key is accepted exactly when its trimmed text is the hex of 32 bytes.\<close>

lemma parse_key_iff:
  "parse_key C s = Inr k \<longleftrightarrow> hex_decode C (trim s) = Inr k \<and> length k = KEY_BYTES"
  by (auto simp: parse_key_def split: sum.splits)

text \<open>The hash of a token is 64 characters, and verifying compares against exactly that.\<close>

lemma hash_token_length: "crypto_ok C \<Longrightarrow> length (hash_token C t) = 64"
  by (simp add: hash_token_def crypto_ok_def length_concat hex_byte_def comp_def
      sum_list_triv)

lemma verify_token_iff: "crypto_ok C \<Longrightarrow> verify_token C t h \<longleftrightarrow> h = hash_token C t"
  by (auto simp: verify_token_def crypto_ok_def Let_def)

lemma parse_bearer_Some:
  "parse_bearer h = Some t \<longleftrightarrow> t \<noteq> [] \<and> (\<exists>r. h = ''Bearer '' @ r \<and> t = trim r)"
  by (auto simp: parse_bearer_def Let_def prefix_def)

end
