(* ===== verification/Ordered_Map.thy ===== *)
theory Ordered_Map
  imports Prelude "HOL-Library.List_Lexorder" "HOL-Library.Char_ord"
begin

text \<open>
  \<open>BTreeMap\<close> of the standard library: an association list in strictly ascending key order, which is
  the order the code iterates, prints and takes its first entry in. \<open>map_of\<close> is \<open>get\<close>.

  The contract \<open>ordered_map\<close> is what the stores rely on; the canonical form lemma is what makes
  "reads back the same store" an equation.
\<close>

type_synonym ('k, 'v) btree = "('k \<times> 'v) list"

fun bt_insert :: "'k::linorder \<Rightarrow> 'v \<Rightarrow> ('k, 'v) btree \<Rightarrow> ('k, 'v) btree" where
  "bt_insert k v [] = [(k, v)]"
| "bt_insert k v ((x, y) # m) =
     (if k < x then (k, v) # (x, y) # m
      else if k = x then (k, v) # m
      else (x, y) # bt_insert k v m)"

definition bt_remove :: "'k \<Rightarrow> ('k, 'v) btree \<Rightarrow> ('k, 'v) btree" where
  "bt_remove k m = filter (\<lambda>kv. fst kv \<noteq> k) m"

definition bt_retain :: "('k \<Rightarrow> 'v \<Rightarrow> bool) \<Rightarrow> ('k, 'v) btree \<Rightarrow> ('k, 'v) btree" where
  "bt_retain P m = filter (\<lambda>(k, v). P k v) m"

text \<open>Collecting pairs, as the deserialiser does: a later pair replaces an earlier one.\<close>

fun bt_collect :: "('k::linorder \<times> 'v) list \<Rightarrow> ('k, 'v) btree \<Rightarrow> ('k, 'v) btree" where
  "bt_collect [] m = m"
| "bt_collect ((k, v) # kvs) m = bt_collect kvs (bt_insert k v m)"

definition bt_ok :: "('k::linorder, 'v) btree \<Rightarrow> bool" where
  "bt_ok m \<longleftrightarrow> sorted_wrt (<) (map fst m)"

locale ordered_map =
  fixes wf :: "'m \<Rightarrow> bool"
    and get :: "'m \<Rightarrow> 'k \<Rightarrow> 'v option"
    and put :: "'k \<Rightarrow> 'v \<Rightarrow> 'm \<Rightarrow> 'm"
    and del :: "'k \<Rightarrow> 'm \<Rightarrow> 'm"
  assumes get_put: "get (put k v m) = (get m)(k \<mapsto> v)"
    and get_del: "wf m \<Longrightarrow> get (del k m) = (get m)(k := None)"
    and wf_put: "wf m \<Longrightarrow> wf (put k v m)"
    and wf_del: "wf m \<Longrightarrow> wf (del k m)"
    and canonical: "wf m \<Longrightarrow> wf m' \<Longrightarrow> get m = get m' \<Longrightarrow> m = m'"
begin

lemma put_same: "wf m \<Longrightarrow> get m k = Some v \<Longrightarrow> put k v m = m"
  by (rule canonical) (auto simp: wf_put get_put)

lemma put_twice: "wf m \<Longrightarrow> put k v (put k w m) = put k v m"
  by (rule canonical) (simp_all add: wf_put get_put)

lemma del_absent: "wf m \<Longrightarrow> get m k = None \<Longrightarrow> del k m = m"
  by (rule canonical) (auto simp: wf_del get_del)

lemma del_put: "wf m \<Longrightarrow> get m k = None \<Longrightarrow> del k (put k v m) = m"
  by (rule canonical) (auto simp: wf_del wf_put get_del get_put)

lemma put_commute: "wf m \<Longrightarrow> k \<noteq> k' \<Longrightarrow> put k v (put k' v' m) = put k' v' (put k v m)"
  by (rule canonical) (auto simp: wf_put get_put fun_upd_twist)

end

lemma bt_insert_get: "map_of (bt_insert k v m) = (map_of m)(k \<mapsto> v)"
  by (induction k v m rule: bt_insert.induct) (auto simp: fun_eq_iff)

lemma bt_insert_keys: "fst ` set (bt_insert k v m) = insert k (fst ` set m)"
  by (induction k v m rule: bt_insert.induct) auto

lemma bt_insert_ok: "bt_ok m \<Longrightarrow> bt_ok (bt_insert k v m)"
proof (induction k v m rule: bt_insert.induct)
  case (1 k v)
  then show ?case by (simp add: bt_ok_def)
next
  case (2 k v x y m)
  have keys: "set (map fst (bt_insert k v m)) = insert k (set (map fst m))"
    by (simp add: bt_insert_keys)
  from 2 show ?case
    by (auto simp: bt_ok_def keys [simplified] dest: order.strict_trans)
qed

lemma bt_filter_ok: "bt_ok m \<Longrightarrow> bt_ok (filter P m)"
  unfolding bt_ok_def by (induction m) auto

lemma bt_remove_get: "map_of (bt_remove k m) = (map_of m)(k := None)"
  by (induction m) (auto simp: bt_remove_def fun_eq_iff)

lemma bt_remove_ok: "bt_ok m \<Longrightarrow> bt_ok (bt_remove k m)"
  by (simp add: bt_remove_def bt_filter_ok)

lemma bt_distinct: "bt_ok m \<Longrightarrow> distinct (map fst m)"
  by (simp add: bt_ok_def strict_sorted_iff)

lemma bt_canonical:
  assumes "bt_ok m" "bt_ok m'" "map_of m = map_of m'"
  shows "m = m'"
proof (rule map_sorted_distinct_set_unique [where f = fst])
  have d: "distinct (map fst m)" "distinct (map fst m')"
    using assms(1,2) bt_distinct by blast+
  then show "distinct (map fst m)" "distinct (map fst m')" .
  show "set m = set m'"
    using assms(3) d by (metis graph_map_of_if_distinct_dom)
  show "inj_on fst (set m \<union> set m')"
    using \<open>set m = set m'\<close> d by (simp add: distinct_map)
qed (use assms in \<open>simp_all add: bt_ok_def strict_sorted_iff\<close>)

interpretation bt: ordered_map bt_ok map_of bt_insert bt_remove
  by unfold_locales
    (simp_all add: bt_insert_get bt_remove_get bt_insert_ok bt_remove_ok bt_canonical)

lemma bt_retain_get:
  assumes "bt_ok m"
  shows "map_of (bt_retain P m) k = (case map_of m k of None \<Rightarrow> None | Some v \<Rightarrow> if P k v then Some v else None)"
  using bt_distinct [OF assms] unfolding bt_retain_def
  by (induction m) (auto split: option.splits simp: image_iff)

lemma bt_retain_ok: "bt_ok m \<Longrightarrow> bt_ok (bt_retain P m)"
  by (simp add: bt_retain_def bt_filter_ok)

lemma bt_collect_append: "bt_ok (m @ kvs) \<Longrightarrow> bt_collect kvs m = m @ kvs"
proof (induction kvs m rule: bt_collect.induct)
  case (1 m)
  then show ?case by simp
next
  case (2 k v kvs m)
  have "bt_insert k v m = m @ [(k, v)]"
    using 2(2) by (induction m) (auto simp: bt_ok_def)
  with 2 show ?case by simp
qed

text \<open>Reading the pairs of a map back gives the map.\<close>

lemma bt_collect_id: "bt_ok m \<Longrightarrow> bt_collect m [] = m"
  using bt_collect_append [of "[]" m] by simp

lemma bt_collect_ok: "bt_ok m \<Longrightarrow> bt_ok (bt_collect kvs m)"
  by (induction kvs m rule: bt_collect.induct) (simp_all add: bt_insert_ok)

lemma bt_nil [simp]: "bt_ok []"
  by (simp add: bt_ok_def)

end
