(* ===== verification/Journal_Codec.thy ===== *)
theory Journal_Codec
  imports Journal_Disk
begin

text \<open>
  The JSON of a journal record, as the derive attributes of src/core/journal.rs fix it, and a
  concrete text form for it. The text form stands in for \<open>serde_json\<close> where a theorem about the
  journal is applied at a concrete file: it shows that \<open>record_codec\<close> can be met.
\<close>

section \<open>The JSON of a record\<close>

definition entry_fields :: "entry \<Rightarrow> (string \<times> json) list" where
  "entry_fields e =
     [(''id'', JStr (entry_id e)), (''source_id'', JStr (entry_source e)),
      (''received_at'', JStr (received_at e)), (''payload'', payload e)]
     @ skip_none ''idempotency_key'' JStr (idempotency_key e)"

fun record_to_json :: "log_record \<Rightarrow> json" where
  "record_to_json (EntryRec e) = JObj ((''kind'', JStr ''entry'') # entry_fields e)"
| "record_to_json (Done i) = JObj [(''kind'', JStr ''done''), (''id'', JStr i)]"
| "record_to_json (Dead i why at) =
     JObj [(''kind'', JStr ''dead''), (''id'', JStr i), (''reason'', JStr why), (''at'', JStr at)]"

definition entry_of_fields :: "(string \<times> json) list \<Rightarrow> entry option" where
  "entry_of_fields kvs =
     Option.bind (field de_string ''id'' kvs) (\<lambda>i.
     Option.bind (field de_string ''source_id'' kvs) (\<lambda>s.
     Option.bind (field de_string ''received_at'' kvs) (\<lambda>t.
     Option.bind (field Some ''payload'' kvs) (\<lambda>p.
     Option.bind (field_or None (de_opt de_string) ''idempotency_key'' kvs) (\<lambda>k.
     Some \<lparr>entry_id = i, entry_source = s, received_at = t, payload = p,
           idempotency_key = k\<rparr>)))))"

definition record_of_fields :: "(string \<times> json) list \<Rightarrow> log_record option" where
  "record_of_fields kvs =
     Option.bind (field de_string ''kind'' kvs) (\<lambda>kind.
     if kind = ''entry'' then map_option EntryRec (entry_of_fields kvs)
     else if kind = ''done'' then map_option Done (field de_string ''id'' kvs)
     else if kind = ''dead'' then
       Option.bind (field de_string ''id'' kvs) (\<lambda>i.
       Option.bind (field de_string ''reason'' kvs) (\<lambda>why.
       Option.bind (field de_string ''at'' kvs) (\<lambda>at. Some (Dead i why at))))
     else None)"

fun record_of_json :: "json \<Rightarrow> log_record option" where
  "record_of_json (JObj kvs) = record_of_fields kvs"
| "record_of_json v = None"

lemma record_roundtrip_aux: "record_of_json (record_to_json r) = Some r"
proof (cases r)
  case (EntryRec e)
  then show ?thesis
    by (cases "idempotency_key e")
      (simp_all add: record_of_fields_def entry_of_fields_def entry_fields_def field_unfold
        field_or_def)
qed (simp_all add: record_of_fields_def field_unfold)

section \<open>A concrete text form\<close>

text \<open>
  Numbers are unary with a terminator, strings and containers carry their length, and a record ends
  in a character used nowhere else.
\<close>

definition put_nat :: "nat \<Rightarrow> string" where
  "put_nat n = replicate n CHR ''a'' @ ''b''"

fun get_nat :: "string \<Rightarrow> (nat \<times> string) option" where
  "get_nat [] = None"
| "get_nat (c # s) =
     (if c = CHR ''b'' then Some (0, s)
      else if c = CHR ''a'' then map_option (\<lambda>(n, r). (Suc n, r)) (get_nat s)
      else None)"

fun get_many :: "(string \<Rightarrow> ('a \<times> string) option) \<Rightarrow> nat \<Rightarrow> string \<Rightarrow> ('a list \<times> string) option" where
  "get_many g 0 s = Some ([], s)"
| "get_many g (Suc n) s =
     (case g s of
        None \<Rightarrow> None
      | Some (x, s1) \<Rightarrow> map_option (\<lambda>(xs, s2). (x # xs, s2)) (get_many g n s1))"

definition put_text :: "string \<Rightarrow> string" where
  "put_text s = put_nat (length s) @ concat (map (\<lambda>c. put_nat (byte c)) s)"

definition get_text :: "string \<Rightarrow> (string \<times> string) option" where
  "get_text s =
     (case get_nat s of
        None \<Rightarrow> None
      | Some (n, s1) \<Rightarrow>
          map_option (\<lambda>(xs, s2). (map char_of xs, s2)) (get_many get_nat n s1))"

fun put_json :: "json \<Rightarrow> string" where
  "put_json JNull = put_nat 0"
| "put_json (JBool b) = put_nat 1 @ put_nat (if b then 1 else 0)"
| "put_json (JInt i) = put_nat 2 @ put_nat (if 0 \<le> i then 1 else 0) @ put_nat (nat \<bar>i\<bar>)"
| "put_json (JFloat s) = put_nat 3 @ put_text s"
| "put_json (JStr s) = put_nat 4 @ put_text s"
| "put_json (JArr vs) = put_nat 5 @ put_nat (length vs) @ concat (map put_json vs)"
| "put_json (JObj kvs) =
     put_nat 6 @ put_nat (length kvs) @ concat (map (\<lambda>(k, v). put_text k @ put_json v) kvs)"

definition get_member ::
  "(string \<Rightarrow> (json \<times> string) option) \<Rightarrow> string \<Rightarrow> ((string \<times> json) \<times> string) option" where
  "get_member g s =
     (case get_text s of
        None \<Rightarrow> None
      | Some (k, s1) \<Rightarrow> map_option (\<lambda>(v, s2). ((k, v), s2)) (g s1))"

fun get_json :: "nat \<Rightarrow> string \<Rightarrow> (json \<times> string) option" where
  "get_json 0 s = None"
| "get_json (Suc f) s =
     (case get_nat s of
        None \<Rightarrow> None
      | Some (tag, s1) \<Rightarrow>
          if tag = 0 then Some (JNull, s1)
          else if tag = 1 then map_option (\<lambda>(n, r). (JBool (n = 1), r)) (get_nat s1)
          else if tag = 2 then
            (case get_nat s1 of
               None \<Rightarrow> None
             | Some (sign, s2) \<Rightarrow>
                 map_option (\<lambda>(n, r). (JInt (if sign = 1 then int n else - int n), r)) (get_nat s2))
          else if tag = 3 then map_option (\<lambda>(x, r). (JFloat x, r)) (get_text s1)
          else if tag = 4 then map_option (\<lambda>(x, r). (JStr x, r)) (get_text s1)
          else
            (case get_nat s1 of
               None \<Rightarrow> None
             | Some (n, s2) \<Rightarrow>
                 if tag = 5 then
                   map_option (\<lambda>(xs, r). (JArr xs, r)) (get_many (get_json f) n s2)
                 else if tag = 6 then
                   map_option (\<lambda>(xs, r). (JObj xs, r))
                     (get_many (get_member (get_json f)) n s2)
                 else None))"

definition demo_enc :: encoder where
  "demo_enc r = Inr (put_json (record_to_json r) @ ''c'')"

definition demo_dec :: decoder where
  "demo_dec t =
     (if t \<noteq> [] \<and> last t = CHR ''c'' then
        (case get_json (length t) (butlast t) of
           Some (v, []) \<Rightarrow>
             (case record_of_json v of Some r \<Rightarrow> Inr r | None \<Rightarrow> Inl ''not a record'')
         | _ \<Rightarrow> Inl ''trailing characters'')
      else Inl ''EOF while parsing an object'')"

subsection \<open>It meets the contract\<close>

lemma get_put_nat [simp]: "get_nat (put_nat n @ s) = Some (n, s)"
  by (induction n) (simp_all add: put_nat_def)

lemma get_put_many:
  "(\<And>x s. x \<in> set xs \<Longrightarrow> g (p x @ s) = Some (h x, s)) \<Longrightarrow>
   get_many g (length xs) (concat (map p xs) @ s) = Some (map h xs, s)"
  by (induction xs) auto

lemma get_put_text [simp]: "get_text (put_text t @ s) = Some (t, s)"
proof -
  have "get_many get_nat (length t) (concat (map (\<lambda>c. put_nat (byte c)) t) @ s)
      = Some (map byte t, s)"
    by (rule get_put_many) simp
  then show ?thesis
    by (simp add: put_text_def get_text_def byte_def comp_def)
qed

lemma length_concat_member: "x \<in> set xs \<Longrightarrow> length (p x) \<le> length (concat (map p xs))"
  by (induction xs) auto

lemma put_nat_length [simp]: "length (put_nat n) = Suc n"
  by (simp add: put_nat_def)

lemma get_put_json:
  "length (put_json v) \<le> f \<Longrightarrow> get_json f (put_json v @ s) = Some (v, s)"
proof (induction v arbitrary: f s)
  case (JArr vs)
  then obtain f' where f: "f = Suc f'" by (cases f) auto
  have "length (put_json x) \<le> f'" if "x \<in> set vs" for x
    using length_concat_member [OF that, of put_json] JArr.prems by (simp add: f)
  then have "get_many (get_json f') (length vs) (concat (map put_json vs) @ s)
      = Some (map (\<lambda>x. x) vs, s)"
    by (intro get_put_many) (simp add: JArr.IH)
  then show ?case by (simp add: f)
next
  case (JObj kvs)
  then obtain f' where f: "f = Suc f'" by (cases f) auto
  let ?p = "\<lambda>(k, v). put_text k @ put_json v"
  have "length (put_json (snd x)) \<le> f'" if "x \<in> set kvs" for x
    using length_concat_member [OF that, of ?p] JObj.prems by (cases x) (simp add: f)
  then have "get_member (get_json f') (?p x @ r) = Some (x, r)" if "x \<in> set kvs" for x r
    using that JObj.IH [OF that, of "snd x"] by (cases x) (fastforce simp: get_member_def)
  then have "get_many (get_member (get_json f')) (length kvs) (concat (map ?p kvs) @ s)
      = Some (map (\<lambda>x. x) kvs, s)"
    by (intro get_put_many) simp
  then show ?case by (simp add: f)
next
  case JNull
  then show ?case by (cases f) auto
next
  case (JBool b)
  then show ?case by (cases f) auto
next
  case (JInt i)
  then show ?case by (cases f) auto
next
  case (JFloat t)
  then show ?case by (cases f) auto
next
  case (JStr t)
  then show ?case by (cases f) auto
qed

lemma put_json_chars: "set (put_json v) \<subseteq> {CHR ''a'', CHR ''b''}" "put_json v \<noteq> []"
proof -
  have n: "set (put_nat n) \<subseteq> {CHR ''a'', CHR ''b''}" for n
    by (auto simp: put_nat_def)
  then have t: "set (put_text s) \<subseteq> {CHR ''a'', CHR ''b''}" for s
    by (auto simp: put_text_def)
  show "set (put_json v) \<subseteq> {CHR ''a'', CHR ''b''}"
    by (induction v) (use n t in fastforce)+
  show "put_json v \<noteq> []"
    by (cases v) (simp_all add: put_nat_def)
qed

lemma ascii_valid: "(\<And>c. c \<in> set t \<Longrightarrow> byte c < 128) \<Longrightarrow> utf8_valid t"
  by (induction t) (simp_all add: utf8_valid.simps(2))

lemma put_record_chars:
  assumes "c \<in> set (put_json v @ ''c'')"
  shows "byte c < 128 \<and> \<not> ws1 c"
proof -
  from assms put_json_chars(1) have "c = CHR ''a'' \<or> c = CHR ''b'' \<or> c = CHR ''c''"
    by fastforce
  then show ?thesis by (elim disjE) (simp_all add: byte_def ws1_def)
qed

lemma demo_codec: "record_codec demo_enc demo_dec"
  unfolding record_codec_def
proof (intro allI)
  fix r
  let ?b = "put_json (record_to_json r)" and ?t = "put_json (record_to_json r) @ ''c''"
  have small: "byte c < 128 \<and> \<not> ws1 c" if "c \<in> set ?t" for c
    by (rule put_record_chars [OF that])
  have dec: "demo_dec ?t = Inr r"
    using get_put_json [of "record_to_json r" "length ?t" "[]"]
    by (simp add: demo_dec_def record_roundtrip_aux)
  have start: "trim_start ?t = ?t"
    using put_json_chars(2) [of "record_to_json r"] small
    by (intro strip_ws_no_change) (auto simp: hd_in_set)
  have blank: "\<not> is_blank ?t"
    unfolding is_blank_def trim_def start
    by (subst trim_end_stop) (simp_all add: ws1_def byte_def)
  have cut: "\<exists>e. demo_dec (take k ?t) = Inl e" if "0 < k" "k < length ?t" for k
  proof -
    have front: "take k ?t = take k ?b" using that by simp
    have "CHR ''c'' \<notin> set (take k ?b)"
      using put_json_chars(1) [of "record_to_json r"] by (auto dest: in_set_takeD)
    then have "take k ?b = [] \<or> last (take k ?b) \<noteq> CHR ''c''"
      using last_in_set [of "take k ?b"] by metis
    then show ?thesis
      unfolding front demo_dec_def by auto
  qed
  show "\<exists>t. demo_enc r = Inr t \<and> demo_dec t = Inr r \<and> utf8_valid t \<and> \<not> is_blank t \<and>
      CHR 0x0A \<notin> set t \<and> strip_cr t = t \<and>
      (\<forall>k. 0 < k \<longrightarrow> k < length t \<longrightarrow> (\<exists>e. demo_dec (take k t) = Inl e))"
  proof (intro exI [of _ ?t] conjI)
    show "demo_enc r = Inr ?t" by (simp add: demo_enc_def)
    show "CHR 0x0A \<notin> set ?t" using small [of "CHR 0x0A"] by (auto simp: ws1_def byte_def)
    show "utf8_valid ?t" by (rule ascii_valid) (simp add: small)
    show "strip_cr ?t = ?t" by (simp add: strip_cr_def)
  qed (use dec blank cut in auto)
qed

end
