(* ===== verification/Token_Store.thy ===== *)
theory Token_Store
  imports Secrets Ordered_Map Files Journal_Codec
begin

text \<open>
  The encrypted token store: src/shell/token_store.rs. The two maps are kept in memory and written
  to one file on every change; the file system is a state of its own, and how a write can fail is
  an argument of the operation.

  \<open>json_text\<close> is \<open>serde_json\<close>'s text layer: printing a value, reading one, and what it says of a
  text it cannot read as a store.
\<close>

section \<open>Records and their JSON\<close>

record json_text =
  js_print :: "json \<Rightarrow> string + string"
  js_parse :: "string \<Rightarrow> json option"
  js_error :: "string \<Rightarrow> string"

record token_record =
  tr_source :: string
  sealed_token :: string
  issued_at :: string

record session_record =
  expires_at_unix :: nat

type_synonym tokens = "(string, token_record) btree"
type_synonym sessions = "(string, session_record) btree"

definition token_record_to_json :: "token_record \<Rightarrow> json" where
  "token_record_to_json r =
     JObj [(''source_id'', JStr (tr_source r)), (''sealed_token'', JStr (sealed_token r)),
           (''issued_at'', JStr (issued_at r))]"

definition session_to_json :: "session_record \<Rightarrow> json" where
  "session_to_json s = JObj [(''expires_at_unix'', JInt (int (expires_at_unix s)))]"

definition btree_to_json :: "('v \<Rightarrow> json) \<Rightarrow> (string, 'v) btree \<Rightarrow> json" where
  "btree_to_json f m = JObj (map (\<lambda>(k, v). (k, f v)) m)"

definition store_to_json :: "tokens \<Rightarrow> sessions \<Rightarrow> json" where
  "store_to_json ts ss =
     JObj [(''tokens'', btree_to_json token_record_to_json ts),
           (''sessions'', btree_to_json session_to_json ss)]"

text \<open>A derived reader refuses a field that is there twice.\<close>

definition struct_members :: "string list \<Rightarrow> json \<Rightarrow> (string \<times> json) list option" where
  "struct_members names v =
     Option.bind (struct_fields names v) (\<lambda>kvs.
     if distinct (filter (\<lambda>k. k \<in> set names) (map fst kvs)) then Some kvs else None)"

definition token_record_of_json :: "json \<Rightarrow> token_record option" where
  "token_record_of_json v =
     Option.bind (struct_members [''source_id'', ''sealed_token'', ''issued_at''] v) (\<lambda>kvs.
     Option.bind (field de_string ''source_id'' kvs) (\<lambda>i.
     Option.bind (field de_string ''sealed_token'' kvs) (\<lambda>s.
     Option.bind (field de_string ''issued_at'' kvs) (\<lambda>t.
     Some \<lparr>tr_source = i, sealed_token = s, issued_at = t\<rparr>))))"

definition session_of_json :: "json \<Rightarrow> session_record option" where
  "session_of_json v =
     Option.bind (struct_members [''expires_at_unix''] v) (\<lambda>kvs.
     map_option (\<lambda>n. \<lparr>expires_at_unix = n\<rparr>) (field de_u64 ''expires_at_unix'' kvs))"

fun de_btree :: "(json \<Rightarrow> 'v option) \<Rightarrow> json \<Rightarrow> (string, 'v) btree option" where
  "de_btree f (JObj kvs) =
     map_option (\<lambda>kvs. bt_collect kvs [])
       (those (map (\<lambda>(k, v). map_option (Pair k) (f v)) kvs))"
| "de_btree f v = None"

definition store_of_json :: "json \<Rightarrow> (tokens \<times> sessions) option" where
  "store_of_json v =
     Option.bind (struct_members [''tokens'', ''sessions''] v) (\<lambda>kvs.
     Option.bind (field_or [] (de_btree token_record_of_json) ''tokens'' kvs) (\<lambda>ts.
     map_option (Pair ts) (field_or [] (de_btree session_of_json) ''sessions'' kvs)))"

section \<open>Reading and writing the file\<close>

record token_store =
  ts_path :: string
  ts_key :: string
  ts_tokens :: tokens
  ts_sessions :: sessions

text \<open>The error of reading the file is an argument; a missing file is an empty store.\<close>

definition read_store_file ::
  "json_text \<Rightarrow> string option \<Rightarrow> string \<Rightarrow> fs \<Rightarrow> (tokens \<times> sessions) result" where
  "read_store_file J fault p fs =
     (let failed = (\<lambda>e. Inl (Config (''failed to read the token store '' @ p @ '': '' @ e)
                               (''check permissions on '' @ p)))
      in case fault of
           Some e \<Rightarrow> failed e
         | None \<Rightarrow>
             (case fs p of
                None \<Rightarrow> Inr ([], [])
              | Some s \<Rightarrow>
                  if \<not> utf8_valid s then failed ''stream did not contain valid UTF-8''
                  else
                    (case Option.bind (js_parse J s) store_of_json of
                       Some m \<Rightarrow> Inr m
                     | None \<Rightarrow>
                         Inl (Config
                           (''failed to parse the token store '' @ p @ '': '' @ js_error J s)
                           (''the store is damaged; restore it from backup, or delete it and '' @
                            ''re-issue every source's token'')))))"

definition with_key_loading ::
  "json_text \<Rightarrow> string option \<Rightarrow> string \<Rightarrow> string \<Rightarrow> fs \<Rightarrow> token_store result" where
  "with_key_loading J fault p key fs =
     bind_result (read_store_file J fault p fs) (\<lambda>(ts, ss).
       Inr \<lparr>ts_path = p, ts_key = key, ts_tokens = ts, ts_sessions = ss\<rparr>)"

definition with_key :: "string \<Rightarrow> string \<Rightarrow> token_store" where
  "with_key p key = \<lparr>ts_path = p, ts_key = key, ts_tokens = [], ts_sessions = []\<rparr>"

definition SECRET_KEY_ENV :: string where "SECRET_KEY_ENV = ''ALMANAC_SECRET_KEY''"

text \<open>\<open>hex_key\<close> is the environment variable, when it is set.\<close>

definition load_store ::
  "crypto \<Rightarrow> json_text \<Rightarrow> string option \<Rightarrow> string option \<Rightarrow> string \<Rightarrow> fs \<Rightarrow> token_store result" where
  "load_store C J fault hex_key p fs =
     bind_result
       (ok_or hex_key
          (Config (SECRET_KEY_ENV @ '' is not set'')
             (''generate one with `openssl rand -hex '' @ show_nat KEY_BYTES @
              ''` and supply it via `latch run --`; it is required whenever a bootstrap token is '' @
              ''configured, and must stay stable or previously issued tokens become unreadable'')))
       (\<lambda>hex_key. bind_result (parse_key C hex_key) (\<lambda>key. with_key_loading J fault p key fs))"

record persist_faults =
  mkdir_fault :: "string option"
  rewrite_fault :: rewrite_faults

definition no_persist_faults :: persist_faults where
  "no_persist_faults = \<lparr>mkdir_fault = None, rewrite_fault = no_rewrite_faults\<rparr>"

definition store_temp :: "string \<Rightarrow> string" where
  "store_temp p = with_extension p ''writing''"

definition store_errors :: "string \<Rightarrow> rewrite_errors" where
  "store_errors p =
     \<lparr>create_error = (\<lambda>e. Config (''failed to create '' @ store_temp p @ '': '' @ e)
                          ''check free disk space and permissions''),
      write_error = (\<lambda>e. Config (''failed to write '' @ store_temp p @ '': '' @ e)
                         ''check free disk space''),
      sync_error = (\<lambda>e. Config (''failed to fsync '' @ store_temp p @ '': '' @ e)
                        ''check disk health''),
      rename_error = (\<lambda>e. Config (''failed to replace '' @ p @ '': '' @ e)
                          (''check permissions on the store's directory''))\<rparr>"

definition store_replace :: "rewrite_faults \<Rightarrow> string \<Rightarrow> string \<Rightarrow> fs \<Rightarrow> unit result \<times> fs" where
  "store_replace F p body fs = replace_via (store_errors p) F (store_temp p) p body fs"

text \<open>The parent directory, when the path names one.\<close>

definition store_dir :: "string \<Rightarrow> string option" where
  "store_dir p = Option.bind (path_parent p) (\<lambda>d. if d = [] then None else Some d)"

definition persist_with ::
  "json_text \<Rightarrow> persist_faults \<Rightarrow> token_store \<Rightarrow> fs \<Rightarrow> unit result \<times> fs" where
  "persist_with J F S fs =
     (case js_print J (store_to_json (ts_tokens S) (ts_sessions S)) of
        Inl e \<Rightarrow>
          (Inl (Config (''failed to serialize the token store: '' @ e) ''this is a bug in almanac''),
           fs)
      | Inr body \<Rightarrow>
          (case (store_dir (ts_path S), mkdir_fault F) of
             (Some d, Some e) \<Rightarrow>
               (Inl (Config (''failed to create '' @ d @ '': '' @ e) (''check permissions on '' @ d)),
                fs)
           | _ \<Rightarrow> store_replace (rewrite_fault F) (ts_path S) body fs))"

section \<open>Tokens\<close>

definition issue ::
  "crypto \<Rightarrow> json_text \<Rightarrow> string + string \<Rightarrow> persist_faults \<Rightarrow> string \<Rightarrow> string \<Rightarrow> string \<Rightarrow>
     token_store \<Rightarrow> fs \<Rightarrow> unit result \<times> token_store \<times> fs" where
  "issue C J nonce F sid token now S fs =
     (case seal C nonce (ts_key S) token of
        Inl e \<Rightarrow> (Inl e, S, fs)
      | Inr sealed \<Rightarrow>
          (let r = \<lparr>tr_source = sid, sealed_token = sealed, issued_at = now\<rparr>;
               S1 = S\<lparr>ts_tokens := bt_insert sid r (ts_tokens S)\<rparr>;
               (res, fs1) = persist_with J F S1 fs
           in (res, S1, fs1)))"

definition revoke ::
  "json_text \<Rightarrow> persist_faults \<Rightarrow> string \<Rightarrow> token_store \<Rightarrow> fs \<Rightarrow>
     bool result \<times> token_store \<times> fs" where
  "revoke J F sid S fs =
     (let existed = (map_of (ts_tokens S) sid \<noteq> None);
          S1 = S\<lparr>ts_tokens := bt_remove sid (ts_tokens S)\<rparr>
      in if existed then
           (case persist_with J F S1 fs of
              (Inl e, fs1) \<Rightarrow> (Inl e, S1, fs1)
            | (Inr _, fs1) \<Rightarrow> (Inr existed, S1, fs1))
         else (Inr existed, S1, fs))"

definition verify :: "crypto \<Rightarrow> string \<Rightarrow> string \<Rightarrow> token_store \<Rightarrow> bool" where
  "verify C sid presented S =
     (case map_of (ts_tokens S) sid of
        None \<Rightarrow> False
      | Some r \<Rightarrow>
          (case open_sealed C (ts_key S) (sealed_token r) of
             Inr actual \<Rightarrow> constant_time_eq C actual presented
           | Inl e \<Rightarrow> False))"

definition reveal :: "crypto \<Rightarrow> string \<Rightarrow> token_store \<Rightarrow> string option result" where
  "reveal C sid S =
     (case map_of (ts_tokens S) sid of
        Some r \<Rightarrow> bind_result (open_sealed C (ts_key S) (sealed_token r)) (\<lambda>t. Inr (Some t))
      | None \<Rightarrow> Inr None)"

definition verify_key_opens_store :: "crypto \<Rightarrow> token_store \<Rightarrow> unit result" where
  "verify_key_opens_store C S =
     (case ts_tokens S of
        [] \<Rightarrow> Inr ()
      | (sid, r) # _ \<Rightarrow>
          (case open_sealed C (ts_key S) (sealed_token r) of
             Inr _ \<Rightarrow> Inr ()
           | Inl _ \<Rightarrow>
               Inl (Config
                 (''the encryption key does not open the existing token store ('' @ ts_path S @
                  '' holds '' @ show_nat (length (ts_tokens S)) @
                  '' record(s), starting with '' @ quoted sid @ '')'')
                 (SECRET_KEY_ENV @
                  '' is not the key this store was written with. Restore the original key (latch has '' @
                  ''an escrow mechanism for exactly this), or delete '' @ ts_path S @
                  '' and re-issue every source's token from the dashboard '' @ em_dash @
                  '' starting with the wrong key would leave every source failing authentication '' @
                  ''against an intact-looking store''))))"

definition list_tokens :: "token_store \<Rightarrow> (string \<times> string) list" where
  "list_tokens S = map (\<lambda>(k, r). (tr_source r, issued_at r)) (ts_tokens S)"

section \<open>Sessions\<close>

definition start_session ::
  "json_text \<Rightarrow> persist_faults \<Rightarrow> string \<Rightarrow> nat \<Rightarrow> nat \<Rightarrow> token_store \<Rightarrow> fs \<Rightarrow>
     unit result \<times> token_store \<times> fs" where
  "start_session J F i expires now S fs =
     (let live = bt_retain (\<lambda>k s. now < expires_at_unix s) (ts_sessions S);
          S1 = S\<lparr>ts_sessions := bt_insert i \<lparr>expires_at_unix = expires\<rparr> live\<rparr>;
          (res, fs1) = persist_with J F S1 fs
      in (res, S1, fs1))"

definition session_is_live :: "crypto \<Rightarrow> string \<Rightarrow> nat \<Rightarrow> token_store \<Rightarrow> bool" where
  "session_is_live C presented now S =
     list_ex (\<lambda>(i, s). now < expires_at_unix s \<and> constant_time_eq C i presented) (ts_sessions S)"

definition end_session ::
  "json_text \<Rightarrow> persist_faults \<Rightarrow> string \<Rightarrow> token_store \<Rightarrow> fs \<Rightarrow>
     unit result \<times> token_store \<times> fs" where
  "end_session J F i S fs =
     (if map_of (ts_sessions S) i = None then (Inr (), S, fs)
      else
        (let S1 = S\<lparr>ts_sessions := bt_remove i (ts_sessions S)\<rparr>;
             (res, fs1) = persist_with J F S1 fs
         in (res, S1, fs1)))"

section \<open>What is written reads back\<close>

text \<open>
  The values \<open>serde_json\<close> writes and reads back unchanged: texts are UTF-8, integers fit 64 bits,
  no key is repeated and there are no fractions.
\<close>

fun json_plain :: "json \<Rightarrow> bool" where
  "json_plain JNull \<longleftrightarrow> True"
| "json_plain (JBool b) \<longleftrightarrow> True"
| "json_plain (JInt i) \<longleftrightarrow> i64_min \<le> i \<and> i < 2 ^ 64"
| "json_plain (JFloat s) \<longleftrightarrow> False"
| "json_plain (JStr s) \<longleftrightarrow> utf8_valid s"
| "json_plain (JArr vs) \<longleftrightarrow> list_all json_plain vs"
| "json_plain (JObj kvs) \<longleftrightarrow>
     distinct (map fst kvs) \<and> list_all (\<lambda>(k, v). utf8_valid k \<and> json_plain v) kvs"

definition json_text_ok :: "json_text \<Rightarrow> bool" where
  "json_text_ok J \<longleftrightarrow>
     (\<forall>v. json_plain v \<longrightarrow>
        (\<exists>t. js_print J v = Inr t \<and> utf8_valid t \<and> js_parse J t = Some v))"

text \<open>The stores the program can hold: sorted maps, every token under its own source, all texts UTF-8.\<close>

definition token_ok :: "string \<times> token_record \<Rightarrow> bool" where
  "token_ok kr \<longleftrightarrow>
     tr_source (snd kr) = fst kr \<and> utf8_valid (fst kr) \<and> utf8_valid (sealed_token (snd kr)) \<and>
     utf8_valid (issued_at (snd kr))"

definition session_ok :: "string \<times> session_record \<Rightarrow> bool" where
  "session_ok ks \<longleftrightarrow> utf8_valid (fst ks) \<and> expires_at_unix (snd ks) < 2 ^ 64"

definition store_ok :: "token_store \<Rightarrow> bool" where
  "store_ok S \<longleftrightarrow>
     bt_ok (ts_tokens S) \<and> bt_ok (ts_sessions S) \<and>
     list_all token_ok (ts_tokens S) \<and> list_all session_ok (ts_sessions S)"

lemma token_record_roundtrip [simp]: "token_record_of_json (token_record_to_json r) = Some r"
  by (simp add: token_record_of_json_def token_record_to_json_def struct_members_def field_unfold)

lemma session_of_to_json [simp]:
  "expires_at_unix s < 2 ^ 64 \<Longrightarrow> session_of_json (session_to_json s) = Some s"
  by (simp add: session_of_json_def session_to_json_def struct_members_def field_unfold)

lemma de_btree_roundtrip:
  assumes "bt_ok m" "\<And>k v. (k, v) \<in> set m \<Longrightarrow> f (g v) = Some v"
  shows "de_btree f (btree_to_json g m) = Some m"
proof -
  have "those (map ((\<lambda>(k, v). map_option (Pair k) (f v)) \<circ> (\<lambda>(k, v). (k, g v))) m)
      = Some (map (\<lambda>kv. kv) m)"
    by (rule those_map_Some) (use assms(2) in \<open>auto split: prod.splits\<close>)
  then show ?thesis by (simp add: btree_to_json_def bt_collect_id [OF assms(1)])
qed

lemma store_json_roundtrip:
  assumes "store_ok S"
  shows "store_of_json (store_to_json (ts_tokens S) (ts_sessions S)) = Some (ts_tokens S, ts_sessions S)"
proof -
  have "de_btree token_record_of_json (btree_to_json token_record_to_json (ts_tokens S)) = Some (ts_tokens S)"
    using assms by (intro de_btree_roundtrip) (simp_all add: store_ok_def)
  moreover have "de_btree session_of_json (btree_to_json session_to_json (ts_sessions S))
      = Some (ts_sessions S)"
    using assms by (intro de_btree_roundtrip) (auto simp: store_ok_def list_all_iff session_ok_def)
  ultimately show ?thesis
    by (simp add: store_of_json_def store_to_json_def struct_members_def field_or_def)
qed

lemma store_literals_valid:
  "utf8_valid ''tokens''" "utf8_valid ''sessions''" "utf8_valid ''source_id''"
  "utf8_valid ''sealed_token''" "utf8_valid ''issued_at''" "utf8_valid ''expires_at_unix''"
  by (simp_all add: utf8_valid.simps(2) byte_def)

lemma token_record_plain: "token_ok (k, r) \<Longrightarrow> json_plain (token_record_to_json r)"
  by (simp add: token_ok_def token_record_to_json_def store_literals_valid)

lemma session_json_plain: "session_ok (k, s) \<Longrightarrow> json_plain (session_to_json s)"
  by (simp add: session_ok_def session_to_json_def store_literals_valid i64_min_def)

lemma btree_json_plain:
  assumes "bt_ok m" "list_all (\<lambda>(k, v). utf8_valid k \<and> json_plain (f v)) m"
  shows "json_plain (btree_to_json f m)"
proof -
  have "fst \<circ> (\<lambda>(k :: string, v). (k, f v)) = fst"
    by auto
  moreover have "list_all (\<lambda>(k, v). utf8_valid k \<and> json_plain v) (map (\<lambda>(k, v). (k, f v)) m)"
    using assms(2) by (induction m) auto
  ultimately show ?thesis
    using bt_distinct [OF assms(1)] by (simp add: btree_to_json_def)
qed

lemma store_json_plain:
  assumes "store_ok S"
  shows "json_plain (store_to_json (ts_tokens S) (ts_sessions S))"
proof -
  have "list_all (\<lambda>(k, v). utf8_valid k \<and> json_plain (token_record_to_json v)) (ts_tokens S)"
    using assms unfolding store_ok_def
    by (metis (mono_tags, lifting) case_prodI2 fst_conv list.pred_mono_strong token_record_plain token_ok_def)
  moreover have "list_all (\<lambda>(k, v). utf8_valid k \<and> json_plain (session_to_json v)) (ts_sessions S)"
    using assms unfolding store_ok_def
    by (metis (mono_tags, lifting) case_prodI2 fst_conv list.pred_mono_strong session_json_plain session_ok_def)
  ultimately have "json_plain (btree_to_json token_record_to_json (ts_tokens S))"
    "json_plain (btree_to_json session_to_json (ts_sessions S))"
    using assms by (simp_all add: btree_json_plain store_ok_def)
  then show ?thesis by (simp add: store_to_json_def store_literals_valid)
qed

text \<open>The file holds what the memory holds.\<close>

definition synced :: "json_text \<Rightarrow> token_store \<Rightarrow> fs \<Rightarrow> bool" where
  "synced J S fs \<longleftrightarrow> read_store_file J None (ts_path S) fs = Inr (ts_tokens S, ts_sessions S)"

lemma synced_load:
  "synced J S fs \<longleftrightarrow> with_key_loading J None (ts_path S) (ts_key S) fs = Inr S"
  by (cases S) (auto simp: synced_def with_key_loading_def outcome_simps)

lemma read_store_cong:
  "fs p = fs' p \<Longrightarrow> read_store_file J fault p fs = read_store_file J fault p fs'"
  unfolding read_store_file_def by (simp only:)

lemma load_cong:
  assumes "fs p = fs' p"
  shows "with_key_loading J fault p key fs = with_key_loading J fault p key fs'"
  unfolding with_key_loading_def read_store_cong [of fs p fs', OF assms] ..

interpretation token_files: atomic_replace store_replace store_temp
  by unfold_locales (auto simp: store_replace_def intro: replace_via_laws)

lemma persist_cases:
  assumes "persist_with J F S fs = (res, fs')" "json_text_ok J" "store_ok S"
  obtains (refused) e where "res = Inl e" "fs' = fs"
  | (written) body where "js_parse J body = Some (store_to_json (ts_tokens S) (ts_sessions S))"
      "utf8_valid body" "store_replace (rewrite_fault F) (ts_path S) body fs = (res, fs')"
proof -
  obtain body where "js_print J (store_to_json (ts_tokens S) (ts_sessions S)) = Inr body"
    and "utf8_valid body" "js_parse J body = Some (store_to_json (ts_tokens S) (ts_sessions S))"
    using assms(2) store_json_plain [OF assms(3)] by (auto simp: json_text_ok_def)
  with assms(1) show thesis
    by (auto simp: persist_with_def split: option.splits intro: refused written)
qed

lemma persisted:
  assumes "persist_with J F S fs = (Inr u, fs')" "json_text_ok J" "store_ok S"
  shows "synced J S fs'"
  using assms
proof (cases rule: persist_cases)
  case (written body)
  then show ?thesis
    using token_files.replaced [of "rewrite_fault F" "ts_path S" body fs u fs'] assms(3)
    by (simp add: synced_def read_store_file_def store_json_roundtrip)
qed simp

lemma not_persisted:
  assumes "persist_with J F S fs = (Inl e, fs')" "json_text_ok J" "store_ok S"
    "store_temp (ts_path S) \<noteq> ts_path S"
  shows "fs' (ts_path S) = fs (ts_path S)"
  using assms(1-3)
proof (cases rule: persist_cases)
  case (written body)
  then show ?thesis using token_files.kept assms(4) by blast
qed simp

lemma persist_old_or_new:
  assumes "persist_with J F S fs = (res, fs')" "json_text_ok J" "store_ok S"
    "store_temp (ts_path S) \<noteq> ts_path S"
  shows "fs' (ts_path S) = fs (ts_path S) \<and> (\<exists>e. res = Inl e) \<or> synced J S fs' \<and> res = Inr ()"
  using assms persisted not_persisted by (cases res) (auto; blast)+

end
