(* ===== verification/Token_Properties.thy ===== *)
theory Token_Properties
  imports Token_Store
begin

text \<open>
  What the token store promises: a run of its operations as a list, the invariant of the memory,
  what the file holds after any run, and which tokens and sessions are accepted after a restart.
\<close>

section \<open>Runs\<close>

datatype store_op =
    Issue "string + string" persist_faults string string string
  | Revoke persist_faults string
  | StartSession persist_faults string nat nat
  | EndSession persist_faults string

fun store_step ::
  "crypto \<Rightarrow> json_text \<Rightarrow> store_op \<Rightarrow> token_store \<Rightarrow> fs \<Rightarrow> bool result \<times> token_store \<times> fs" where
  "store_step C J (Issue nonce F sid token now) S fs =
     (case issue C J nonce F sid token now S fs of
        (r, S1, fs1) \<Rightarrow> (bind_result r (\<lambda>u. Inr True), S1, fs1))"
| "store_step C J (Revoke F sid) S fs = revoke J F sid S fs"
| "store_step C J (StartSession F i expires now) S fs =
     (case start_session J F i expires now S fs of
        (r, S1, fs1) \<Rightarrow> (bind_result r (\<lambda>u. Inr True), S1, fs1))"
| "store_step C J (EndSession F i) S fs =
     (case end_session J F i S fs of
        (r, S1, fs1) \<Rightarrow> (bind_result r (\<lambda>u. Inr (map_of (ts_sessions S) i \<noteq> None)), S1, fs1))"

fun run_store ::
  "crypto \<Rightarrow> json_text \<Rightarrow> store_op list \<Rightarrow> token_store \<Rightarrow> fs \<Rightarrow>
     bool result list \<times> token_store \<times> fs" where
  "run_store C J [] S fs = ([], S, fs)"
| "run_store C J (x # xs) S fs =
     (case store_step C J x S fs of
        (r, S1, fs1) \<Rightarrow> (case run_store C J xs S1 fs1 of (rs, S2, fs2) \<Rightarrow> (r # rs, S2, fs2)))"

text \<open>The memory after a run; it does not depend on the files.\<close>

definition memory_after :: "crypto \<Rightarrow> json_text \<Rightarrow> store_op list \<Rightarrow> token_store \<Rightarrow> token_store" where
  "memory_after C J xs S = fst (snd (run_store C J xs S Map.empty))"

text \<open>What the callers pass: UTF-8 texts, whole nonces, expiries of 64 bits.\<close>

fun op_ok :: "store_op \<Rightarrow> bool" where
  "op_ok (Issue nonce F sid token now) \<longleftrightarrow>
     utf8_valid sid \<and> utf8_valid token \<and> utf8_valid now \<and>
     (\<forall>n. nonce = Inr n \<longrightarrow> length n = NONCE_BYTES)"
| "op_ok (Revoke F sid) \<longleftrightarrow> True"
| "op_ok (StartSession F i expires now) \<longleftrightarrow> utf8_valid i \<and> expires < 2 ^ 64"
| "op_ok (EndSession F i) \<longleftrightarrow> True"

lemma bt_insert_all: "list_all P m \<Longrightarrow> P (k, v) \<Longrightarrow> list_all P (bt_insert k v m)"
  by (induction k v m rule: bt_insert.induct) auto

lemma list_all_filter: "list_all P m \<Longrightarrow> list_all P (filter Q m)"
  by (simp add: list_all_iff)

lemma sealed_is_text:
  assumes "crypto_ok C" "seal C nonce k t = Inr s"
  shows "utf8_valid s"
proof -
  from assms obtain b where "s = hex_encode C b"
    by (auto simp: seal_def split: sum.splits option.splits)
  with assms(1) have "set s \<subseteq> set ''0123456789abcdef''" by (simp add: crypto_ok_def)
  moreover have "byte c < 128" if "c \<in> set ''0123456789abcdef''" for c
    using that by (auto simp: byte_def)
  ultimately show ?thesis by (intro ascii_valid) blast
qed

text \<open>Every operation keeps the invariant of the memory, the path and the key.\<close>

lemma issue_shape:
  assumes "issue C J nonce F sid token now S fs = (r, S1, fs1)"
  obtains (unsealed) e where "r = Inl e" "S1 = S" "fs1 = fs"
  | (sealed) s where "seal C nonce (ts_key S) token = Inr s"
      "S1 = S\<lparr>ts_tokens := bt_insert sid \<lparr>tr_source = sid, sealed_token = s, issued_at = now\<rparr> (ts_tokens S)\<rparr>"
      "persist_with J F S1 fs = (r, fs1)"
  using assms by (auto simp: issue_def Let_def split: sum.splits prod.splits)

lemma revoke_shape:
  assumes "revoke J F sid S fs = (r, S1, fs1)"
  obtains (absent) "map_of (ts_tokens S) sid = None" "r = Inr False"
      "S1 = S\<lparr>ts_tokens := bt_remove sid (ts_tokens S)\<rparr>" "fs1 = fs"
  | (present) r' where "map_of (ts_tokens S) sid \<noteq> None"
      "S1 = S\<lparr>ts_tokens := bt_remove sid (ts_tokens S)\<rparr>"
      "persist_with J F S1 fs = (r', fs1)" "r = bind_result r' (\<lambda>u. Inr True)"
  using assms
  by (cases "map_of (ts_tokens S) sid = None")
    (auto simp: revoke_def Let_def split: sum.splits prod.splits)

lemma end_shape:
  assumes "end_session J F i S fs = (r, S1, fs1)"
  obtains (absent) "map_of (ts_sessions S) i = None" "r = Inr ()" "S1 = S" "fs1 = fs"
  | (present) "map_of (ts_sessions S) i \<noteq> None"
      "S1 = S\<lparr>ts_sessions := bt_remove i (ts_sessions S)\<rparr>"
      "persist_with J F S1 fs = (r, fs1)"
  using assms by (auto simp: end_session_def Let_def split: prod.splits if_splits)

lemma start_shape:
  assumes "start_session J F i expires now S fs = (r, S1, fs1)"
  shows "S1 = S\<lparr>ts_sessions := bt_insert i \<lparr>expires_at_unix = expires\<rparr>
      (bt_retain (\<lambda>k s. now < expires_at_unix s) (ts_sessions S))\<rparr>"
    "persist_with J F S1 fs = (r, fs1)"
  using assms by (auto simp: start_session_def Let_def split: prod.splits)

lemma insert_token_ok:
  assumes "store_ok S" "token_ok (sid, r)"
  shows "store_ok (S\<lparr>ts_tokens := bt_insert sid r (ts_tokens S)\<rparr>)"
  using assms by (simp add: store_ok_def bt.wf_put bt_insert_all)

lemma remove_token_ok: "store_ok S \<Longrightarrow> store_ok (S\<lparr>ts_tokens := bt_remove sid (ts_tokens S)\<rparr>)"
  by (simp add: store_ok_def bt.wf_del bt_remove_def list_all_filter bt_filter_ok)

lemma remove_session_ok: "store_ok S \<Longrightarrow> store_ok (S\<lparr>ts_sessions := bt_remove i (ts_sessions S)\<rparr>)"
  by (simp add: store_ok_def bt.wf_del bt_remove_def list_all_filter bt_filter_ok)

lemma insert_session_ok:
  assumes "store_ok S" "session_ok (i, s)"
  shows "store_ok (S\<lparr>ts_sessions := bt_insert i s (bt_retain P (ts_sessions S))\<rparr>)"
  using assms
  by (simp add: store_ok_def bt.wf_put bt_retain_ok bt_insert_all bt_retain_def list_all_filter
      bt_filter_ok)

lemmas store_ok_updates = insert_token_ok remove_token_ok remove_session_ok insert_session_ok

lemma issue_ok:
  assumes "issue C J nonce F sid token now S fs = (r, S1, fs1)" "crypto_ok C" "store_ok S"
    "utf8_valid sid" "utf8_valid now"
  shows "store_ok S1"
  using assms(1)
proof (cases rule: issue_shape)
  case (sealed s)
  with assms(2-) sealed_is_text show ?thesis
    by (auto simp: token_ok_def intro!: insert_token_ok)
qed (use assms in simp)

lemma store_step_ok:
  assumes "store_step C J x S fs = (r, S1, fs1)" "crypto_ok C" "store_ok S" "op_ok x"
  shows "store_ok S1 \<and> ts_path S1 = ts_path S \<and> ts_key S1 = ts_key S"
proof (cases x)
  case (Issue nonce F sid token now)
  with assms(1) obtain r' where i: "issue C J nonce F sid token now S fs = (r', S1, fs1)"
    by (auto split: prod.splits)
  from issue_ok [OF i assms(2,3)] Issue assms(4) have "store_ok S1" by simp
  with i show ?thesis by (cases rule: issue_shape) auto
next
  case (Revoke F sid)
  with assms(1) have "revoke J F sid S fs = (r, S1, fs1)" by simp
  then show ?thesis by (cases rule: revoke_shape) (auto simp: store_ok_updates assms(3))
next
  case (StartSession F i expires now)
  with assms(1) obtain r' where s: "start_session J F i expires now S fs = (r', S1, fs1)"
    by (auto split: prod.splits)
  from start_shape(1) [OF s] StartSession assms(3,4) show ?thesis
    by (simp add: store_ok_updates session_ok_def)
next
  case (EndSession F i)
  with assms(1) obtain r' where "end_session J F i S fs = (r', S1, fs1)"
    by (auto split: prod.splits)
  then show ?thesis by (cases rule: end_shape) (auto simp: store_ok_updates assms(3))
qed

text \<open>
  One operation and the file: it is what it was, and then the operation failed or found nothing to
  do, or it holds the new memory.
\<close>

lemma persist_step:
  assumes "persist_with J F S1 fs = (res, fs1)" "json_text_ok J" "store_ok S1"
    "ts_path S1 = p" "store_temp p \<noteq> p"
  shows "fs1 p = fs p \<and> (\<exists>e. res = Inl e) \<or> synced J S1 fs1"
  using persist_old_or_new [OF assms(1-3)] assms(4,5) by auto

lemma store_step_file:
  assumes step: "store_step C J x S fs = (r, S1, fs1)" and c: "crypto_ok C" and j: "json_text_ok J"
    and ok: "store_ok S" "op_ok x" and temp: "store_temp (ts_path S) \<noteq> ts_path S"
  shows "fs1 (ts_path S) = fs (ts_path S) \<and> (\<forall>b. r = Inr b \<longrightarrow> \<not> b) \<or> synced J S1 fs1"
proof -
  note ok1 = store_step_ok [OF step c ok]
  note disk = persist_step [OF _ j _ _ temp, where ?S1.0 = S1]
  show ?thesis
  proof (cases x)
    case (Issue nonce F sid token now)
    with step obtain r' where i: "issue C J nonce F sid token now S fs = (r', S1, fs1)"
      and r: "r = bind_result r' (\<lambda>u. Inr True)"
      by (auto split: prod.splits)
    from i show ?thesis by (cases rule: issue_shape) (use disk ok1 r in \<open>auto simp: outcome_simps\<close>)
  next
    case (Revoke F sid)
    with step have "revoke J F sid S fs = (r, S1, fs1)" by simp
    then show ?thesis by (cases rule: revoke_shape) (use disk ok1 in \<open>auto simp: outcome_simps\<close>)
  next
    case (StartSession F i expires now)
    with step obtain r' where s: "start_session J F i expires now S fs = (r', S1, fs1)"
      and r: "r = bind_result r' (\<lambda>u. Inr True)"
      by (auto split: prod.splits)
    from disk [OF start_shape(2) [OF s]] ok1 r show ?thesis by (auto simp: outcome_simps)
  next
    case (EndSession F i)
    with step obtain r' where e: "end_session J F i S fs = (r', S1, fs1)"
      and r: "r = bind_result r' (\<lambda>u. Inr (map_of (ts_sessions S) i \<noteq> None))"
      by (auto split: prod.splits)
    from e show ?thesis by (cases rule: end_shape) (use disk ok1 r in \<open>auto simp: outcome_simps\<close>)
  qed
qed

text \<open>The memory does not look at the files.\<close>

lemma store_step_memory:
  "fst (snd (store_step C J x S fs)) = fst (snd (store_step C J x S fs'))"
  by (cases x)
    (simp_all add: issue_def revoke_def start_session_def end_session_def Let_def
      split: prod.splits sum.splits)

lemma run_store_memory: "fst (snd (run_store C J xs S fs)) = memory_after C J xs S"
  unfolding memory_after_def
proof (induction xs arbitrary: S fs)
  case Nil
  then show ?case by simp
next
  case (Cons x xs)
  have run: "fst (snd (run_store C J (x # xs) S gs))
      = fst (snd (run_store C J xs (fst (snd (store_step C J x S gs))) Map.empty))" for gs
  proof -
    obtain r S1 fs1 where x: "store_step C J x S gs = (r, S1, fs1)" by (metis prod_cases3)
    with Cons [of S1 fs1] show ?thesis by (simp add: split_beta)
  qed
  show ?case
    unfolding run [of fs] run [of Map.empty] store_step_memory [of C J x S fs Map.empty] ..
qed

lemma run_store_snoc:
  "run_store C J (xs @ [x]) S fs =
     (case run_store C J xs S fs of
        (rs, S1, fs1) \<Rightarrow> (case store_step C J x S1 fs1 of (r, S2, fs2) \<Rightarrow> (rs @ [r], S2, fs2)))"
  by (induction xs arbitrary: S fs) (auto split: prod.splits)

lemma run_store_length: "run_store C J xs S fs = (rs, S1, fs1) \<Longrightarrow> length rs = length xs"
  by (induction xs arbitrary: S fs rs S1 fs1) (auto split: prod.splits)

lemma run_store_ok:
  assumes "run_store C J xs S fs = (rs, S1, fs1)" "crypto_ok C" "store_ok S" "list_all op_ok xs"
  shows "store_ok S1 \<and> ts_path S1 = ts_path S \<and> ts_key S1 = ts_key S"
  using assms
proof (induction xs arbitrary: S fs rs)
  case Nil
  then show ?case by simp
next
  case (Cons x xs)
  obtain r T gs where x: "store_step C J x S fs = (r, T, gs)" by (metis prod_cases3)
  obtain rs' where xs: "run_store C J xs T gs = (rs', S1, fs1)"
    using Cons.prems(1) by (auto simp: x split: prod.splits)
  from store_step_ok [OF x] Cons.IH [OF xs] Cons.prems show ?case by simp
qed

section \<open>Tokens and sessions across a restart\<close>

lemma issued:
  assumes "issue C J nonce F sid token now S fs = (Inr u, S', fs')"
  obtains s where "seal C nonce (ts_key S) token = Inr s"
    "S' = S\<lparr>ts_tokens := bt_insert sid \<lparr>tr_source = sid, sealed_token = s, issued_at = now\<rparr> (ts_tokens S)\<rparr>"
    "persist_with J F S' fs = (Inr u, fs')"
  using assms by (cases rule: issue_shape) (auto intro: that)

lemma issued_token_survives_restart_facts:
  assumes "issue C J nonce F sid token now S fs = (Inr u, S', fs')"
    and "crypto_ok C" "json_text_ok J" "store_ok S" "op_ok (Issue nonce F sid token now)"
  shows "with_key_loading J None (ts_path S) (ts_key S) fs' = Inr S'"
    and "verify C sid t S' \<longleftrightarrow> t = token"
    and "reveal C sid S' = Inr (Some token)"
    and "other \<noteq> sid \<Longrightarrow> verify C other t S' = verify C other t S"
proof -
  from assms(1) obtain s where s: "seal C nonce (ts_key S) token = Inr s"
    and S': "S' = S\<lparr>ts_tokens := bt_insert sid \<lparr>tr_source = sid, sealed_token = s, issued_at = now\<rparr> (ts_tokens S)\<rparr>"
    and p: "persist_with J F S' fs = (Inr u, fs')"
    by (rule issued)
  from issue_ok [OF assms(1,2,4)] assms(5) have "store_ok S'" by simp
  from persisted [OF p assms(3) this] show "with_key_loading J None (ts_path S) (ts_key S) fs' = Inr S'"
    by (simp add: synced_load S')
  have "open_sealed C (ts_key S) s = Inr token"
    using assms(2,5) by (intro box.opens [OF _ s]) (simp add: sealable_def)
  then show "verify C sid t S' \<longleftrightarrow> t = token" "reveal C sid S' = Inr (Some token)"
    using assms(2) by (auto simp: verify_def reveal_def S' bt.get_put)
  show "verify C other t S' = verify C other t S" if "other \<noteq> sid"
  proof -
    have "ts_key S' = ts_key S" "map_of (ts_tokens S') other = map_of (ts_tokens S) other"
      using that by (simp_all add: S' bt.get_put)
    then show ?thesis unfolding verify_def by (simp only:)
  qed
qed

lemma revoked_token_stays_out_facts:
  assumes "revoke J F sid S fs = (Inr had, S', fs')"
    and "json_text_ok J" "store_ok S" "synced J S fs"
  shows "with_key_loading J None (ts_path S) (ts_key S) fs' = Inr S'"
    and "\<not> verify C sid t S'"
    and "had \<longleftrightarrow> map_of (ts_tokens S) sid \<noteq> None"
    and "other \<noteq> sid \<Longrightarrow> verify C other t S' = verify C other t S"
proof -
  have S': "S' = S\<lparr>ts_tokens := bt_remove sid (ts_tokens S)\<rparr>"
    using assms(1) by (cases rule: revoke_shape)
  have get: "map_of (ts_tokens S') = (map_of (ts_tokens S))(sid := None)"
    by (simp add: S' bt_remove_get)
  show "\<not> verify C sid t S'" by (simp add: verify_def get)
  show "verify C other t S' = verify C other t S" if "other \<noteq> sid"
  proof -
    have "ts_key S' = ts_key S" "map_of (ts_tokens S') other = map_of (ts_tokens S) other"
      using that get by (simp_all add: S')
    then show ?thesis unfolding verify_def by (simp only:)
  qed
  show "with_key_loading J None (ts_path S) (ts_key S) fs' = Inr S'"
    using assms(1)
  proof (cases rule: revoke_shape)
    case absent
    then have "S' = S" using bt.del_absent [of "ts_tokens S" sid] assms(3) by (simp add: store_ok_def)
    with absent assms(4) show ?thesis by (simp add: synced_load)
  next
    case (present r')
    then have "persist_with J F S' fs = (Inr (), fs')" by (cases r') auto
    from persisted [OF this assms(2)] assms(3) S' show ?thesis by (simp add: remove_token_ok synced_load)
  qed
  show "had \<longleftrightarrow> map_of (ts_tokens S) sid \<noteq> None"
    using assms(1)
  proof (cases rule: revoke_shape)
    case (present r')
    then show ?thesis by (cases r') auto
  qed simp
qed

lemma failed_revocation_is_undone_by_restart_facts:
  assumes "revoke J F sid S fs = (Inl e, S1, fs1)"
    and "json_text_ok J" "store_ok S" "synced J S fs" "verify C sid token S"
    and "store_temp (ts_path S) \<noteq> ts_path S"
  shows "revoke J F' sid S1 fs1 = (Inr False, S1, fs1)"
    and "\<exists>T. with_key_loading J None (ts_path S) (ts_key S) fs1 = Inr T \<and> verify C sid token T"
proof -
  have S1: "S1 = S\<lparr>ts_tokens := bt_remove sid (ts_tokens S)\<rparr>"
    using assms(1) by (cases rule: revoke_shape)
  have p: "persist_with J F S1 fs = (Inl e, fs1)"
    using assms(1)
  proof (cases rule: revoke_shape)
    case (present r')
    then show ?thesis by (cases r') auto
  qed simp
  have "bt_remove sid (bt_remove sid (ts_tokens S)) = bt_remove sid (ts_tokens S)"
    by (simp add: bt_remove_def)
  then show "revoke J F' sid S1 fs1 = (Inr False, S1, fs1)"
    by (simp add: revoke_def S1 bt_remove_get)
  from not_persisted [OF p assms(2)] assms(3,6) S1 have "fs1 (ts_path S) = fs (ts_path S)"
    by (simp add: remove_token_ok)
  with assms(4) have "with_key_loading J None (ts_path S) (ts_key S) fs1 = Inr S"
    by (simp add: synced_load load_cong [of fs1 "ts_path S" fs])
  with assms(5) show "\<exists>T. with_key_loading J None (ts_path S) (ts_key S) fs1 = Inr T \<and> verify C sid token T"
    by blast
qed

lemma session_live_iff:
  assumes "crypto_ok C" "bt_ok (ts_sessions S)"
  shows "session_is_live C i now S \<longleftrightarrow>
    (\<exists>s. map_of (ts_sessions S) i = Some s \<and> now < expires_at_unix s)"
proof -
  have "session_is_live C i now S \<longleftrightarrow> (\<exists>s. (i, s) \<in> set (ts_sessions S) \<and> now < expires_at_unix s)"
    using assms(1) by (auto simp: session_is_live_def list_ex_iff)
  with bt_distinct [OF assms(2)] show ?thesis by auto
qed

lemma sessions_begin_and_end_facts:
  assumes "crypto_ok C" "json_text_ok J" "store_ok S"
    and "start_session J F i expires now S fs = (Inr u, S1, fs1)" "session_ok (i, \<lparr>expires_at_unix = expires\<rparr>)"
    and "end_session J F' j S1 fs1 = (Inr u', S2, fs2)"
  shows "with_key_loading J None (ts_path S) (ts_key S) fs1 = Inr S1"
    and "session_is_live C i t S1 \<longleftrightarrow> t < expires"
    and "k \<noteq> i \<Longrightarrow> now \<le> t \<Longrightarrow> session_is_live C k t S1 = session_is_live C k t S"
    and "with_key_loading J None (ts_path S) (ts_key S) fs2 = Inr S2"
    and "session_is_live C k t S2 \<longleftrightarrow> k \<noteq> j \<and> session_is_live C k t S1"
proof -
  note S1 = start_shape(1) [OF assms(4)] and p1 = start_shape(2) [OF assms(4)]
  have ok1: "store_ok S1" using insert_session_ok [OF assms(3,5)] by (simp add: S1)
  have sync1: "synced J S1 fs1" by (rule persisted [OF p1 assms(2) ok1])
  then show "with_key_loading J None (ts_path S) (ts_key S) fs1 = Inr S1" by (simp add: synced_load S1)
  have bt: "bt_ok (ts_sessions S)" "bt_ok (ts_sessions S1)"
    using assms(3) ok1 by (simp_all add: store_ok_def)
  note live = session_live_iff [OF assms(1)]
  have S1s: "ts_sessions S1 = bt_insert i \<lparr>expires_at_unix = expires\<rparr>
      (bt_retain (\<lambda>k s. now < expires_at_unix s) (ts_sessions S))"
    by (simp add: S1)
  show "session_is_live C i t S1 \<longleftrightarrow> t < expires"
    by (simp add: live [OF bt(2)]) (simp add: S1s bt.get_put)
  show "session_is_live C k t S1 = session_is_live C k t S" if "k \<noteq> i" "now \<le> t"
    using that by (simp add: live [OF bt(1)] live [OF bt(2)])
      (auto simp: S1s bt.get_put bt_retain_get [OF bt(1)] split: option.splits)
  have S2: "S2 = S1\<lparr>ts_sessions := bt_remove j (ts_sessions S1)\<rparr>" and sync2: "synced J S2 fs2"
  proof -
    from assms(6) show "S2 = S1\<lparr>ts_sessions := bt_remove j (ts_sessions S1)\<rparr>"
      by (cases rule: end_shape) (simp_all add: bt.del_absent bt(2))
    from assms(6) show "synced J S2 fs2"
      by (cases rule: end_shape) (use sync1 ok1 assms(2) in \<open>auto intro!: persisted remove_session_ok\<close>)
  qed
  show "with_key_loading J None (ts_path S) (ts_key S) fs2 = Inr S2"
    using sync2 by (simp add: synced_load S2 S1)
  have bt2: "bt_ok (ts_sessions S2)" using bt(2) by (simp add: S2 bt.wf_del)
  show "session_is_live C k t S2 \<longleftrightarrow> k \<noteq> j \<and> session_is_live C k t S1"
    by (simp add: live [OF bt2] live [OF bt(2)]) (simp add: S2 bt_remove_get)
qed

section \<open>A concrete store\<close>

text \<open>
  Crates that meet the laws: hex as it is, a cipher that prefixes key and nonce, a JSON text, and a
  store with one token on a disk that works or refuses to rename.
\<close>

definition hex_val :: "char \<Rightarrow> nat option" where
  "hex_val c =
     (if 48 \<le> byte c \<and> byte c \<le> 57 then Some (byte c - 48)
      else if 97 \<le> byte c \<and> byte c \<le> 102 then Some (byte c - 87)
      else None)"

fun demo_unhex :: "string \<Rightarrow> string + string" where
  "demo_unhex [] = Inr []"
| "demo_unhex [a] = Inl ''Odd number of digits''"
| "demo_unhex (a # b # s) =
     (case (hex_val a, hex_val b, demo_unhex s) of
        (Some h, Some l, Inr t) \<Rightarrow> Inr (char_of (16 * h + l) # t)
      | (_, _, Inl e) \<Rightarrow> Inl e
      | _ \<Rightarrow> Inl ''Invalid character'')"

definition demo_crypto :: crypto where
  "demo_crypto =
     \<lparr>hex_encode = (\<lambda>b. concat (map hex_byte b)), hex_decode = demo_unhex,
      xc_encrypt = (\<lambda>k n p. Some (''t'' @ k @ n @ p)),
      xc_decrypt = (\<lambda>k n c. if prefix (''t'' @ k @ n) c then Some (drop (1 + length k + length n) c) else None),
      sha256 = (\<lambda>s. take 32 (s @ replicate 32 CHR ''0'')), ct_eq = (=)\<rparr>"

definition demo_json_text :: json_text where
  "demo_json_text =
     \<lparr>js_print = (\<lambda>v. Inr (put_json v)),
      js_parse = (\<lambda>t. case get_json (length t) t of Some (v, []) \<Rightarrow> Some v | _ \<Rightarrow> None),
      js_error = (\<lambda>t. ''expected value'')\<rparr>"

definition demo_key :: string where "demo_key = replicate 32 CHR ''k''"

definition demo_nonce :: "string + string" where "demo_nonce = Inr (replicate 24 CHR ''n'')"

definition demo_store :: token_store where "demo_store = with_key ''state/tokens.json'' demo_key"

definition rename_refused :: persist_faults where
  "rename_refused = no_persist_faults\<lparr>rewrite_fault := no_rewrite_faults\<lparr>rename_fault := Some ''EROFS''\<rparr>\<rparr>"

lemma hex_val_char: "d < 16 \<Longrightarrow> hex_val (hex_char d) = Some d"
  by (auto simp: hex_val_def hex_char_def digit_char_def byte_def)

lemma demo_unhex_byte: "demo_unhex (hex_byte c @ s) = map_sum id (\<lambda>t. c # t) (demo_unhex s)"
proof -
  have "16 * (byte c div 16) + byte c mod 16 = byte c" by simp
  then have "char_of (16 * (byte c div 16) + byte c mod 16) = c" by (simp add: byte_def)
  moreover have "byte c div 16 < 16" using byte_less [of c] by linarith
  ultimately show ?thesis
    by (cases "demo_unhex s") (simp_all add: hex_byte_def hex_val_char)
qed

lemma hex_char_in: "d < 16 \<Longrightarrow> hex_char d \<in> set ''0123456789abcdef''"
proof -
  assume "d < 16"
  then have "d \<in> set [0..<16]" by simp
  moreover have "\<forall>d \<in> set [0..<16]. hex_char d \<in> set ''0123456789abcdef''" by code_simp
  ultimately show ?thesis by blast
qed

lemma demo_crypto_ok: "crypto_ok demo_crypto"
proof -
  have "demo_unhex (concat (map hex_byte b)) = Inr b" for b
    by (induction b) (simp_all add: demo_unhex_byte)
  moreover have "set (concat (map hex_byte b)) \<subseteq> set ''0123456789abcdef''" for b
  proof (induction b)
    case (Cons c b)
    have "byte c div 16 < 16" using byte_less [of c] by linarith
    with Cons hex_char_in [of "byte c div 16"] hex_char_in [of "byte c mod 16"]
    show ?case by (simp del: list.set(2) insert_iff add: hex_byte_def list.set(2) [of "hex_char x" for x])
  qed simp
  moreover have "min n 32 + (32 - n) = 32" for n :: nat
    by (simp add: min_def)
  ultimately show ?thesis
    unfolding crypto_ok_def by (simp add: demo_crypto_def del: list.set(2))
qed

lemma demo_json_text_ok: "json_text_ok demo_json_text"
proof -
  have "utf8_valid (put_json v)" for v
  proof (rule ascii_valid)
    fix c
    assume "c \<in> set (put_json v)"
    with put_json_chars(1) [of v] have "c = CHR ''a'' \<or> c = CHR ''b''" by blast
    then show "byte c < 128" by (auto simp: byte_def)
  qed
  moreover have "get_json (length (put_json v)) (put_json v) = Some (v, [])" for v
    using get_put_json [of v "length (put_json v)" "[]"] by simp
  ultimately show ?thesis by (simp add: json_text_ok_def demo_json_text_def)
qed

lemma persist_clean:
  assumes "json_text_ok J" "store_ok S"
  obtains fs' where "persist_with J no_persist_faults S fs = (Inr (), fs')"
proof -
  from assms store_json_plain obtain t where
    "js_print J (store_to_json (ts_tokens S) (ts_sessions S)) = Inr t"
    by (auto simp: json_text_ok_def)
  then show thesis
    by (intro that [of "fs_rename (store_temp (ts_path S)) (ts_path S) (fs(store_temp (ts_path S) \<mapsto> t))"])
      (simp add: persist_with_def no_persist_faults_def store_replace_def replace_via_clean
        split: option.split)
qed

lemma demo_store_facts:
  "store_ok demo_store" "synced demo_json_text demo_store Map.empty"
  "store_temp (ts_path demo_store) \<noteq> ts_path demo_store"
  "ts_path demo_store = ''state/tokens.json''" "ts_key demo_store = demo_key"
proof -
  show "store_temp (ts_path demo_store) \<noteq> ts_path demo_store"
    by (simp add: demo_store_def with_key_def) code_simp
qed (simp_all add: demo_store_def with_key_def store_ok_def synced_def read_store_file_def)

lemma demo_op_ok: "op_ok (Issue demo_nonce F ''hass'' ''s3cret'' ''2026-01-01'')"
  by (simp add: demo_nonce_def NONCE_BYTES_def utf8_valid.simps(2) byte_def)

lemmas demo_laws = demo_crypto_ok demo_json_text_ok demo_store_facts demo_op_ok

lemma demo_issued:
  obtains S' fs' where
    "issue demo_crypto demo_json_text demo_nonce no_persist_faults ''hass'' ''s3cret'' ''2026-01-01''
       demo_store Map.empty = (Inr (), S', fs')"
proof -
  obtain s where s: "seal demo_crypto demo_nonce demo_key ''s3cret'' = Inr s"
    by (simp add: seal_def demo_nonce_def demo_crypto_def)
  obtain r S1 fs1 where i: "issue demo_crypto demo_json_text demo_nonce no_persist_faults ''hass''
      ''s3cret'' ''2026-01-01'' demo_store Map.empty = (r, S1, fs1)"
    by (metis prod_cases3)
  have ok: "store_ok S1"
    using issue_ok [OF i demo_crypto_ok demo_store_facts(1)] demo_op_ok by simp
  have "persist_with demo_json_text no_persist_faults S1 Map.empty = (r, fs1)"
    using i s by (auto simp: issue_def demo_store_facts Let_def split: prod.splits)
  with persist_clean [OF demo_json_text_ok ok, of Map.empty] have "r = Inr ()"
    by (metis prod.inject)
  with i that show thesis by simp
qed

text \<open>The store after that token was issued.\<close>

definition holds_demo_token :: "token_store \<Rightarrow> fs \<Rightarrow> bool" where
  "holds_demo_token S fs \<longleftrightarrow>
     store_ok S \<and> synced demo_json_text S fs \<and> store_temp (ts_path S) \<noteq> ts_path S \<and>
     ts_path S = ''state/tokens.json'' \<and> ts_key S = demo_key \<and>
     map_of (ts_tokens S) ''hass'' \<noteq> None \<and> map fst (ts_tokens S) = [''hass''] \<and>
     verify demo_crypto ''hass'' ''s3cret'' S \<and> reveal demo_crypto ''hass'' S = Inr (Some ''s3cret'')"

lemma holds_demo_tokenD:
  assumes "holds_demo_token S fs"
  shows "store_ok S" "synced demo_json_text S fs" "store_temp (ts_path S) \<noteq> ts_path S"
    "ts_path S = ''state/tokens.json''" "ts_key S = demo_key"
    "map_of (ts_tokens S) ''hass'' \<noteq> None" "map fst (ts_tokens S) = [''hass'']"
    "verify demo_crypto ''hass'' ''s3cret'' S"
    "reveal demo_crypto ''hass'' S = Inr (Some ''s3cret'')"
  using assms unfolding holds_demo_token_def by - (elim conjE, assumption)+

lemma demo_held: obtains S fs where "holds_demo_token S fs"
proof -
  obtain S fs where i: "issue demo_crypto demo_json_text demo_nonce no_persist_faults ''hass''
      ''s3cret'' ''2026-01-01'' demo_store Map.empty = (Inr (), S, fs)"
    by (rule demo_issued)
  note facts = issued_token_survives_restart_facts [OF i demo_laws(1,2,3,8)]
  have ok: "store_ok S"
    using issue_ok [OF i demo_crypto_ok demo_store_facts(1)] demo_op_ok by simp
  from i have path: "ts_path S = ts_path demo_store" "ts_key S = ts_key demo_store"
    and one: "map fst (ts_tokens S) = [''hass'']"
    by (cases rule: issued; simp add: demo_store_def with_key_def)+
  have v: "verify demo_crypto ''hass'' ''s3cret'' S" using facts(2) by simp
  have m: "map_of (ts_tokens S) ''hass'' \<noteq> None"
    using v by (auto simp: verify_def split: option.splits)
  show thesis
    by (rule that [of S fs], unfold holds_demo_token_def, intro conjI)
      (use ok facts(1,3) path one m v demo_store_facts(3-5) in \<open>simp_all add: synced_load\<close>)
qed

lemma revoke_present:
  assumes "map_of (ts_tokens S) sid \<noteq> None"
    and "persist_with J F (S\<lparr>ts_tokens := bt_remove sid (ts_tokens S)\<rparr>) fs = (r, fs1)"
  shows "revoke J F sid S fs = (bind_result r (\<lambda>u. Inr True), S\<lparr>ts_tokens := bt_remove sid (ts_tokens S)\<rparr>, fs1)"
  using assms by (cases r) (simp_all add: revoke_def)

lemma persist_refused:
  assumes "json_text_ok J" "store_ok S"
  obtains e fs' where "persist_with J rename_refused S fs = (Inl e, fs')"
proof -
  from assms store_json_plain obtain t where
    "js_print J (store_to_json (ts_tokens S) (ts_sessions S)) = Inr t"
    by (auto simp: json_text_ok_def)
  then show thesis
    by (intro that [of "rename_error (store_errors (ts_path S)) ''EROFS''" "fs(store_temp (ts_path S) \<mapsto> t)"])
      (simp add: persist_with_def rename_refused_def no_persist_faults_def store_replace_def
        replace_via_def no_rewrite_faults_def split: option.split)
qed

section \<open>The promises\<close>

text \<open>
  C23: After any run of issues, revocations, logins and logouts, whose writes may fail at any step,
  the file of the token store reads back as a well-formed store: it is exactly the memory as it was
  after some prefix of the run, and no later operation answered that it had changed something. So a
  crash or a full disk never leaves a truncated store, and nothing that was reported done is lost.
\<close>

theorem store_file_is_an_acknowledged_memory:
  assumes "run_store C J ops S fs = (rs, S', fs')"
    and "crypto_ok C" "json_text_ok J" "store_ok S" "list_all op_ok ops" "synced J S fs"
    and "store_temp (ts_path S) \<noteq> ts_path S"
  shows "\<exists>n \<le> length ops.
    with_key_loading J None (ts_path S) (ts_key S) fs' = Inr (memory_after C J (take n ops) S) \<and>
    store_ok (memory_after C J (take n ops) S) \<and>
    (\<forall>i. n \<le> i \<longrightarrow> i < length ops \<longrightarrow> rs ! i \<noteq> Inr True)"
  using assms(1,5)
proof (induction ops arbitrary: rs S' fs' rule: rev_induct)
  case Nil
  with assms(4,6) show ?case by (simp add: memory_after_def synced_load)
next
  case (snoc x ops)
  obtain rs1 S1 fs1 where run: "run_store C J ops S fs = (rs1, S1, fs1)" by (metis prod_cases3)
  obtain r where step: "store_step C J x S1 fs1 = (r, S', fs')" and rs: "rs = rs1 @ [r]"
    using snoc.prems(1) by (auto simp: run_store_snoc run split: prod.splits)
  have ok: "store_ok S1" "ts_path S1 = ts_path S" "ts_key S1 = ts_key S"
    using run_store_ok [OF run assms(2,4)] snoc.prems(2) by simp_all
  have x: "op_ok x" using snoc.prems(2) by simp
  note ok' = store_step_ok [OF step assms(2) ok(1) x]
  have S': "S' = memory_after C J (ops @ [x]) S"
    using snoc.prems(1) run_store_memory [of C J "ops @ [x]" S fs] by simp
  have len: "length rs1 = length ops" by (rule run_store_length [OF run])
  from store_step_file [OF step assms(2,3) ok(1) x] ok(2) assms(7)
  consider (same) "fs' (ts_path S) = fs1 (ts_path S)" "r \<noteq> Inr True" | (new) "synced J S' fs'"
    by fastforce
  then show ?case
  proof cases
    case same
    obtain n where n: "n \<le> length ops"
      "with_key_loading J None (ts_path S) (ts_key S) fs1 = Inr (memory_after C J (take n ops) S)"
      "store_ok (memory_after C J (take n ops) S)"
      "\<forall>i. n \<le> i \<longrightarrow> i < length ops \<longrightarrow> rs1 ! i \<noteq> Inr True"
      using snoc.IH [OF run] snoc.prems(2) by auto
    have "rs ! i \<noteq> Inr True" if "n \<le> i" "i < length (ops @ [x])" for i
      using n(4) same(2) that by (auto simp: rs nth_append len less_Suc_eq)
    with n(1-3) show ?thesis
      unfolding load_cong [of fs' "ts_path S" fs1, OF same(1)]
      by (intro exI [of _ n]) simp
  next
    case new
    with ok ok' S' show ?thesis
      by (intro exI [of _ "length (ops @ [x])"]) (simp add: synced_load)
  qed
qed

lemma store_file_is_an_acknowledged_memory_witness:
  "case run_store demo_crypto demo_json_text
      [Issue demo_nonce no_persist_faults ''hass'' ''s3cret'' ''2026-01-01'', Revoke rename_refused ''hass'']
      demo_store Map.empty of
     (rs, S', fs') \<Rightarrow>
       \<exists>n \<le> 2. with_key_loading demo_json_text None ''state/tokens.json'' demo_key fs'
         = Inr (memory_after demo_crypto demo_json_text
             (take n [Issue demo_nonce no_persist_faults ''hass'' ''s3cret'' ''2026-01-01'',
                      Revoke rename_refused ''hass'']) demo_store)"
proof -
  let ?ops = "[Issue demo_nonce no_persist_faults ''hass'' ''s3cret'' ''2026-01-01'', Revoke rename_refused ''hass'']"
  obtain rs S' fs' where run: "run_store demo_crypto demo_json_text ?ops demo_store Map.empty = (rs, S', fs')"
    by (metis prod_cases3)
  have "list_all op_ok ?ops" using demo_op_ok by simp
  from store_file_is_an_acknowledged_memory [OF run demo_laws(1,2,3) this demo_laws(4,5)]
  show ?thesis unfolding run prod.case demo_store_facts list.size by (metis Suc_1 add_0 plus_1_eq_Suc One_nat_def)
qed

text \<open>
  C25: When issuing a token succeeds, a store loaded from the file with the same key is the store in
  memory; it accepts for that source exactly the issued token, shows it to the dashboard, and
  treats every other source as before.
\<close>

theorem issued_token_survives_restart:
  assumes "issue C J nonce F sid token now S fs = (Inr u, S', fs')"
    and "crypto_ok C" "json_text_ok J" "store_ok S" "op_ok (Issue nonce F sid token now)"
  shows "with_key_loading J None (ts_path S) (ts_key S) fs' = Inr S' \<and>
    (\<forall>t. verify C sid t S' \<longleftrightarrow> t = token) \<and> reveal C sid S' = Inr (Some token) \<and>
    (\<forall>other t. other \<noteq> sid \<longrightarrow> verify C other t S' = verify C other t S)"
  using issued_token_survives_restart_facts [OF assms] by blast

lemma issued_token_survives_restart_witness:
  "\<exists>S' fs'. with_key_loading demo_json_text None ''state/tokens.json'' demo_key fs' = Inr S' \<and>
     verify demo_crypto ''hass'' ''s3cret'' S' \<and> \<not> verify demo_crypto ''hass'' ''guess'' S'"
proof -
  obtain S fs where i: "issue demo_crypto demo_json_text demo_nonce no_persist_faults ''hass''
      ''s3cret'' ''2026-01-01'' demo_store Map.empty = (Inr (), S, fs)"
    by (rule demo_issued)
  note P = issued_token_survives_restart [OF i demo_laws(1,2,3,8), unfolded demo_store_facts]
  from P show ?thesis by (intro exI [of _ S] exI [of _ fs] conjI) simp_all
qed

text \<open>
  A revocation that reports success is durable: whether there was a token is answered truly, the
  source's token is accepted neither now nor after a restart, and no other source is affected.
\<close>

theorem revoked_token_stays_out:
  assumes "revoke J F sid S fs = (Inr had, S', fs')"
    and "json_text_ok J" "store_ok S" "synced J S fs"
  shows "with_key_loading J None (ts_path S) (ts_key S) fs' = Inr S' \<and>
    (\<forall>t. \<not> verify C sid t S') \<and> (had \<longleftrightarrow> map_of (ts_tokens S) sid \<noteq> None) \<and>
    (\<forall>other t. other \<noteq> sid \<longrightarrow> verify C other t S' = verify C other t S)"
  using revoked_token_stays_out_facts [OF assms] by blast

lemma revoked_token_stays_out_witness:
  "\<exists>S fs S' fs'. verify demo_crypto ''hass'' ''s3cret'' S \<and>
     revoke demo_json_text no_persist_faults ''hass'' S fs = (Inr True, S', fs') \<and>
     with_key_loading demo_json_text None (ts_path S) (ts_key S) fs' = Inr S' \<and>
     \<not> verify demo_crypto ''hass'' ''s3cret'' S'"
proof -
  obtain S fs where S: "holds_demo_token S fs" by (rule demo_held)
  let ?S1 = "S\<lparr>ts_tokens := bt_remove ''hass'' (ts_tokens S)\<rparr>"
  note h = holds_demo_tokenD [OF S]
  obtain fs' where "persist_with demo_json_text no_persist_faults ?S1 fs = (Inr (), fs')"
    by (rule persist_clean [OF demo_json_text_ok remove_token_ok [OF h(1)]])
  from revoke_present [OF h(6) this]
  have r: "revoke demo_json_text no_persist_faults ''hass'' S fs = (Inr True, ?S1, fs')" by simp
  from revoked_token_stays_out [OF r demo_json_text_ok h(1,2), of demo_crypto] r h(8)
  show ?thesis
    by (intro exI [of _ S] exI [of _ fs] exI [of _ ?S1] exI [of _ fs'] conjI) simp_all
qed

text \<open>
  C26: When the write of a revocation fails, the error is reported once only: asking again answers
  that there was nothing to revoke and writes nothing, while the file still holds the token, which
  the next start accepts again.
\<close>

theorem failed_revocation_is_undone_by_restart:
  assumes "revoke J F sid S fs = (Inl e, S1, fs1)"
    and "json_text_ok J" "store_ok S" "synced J S fs" "verify C sid token S"
    and "store_temp (ts_path S) \<noteq> ts_path S"
  shows "revoke J F' sid S1 fs1 = (Inr False, S1, fs1) \<and>
    (\<exists>T. with_key_loading J None (ts_path S) (ts_key S) fs1 = Inr T \<and> verify C sid token T)"
  using failed_revocation_is_undone_by_restart_facts [OF assms] by blast

lemma failed_revocation_is_undone_by_restart_witness:
  "\<exists>S fs e S1 fs1 T. revoke demo_json_text rename_refused ''hass'' S fs = (Inl e, S1, fs1) \<and>
     revoke demo_json_text no_persist_faults ''hass'' S1 fs1 = (Inr False, S1, fs1) \<and>
     with_key_loading demo_json_text None (ts_path S) (ts_key S) fs1 = Inr T \<and>
     verify demo_crypto ''hass'' ''s3cret'' T"
proof -
  obtain S fs where S: "holds_demo_token S fs" by (rule demo_held)
  let ?S1 = "S\<lparr>ts_tokens := bt_remove ''hass'' (ts_tokens S)\<rparr>"
  note h = holds_demo_tokenD [OF S]
  obtain e fs1 where "persist_with demo_json_text rename_refused ?S1 fs = (Inl e, fs1)"
    by (rule persist_refused [OF demo_json_text_ok remove_token_ok [OF h(1)]])
  from revoke_present [OF h(6) this]
  have r: "revoke demo_json_text rename_refused ''hass'' S fs = (Inl e, ?S1, fs1)" by simp
  note P = failed_revocation_is_undone_by_restart [OF r demo_json_text_ok h(1,2,8,3),
      where F' = no_persist_faults]
  from P [THEN conjunct2] obtain T where
    "with_key_loading demo_json_text None (ts_path S) (ts_key S) fs1 = Inr T"
    "verify demo_crypto ''hass'' ''s3cret'' T"
    by (elim exE conjE)
  with P [THEN conjunct1] r show ?thesis
    by (intro exI [of _ S] exI [of _ fs] exI [of _ e] exI [of _ ?S1] exI [of _ fs1] exI [of _ T] conjI)
qed

text \<open>
  A login that succeeds is durable, is accepted exactly until it expires, and leaves the other
  sessions that are still running as they are; a logout that succeeds is durable, ends exactly that
  session, and the copied cookie is refused by the store and by every store loaded later.
\<close>

theorem sessions_begin_and_end:
  assumes "crypto_ok C" "json_text_ok J" "store_ok S"
    and "start_session J F i expires now S fs = (Inr u, S1, fs1)" "session_ok (i, \<lparr>expires_at_unix = expires\<rparr>)"
    and "end_session J F' j S1 fs1 = (Inr u', S2, fs2)"
  shows "with_key_loading J None (ts_path S) (ts_key S) fs1 = Inr S1 \<and>
    (\<forall>t. session_is_live C i t S1 \<longleftrightarrow> t < expires) \<and>
    (\<forall>k t. k \<noteq> i \<longrightarrow> now \<le> t \<longrightarrow> session_is_live C k t S1 = session_is_live C k t S) \<and>
    with_key_loading J None (ts_path S) (ts_key S) fs2 = Inr S2 \<and>
    (\<forall>k t. session_is_live C k t S2 \<longleftrightarrow> k \<noteq> j \<and> session_is_live C k t S1)"
  using sessions_begin_and_end_facts [OF assms] by blast

lemma sessions_begin_and_end_witness:
  "\<exists>S1 fs1 S2 fs2.
     start_session demo_json_text no_persist_faults ''cookie'' 100 5 demo_store Map.empty = (Inr (), S1, fs1) \<and>
     end_session demo_json_text no_persist_faults ''cookie'' S1 fs1 = (Inr (), S2, fs2) \<and>
     session_is_live demo_crypto ''cookie'' 99 S1 \<and> \<not> session_is_live demo_crypto ''cookie'' 99 S2"
proof -
  obtain r S1 fs1 where s: "start_session demo_json_text no_persist_faults ''cookie'' 100 5 demo_store
      Map.empty = (r, S1, fs1)" by (metis prod_cases3)
  note shape = start_shape [OF s]
  have new: "session_ok (''cookie'', \<lparr>expires_at_unix = 100\<rparr>)"
    by (simp add: session_ok_def utf8_valid.simps(2) byte_def)
  have ok: "store_ok S1"
    using insert_session_ok [OF demo_store_facts(1) new] by (simp add: shape(1))
  from persist_clean [OF demo_json_text_ok ok, of Map.empty] shape(2) have r: "r = Inr ()"
    by (metis prod.inject)
  let ?S2 = "S1\<lparr>ts_sessions := bt_remove ''cookie'' (ts_sessions S1)\<rparr>"
  obtain fs2 where p: "persist_with demo_json_text no_persist_faults ?S2 fs1 = (Inr (), fs2)"
    by (rule persist_clean [OF demo_json_text_ok remove_session_ok [OF ok]])
  have "map_of (ts_sessions S1) ''cookie'' \<noteq> None"
    by (simp add: shape(1) bt.get_put)
  with p have e: "end_session demo_json_text no_persist_faults ''cookie'' S1 fs1 = (Inr (), ?S2, fs2)"
    by (auto simp: end_session_def)
  from sessions_begin_and_end [OF demo_laws(1,2,3) s [unfolded r] new e] s e r
  show ?thesis
    by (intro exI [of _ S1] exI [of _ fs1] exI [of _ ?S2] exI [of _ fs2]) auto
qed

end
