(* ===== verification/Token_Import.thy ===== *)
theory Token_Import
  imports Token_Properties
begin

text \<open>
  The one-time import of the per-source tokens into the kit's client store:
  \<open>import_source_tokens\<close> of src/shell/kit.rs. The kit's store is a parameter: its key parser, opening
  it, and extending it by a list of clients, which writes its file.
\<close>

record kit_client =
  client_id :: string
  client_name :: string
  client_token :: "string option"
  client_issued :: string
  client_revoked :: "string option"
  client_last_used :: "string option"
  client_uses :: nat

record ('key, 'st) kit_clients =
  kc_parse_key :: "string \<Rightarrow> string + 'key"
  kc_open :: "string \<Rightarrow> 'key \<Rightarrow> fs \<Rightarrow> string + 'st"
  kc_extend :: "'st \<Rightarrow> kit_client list \<Rightarrow> fs \<Rightarrow> (string + unit) \<times> fs"

definition client_of :: "string \<Rightarrow> string \<Rightarrow> string \<Rightarrow> kit_client" where
  "client_of sid token issued =
     \<lparr>client_id = ''source-'' @ sid, client_name = sid, client_token = Some token,
      client_issued = issued, client_revoked = None, client_last_used = None, client_uses = 0\<rparr>"

fun import_clients :: "crypto \<Rightarrow> token_store \<Rightarrow> (string \<times> string) list \<Rightarrow> string + kit_client list" where
  "import_clients C S [] = Inr []"
| "import_clients C S ((sid, issued) # xs) =
     (case reveal C sid S of
        Inl e \<Rightarrow> Inl (error_display e)
      | Inr found \<Rightarrow>
          (case import_clients C S xs of
             Inl e \<Rightarrow> Inl e
           | Inr cs \<Rightarrow>
               Inr (case found of Some token \<Rightarrow> client_of sid token issued # cs | None \<Rightarrow> cs)))"

definition clients_file :: "string \<Rightarrow> string" where
  "clients_file state_dir = path_join state_dir ''clients.json.enc''"

definition import_key :: "crypto \<Rightarrow> string \<Rightarrow> string + string" where
  "import_key C key_hex =
     (case hex_decode C key_hex of
        Inr b \<Rightarrow>
          if length b = 32 then Inr b else Inl ''ALMANAC_SECRET_KEY must be 64 hex characters''
      | Inl e \<Rightarrow> Inl ''ALMANAC_SECRET_KEY must be 64 hex characters'')"

definition import_source_tokens ::
  "crypto \<Rightarrow> json_text \<Rightarrow> ('key, 'st) kit_clients \<Rightarrow> string option \<Rightarrow> string \<Rightarrow> string \<Rightarrow> string \<Rightarrow> fs \<Rightarrow>
     (string + nat) \<times> fs" where
  "import_source_tokens C J K fault state_dir store_path key_hex fs =
     (if fs (clients_file state_dir) \<noteq> None \<or> fs store_path = None then (Inr 0, fs)
      else
        (case import_key C key_hex of
           Inl e \<Rightarrow> (Inl e, fs)
         | Inr key \<Rightarrow>
             (case with_key_loading J fault store_path key fs of
                Inl e \<Rightarrow> (Inl (error_display e @ '': '' @ remedy e), fs)
              | Inr S \<Rightarrow>
                  (case import_clients C S (list_tokens S) of
                     Inl e \<Rightarrow> (Inl e, fs)
                   | Inr [] \<Rightarrow> (Inr 0, fs)
                   | Inr cs \<Rightarrow>
                       (case kc_parse_key K key_hex of
                          Inl e \<Rightarrow> (Inl e, fs)
                        | Inr kit_key \<Rightarrow>
                            (case kc_open K (clients_file state_dir) kit_key fs of
                               Inl e \<Rightarrow> (Inl e, fs)
                             | Inr st \<Rightarrow>
                                 (case kc_extend K st cs fs of
                                    (Inl e, fs1) \<Rightarrow> (Inl e, fs1)
                                  | (Inr _, fs1) \<Rightarrow> (Inr (length cs), fs1))))))))"

text \<open>What the kit documents of its store: a successful update is in its file.\<close>

definition kit_writes :: "('key, 'st) kit_clients \<Rightarrow> bool" where
  "kit_writes K \<longleftrightarrow>
     (\<forall>p k fs st cs fs'. kc_open K p k fs = Inr st \<longrightarrow> kc_extend K st cs fs = (Inr (), fs') \<longrightarrow>
        fs' p \<noteq> None)"

lemma reveal_present:
  "reveal C sid S = Inr found \<Longrightarrow> map_of (ts_tokens S) sid \<noteq> None \<Longrightarrow> \<exists>t. found = Some t"
  by (auto simp: reveal_def outcome_simps split: option.splits)

lemma import_clients_all:
  assumes "import_clients C S xs = Inr cs" "\<And>x. x \<in> set xs \<Longrightarrow> map_of (ts_tokens S) (fst x) \<noteq> None"
  shows "map client_name cs = map fst xs \<and>
    (\<forall>c \<in> set cs. client_token c \<noteq> None \<and> reveal C (client_name c) S = Inr (client_token c))"
  using assms
proof (induction C S xs arbitrary: cs rule: import_clients.induct)
  case (1 C S)
  then show ?case by simp
next
  case (2 C S sid issued xs)
  from 2(2) obtain found ds where r: "reveal C sid S = Inr found"
    and ds: "import_clients C S xs = Inr ds"
    and cs: "cs = (case found of Some t \<Rightarrow> client_of sid t issued # ds | None \<Rightarrow> ds)"
    by (auto split: sum.splits)
  from reveal_present [OF r] 2(3) [of "(sid, issued)"] obtain t where t: "found = Some t" by auto
  have "map_of (ts_tokens S) (fst x) \<noteq> None" if "x \<in> set xs" for x using that 2(3) by simp
  from 2(1) [OF r ds this] r show ?case by (simp add: cs t client_of_def)
qed

lemma list_tokens_keys:
  assumes "store_ok S"
  shows "map fst (list_tokens S) = map fst (ts_tokens S)"
proof -
  have "list_all token_ok (ts_tokens S)" using assms by (simp add: store_ok_def)
  then show ?thesis unfolding list_tokens_def
    by (induction "ts_tokens S") (auto simp: list_all_iff token_ok_def)
qed

lemma import_result:
  assumes "import_source_tokens C J K fault dir store_path key_hex fs = (Inr n, fs')" "0 < n"
  obtains key S cs kit_key st where
    "fs (clients_file dir) = None" "import_key C key_hex = Inr key"
    "with_key_loading J fault store_path key fs = Inr S"
    "import_clients C S (list_tokens S) = Inr cs" "n = length cs"
    "kc_parse_key K key_hex = Inr kit_key" "kc_open K (clients_file dir) kit_key fs = Inr st"
    "kc_extend K st cs fs = (Inr (), fs')"
  using assms
  by (auto simp: import_source_tokens_def split: if_splits sum.splits list.splits prod.splits)

text \<open>
  An import that copies n > 0 tokens hands the kit's store one client per source of the old store,
  in its order, and each client has exactly the token the old store accepts for that source; the
  import then finds its own result and does nothing when it runs again.
\<close>

theorem import_copies_every_token_once:
  assumes "import_source_tokens C J K fault dir store_path key_hex fs = (Inr n, fs')" "0 < n"
    and "crypto_ok C" "kit_writes K"
    and "\<forall>key S. with_key_loading J fault store_path key fs = Inr S \<longrightarrow> store_ok S"
  shows "\<exists>key S st cs. with_key_loading J fault store_path key fs = Inr S \<and>
      hex_decode C key_hex = Inr key \<and> n = length cs \<and> kc_extend K st cs fs = (Inr (), fs') \<and>
      map client_name cs = map fst (ts_tokens S) \<and>
      (\<forall>c \<in> set cs. \<forall>t. verify C (client_name c) t S \<longleftrightarrow> client_token c = Some t) \<and>
      import_source_tokens C J K fault dir store_path key_hex fs' = (Inr 0, fs')"
proof -
  from assms(1,2) obtain key S cs kit_key st where r:
    "import_key C key_hex = Inr key" "with_key_loading J fault store_path key fs = Inr S"
    "import_clients C S (list_tokens S) = Inr cs" "n = length cs"
    "kc_open K (clients_file dir) kit_key fs = Inr st" "kc_extend K st cs fs = (Inr (), fs')"
    by (rule import_result)
  have ok: "store_ok S" using assms(5) r(2) by blast
  have "map_of (ts_tokens S) (fst x) \<noteq> None" if "x \<in> set (list_tokens S)" for x
  proof -
    from that have "fst x \<in> fst ` set (ts_tokens S)"
      using arg_cong [OF list_tokens_keys [OF ok], of set] by force
    then show ?thesis by (simp add: map_of_eq_None_iff)
  qed
  note cs = import_clients_all [OF r(3) this]
  have v: "verify C (client_name c) t S \<longleftrightarrow> client_token c = Some t" if "c \<in> set cs" for c t
    using cs that assms(3)
    by (auto simp: verify_def reveal_def outcome_simps split: option.splits sum.splits)
  have "fs' (clients_file dir) \<noteq> None"
    using assms(4) r(5,6) unfolding kit_writes_def by blast
  then have again: "import_source_tokens C J K fault dir store_path key_hex fs' = (Inr 0, fs')"
    by (simp add: import_source_tokens_def)
  from r(1) have "hex_decode C key_hex = Inr key"
    by (auto simp: import_key_def split: sum.splits if_splits)
  with r again cs v list_tokens_keys [OF ok] show ?thesis
    by (intro exI [of _ key] exI [of _ S] exI [of _ st] exI [of _ cs]) simp
qed

definition demo_kit :: "(unit, string) kit_clients" where
  "demo_kit =
     \<lparr>kc_parse_key = (\<lambda>k. Inr ()), kc_open = (\<lambda>p k fs. Inr p),
      kc_extend = (\<lambda>p cs fs. (Inr (), fs(p \<mapsto> ''clients'')))\<rparr>"

lemma load_any_key:
  assumes "with_key_loading J fault p key fs = Inr S" "with_key_loading J fault p key' fs = Inr S'"
  shows "store_ok S \<longleftrightarrow> store_ok S'"
  using assms by (auto simp: with_key_loading_def outcome_simps store_ok_def)

lemma import_copies_every_token_once_witness:
  "\<exists>fs fs'.
     import_source_tokens demo_crypto demo_json_text demo_kit None ''kit'' ''state/tokens.json''
       (hex_encode demo_crypto demo_key) fs = (Inr 1, fs') \<and>
     import_source_tokens demo_crypto demo_json_text demo_kit None ''kit'' ''state/tokens.json''
       (hex_encode demo_crypto demo_key) fs' = (Inr 0, fs')"
proof -
  obtain S disk where held: "holds_demo_token S disk" by (rule demo_held)
  note S = holds_demo_tokenD(1,2,4,5,7,9) [OF held]
  let ?fs = "Map.empty(''state/tokens.json'' := disk ''state/tokens.json'')"
  let ?hex = "hex_encode demo_crypto demo_key"
  from S(2-4) have load: "with_key_loading demo_json_text None ''state/tokens.json'' demo_key ?fs = Inr S"
    using load_cong [of ?fs "''state/tokens.json''" disk demo_json_text None demo_key]
    by (simp add: synced_load)
  have "disk ''state/tokens.json'' \<noteq> None"
  proof
    assume "disk ''state/tokens.json'' = None"
    then have "with_key_loading demo_json_text None ''state/tokens.json'' demo_key ?fs
        = Inr (with_key ''state/tokens.json'' demo_key)"
      by (simp add: with_key_loading_def read_store_file_def with_key_def)
    with load S(5) show False by (auto simp: with_key_def)
  qed
  then have there: "?fs ''state/tokens.json'' \<noteq> None" "?fs (clients_file ''kit'') = None"
    by (simp_all add: clients_file_def path_join_def)
  have key: "import_key demo_crypto ?hex = Inr demo_key"
    using demo_crypto_ok by (simp add: import_key_def crypto_ok_def demo_key_def)
  obtain at where "list_tokens S = [(''hass'', at)]"
    using S(5) list_tokens_keys [OF S(1)] by (cases "list_tokens S") auto
  with S(6) have cs: "import_clients demo_crypto S (list_tokens S) = Inr [client_of ''hass'' ''s3cret'' at]"
    by simp
  let ?fs' = "?fs(clients_file ''kit'' \<mapsto> ''clients'')"
  have run: "import_source_tokens demo_crypto demo_json_text demo_kit None ''kit'' ''state/tokens.json''
      ?hex ?fs = (Inr 1, ?fs')"
    unfolding import_source_tokens_def key
    using there load cs by (simp add: demo_kit_def del: fun_upd_apply)
  have ok: "\<forall>k T. with_key_loading demo_json_text None ''state/tokens.json'' k ?fs = Inr T \<longrightarrow> store_ok T"
    using load_any_key [OF load] S(1) by metis
  have kit: "kit_writes demo_kit" by (auto simp: kit_writes_def demo_kit_def)
  from import_copies_every_token_once [OF run zero_less_one demo_crypto_ok kit ok]
  have "import_source_tokens demo_crypto demo_json_text demo_kit None ''kit'' ''state/tokens.json''
      ?hex ?fs' = (Inr 0, ?fs')"
    by (elim exE conjE)
  with run show ?thesis by blast
qed

end
