(* ===== verification/Startup.thy ===== *)
theory Startup
  imports Sources Worker Token_Import
begin

text \<open>
  From the command line to a running service: src/main.rs, with the paths of src/core/paths.rs, the
  lock of src/shell/datadir.rs and the heartbeat's knob of src/shell/heartbeat.rs.

  The environment is a map. The kit (\<open>App::from_args_with_env\<close>, its state directory, its client
  store) and every failure of the operating system are parameters; what the start logs is not part
  of the model, except the warnings and what \<open>--check\<close> prints.
\<close>

type_synonym environment = "string \<rightharpoonup> string"

section \<open>Paths\<close>

definition STATE_DIR_ENV :: string where "STATE_DIR_ENV = ''ALMANAC_STATE_DIR''"

definition PROFILES_DIR_ENV :: string where "PROFILES_DIR_ENV = ''ALMANAC_PROFILES_DIR''"

definition DATA_DIR_ENV :: string where "DATA_DIR_ENV = ''ALMANAC_DATA_DIR''"

definition JOURNAL_ENV :: string where "JOURNAL_ENV = ''ALMANAC_JOURNAL''"

definition TOKEN_STORE_ENV :: string where "TOKEN_STORE_ENV = ''ALMANAC_TOKEN_STORE''"

record state_paths =
  root_dir :: string
  profiles_dir :: string
  data_dir :: string
  journal_file :: string
  token_file :: string

definition env_value :: "environment \<Rightarrow> string \<Rightarrow> string option" where
  "env_value get key =
     (case get key of
        None \<Rightarrow> None
      | Some v \<Rightarrow> if trim v = [] then None else Some (trim v))"

text \<open>
  \<open>Path\<close> equality with the current directory: paths compare by their components, so further dots
  and slashes do not count.
\<close>

definition is_current_dir :: "string \<Rightarrow> bool" where
  "is_current_dir p \<longleftrightarrow>
     (case segments p of
        [] \<Rightarrow> False
      | q # qs \<Rightarrow> q = ''.'' \<and> list_all (\<lambda>r. r = [] \<or> r = ''.'') qs)"

definition join_root :: "string \<Rightarrow> string \<Rightarrow> string" where
  "join_root base child = (if is_current_dir base then child else path_join base child)"

definition or_else :: "string option \<Rightarrow> string \<Rightarrow> string" where
  "or_else v d = (case v of Some x \<Rightarrow> x | None \<Rightarrow> d)"

definition paths_resolve :: "environment \<Rightarrow> state_paths" where
  "paths_resolve get =
     (let base = or_else (env_value get STATE_DIR_ENV) ''.'';
          profiles = or_else (env_value get PROFILES_DIR_ENV) (join_root base ''profiles'');
          data = or_else (env_value get DATA_DIR_ENV) (join_root base ''data'');
          journal = or_else (env_value get JOURNAL_ENV) (path_join data ''journal.jsonl'');
          tokens = or_else (env_value get TOKEN_STORE_ENV) (path_join data ''tokens.json'')
      in \<lparr>root_dir = base, profiles_dir = profiles, data_dir = data, journal_file = journal,
          token_file = tokens\<rparr>)"

definition backed_up :: "state_paths \<Rightarrow> string list" where
  "backed_up P = [profiles_dir P, data_dir P]"

section \<open>The heartbeat's knob\<close>

definition DEFAULT_INTERVAL :: nat where "DEFAULT_INTERVAL = 3600"

definition INTERVAL_ENV :: string where "INTERVAL_ENV = ''ALMANAC_HEARTBEAT_INTERVAL_SECS''"

text \<open>\<open>str::parse::<u64>\<close>: an optional plus sign and at least one digit, below 2 to the 64.\<close>

definition parse_digits :: "string \<Rightarrow> nat option" where
  "parse_digits s =
     (if s \<noteq> [] \<and> list_all (\<lambda>c. 48 \<le> byte c \<and> byte c \<le> 57) s
      then Some (foldl (\<lambda>n c. 10 * n + (byte c - 48)) 0 s)
      else None)"

definition parse_u64 :: "string \<Rightarrow> nat option" where
  "parse_u64 s =
     (case parse_digits (if s \<noteq> [] \<and> hd s = CHR ''+'' then tl s else s) of
        Some n \<Rightarrow> if n < 2 ^ 64 then Some n else None
      | None \<Rightarrow> None)"

definition interval_from :: "environment \<Rightarrow> nat option" where
  "interval_from get =
     (case get INTERVAL_ENV of
        None \<Rightarrow> Some DEFAULT_INTERVAL
      | Some raw \<Rightarrow>
          (case parse_u64 (trim raw) of
             Some n \<Rightarrow> if n = 0 then None else Some n
           | None \<Rightarrow> Some DEFAULT_INTERVAL))"

section \<open>The old names of the knobs\<close>

definition compat_listen :: "environment \<Rightarrow> environment \<times> string list" where
  "compat_listen env =
     (case (env ''ALMANAC_LISTEN'', env ''ALMANAC_BIND'') of
        (None, Some bind) \<Rightarrow>
          (env(''ALMANAC_LISTEN'' \<mapsto> bind),
           [''ALMANAC_BIND is the 2.x name of ALMANAC_LISTEN; it still works, rename it in the '' @
            ''environment file '' @ em_dash @ '' the alias goes away in 4.0''])
      | _ \<Rightarrow> (env, []))"

definition update_mode_of :: "string \<Rightarrow> string" where
  "update_mode_of raw =
     (if to_ascii_lowercase (trim raw) \<in> {''on'', ''true'', ''1'', ''yes''} then ''autonomous''
      else ''off'')"

definition compat_update_mode :: "environment \<Rightarrow> environment \<times> string list" where
  "compat_update_mode env =
     (case (env ''ALMANAC_UPDATE_MODE'', env ''ALMANAC_SELF_UPDATE'') of
        (None, Some raw) \<Rightarrow>
          (env(''ALMANAC_UPDATE_MODE'' \<mapsto> update_mode_of raw),
           [''ALMANAC_SELF_UPDATE='' @ raw @ '' is the 2.x knob; it now means ALMANAC_UPDATE_MODE='' @
            update_mode_of raw @ '' (off | supervised | autonomous) '' @ em_dash @
            '' set that instead, the alias goes away in 4.0''])
      | _ \<Rightarrow> (env, []))"

definition compat_update_url :: "environment \<Rightarrow> environment \<times> string list" where
  "compat_update_url env =
     (case env ''ALMANAC_UPDATE_URL'' of
        None \<Rightarrow> (env, [])
      | Some url \<Rightarrow>
          (let trimmed = trim_end_slashes url; fixed = trimmed @ ''/latest/download''
           in if suffix ''/releases'' trimmed then
                (env(''ALMANAC_UPDATE_URL'' \<mapsto> fixed),
                 [''ALMANAC_UPDATE_URL='' @ url @ '' has the 2.x shape; the kit wants the directory '' @
                  ''holding VERSION and SHA256SUMS, so '' @ fixed @ '' is used '' @ em_dash @
                  '' set that, or unset it to derive it from the repository''])
              else (env, [])))"

definition compat_log :: "environment \<Rightarrow> environment" where
  "compat_log env =
     (case (env ''ALMANAC_LOG'', env ''RUST_LOG'') of
        (None, Some level) \<Rightarrow> env(''ALMANAC_LOG'' \<mapsto> level)
      | _ \<Rightarrow> env)"

definition compat :: "environment \<Rightarrow> environment \<times> string list" where
  "compat env =
     (let (env1, w1) = compat_listen env;
          (env2, w2) = compat_update_mode env1;
          (env3, w3) = compat_update_url env2
      in (compat_log env3, w1 @ w2 @ w3))"

section \<open>The lock on the data directory\<close>

record lock_faults =
  lock_mkdir :: "string option"
  lock_open :: "string option"
  lock_taken :: "string \<Rightarrow> string option"

definition lock_path :: "string \<Rightarrow> string" where
  "lock_path dir = path_join dir ''.lock''"

text \<open>
  \<open>lock_taken\<close> is what \<open>flock\<close> answers for a file: an error when another process holds the lock on
  it, none when it is free.
\<close>

definition lock_held_error :: "string \<Rightarrow> string \<Rightarrow> almanac_error" where
  "lock_held_error dir e =
     Config (''another almanac process already holds '' @ lock_path dir @ '': '' @ e)
       (''stop the running instance first '' @ em_dash @ '' two processes sharing '' @
        ''one journal would deliver the same event twice and can lose delivery '' @
        ''records (AR22)'')"

definition acquire_lock :: "lock_faults \<Rightarrow> string \<Rightarrow> fs \<Rightarrow> unit result \<times> fs" where
  "acquire_lock F dir fs =
     (case lock_mkdir F of
        Some e \<Rightarrow>
          (Inl (Config (''failed to create the data directory '' @ dir @ '': '' @ e)
                 (''check permissions on '' @ dir)), fs)
      | None \<Rightarrow>
          (case lock_open F of
             Some e \<Rightarrow>
               (Inl (Config (''failed to open the lock file '' @ lock_path dir @ '': '' @ e)
                      (''check permissions on '' @ dir)), fs)
           | None \<Rightarrow>
               (case lock_taken F (lock_path dir) of
                  Some e \<Rightarrow> (Inl (lock_held_error dir e), fs(lock_path dir \<mapsto> []))
                | None \<Rightarrow> (Inr (), fs(lock_path dir \<mapsto> [])))))"

section \<open>Before the service is up\<close>

text \<open>What the kit says of the command line: whether it needs the project, and what it resolved.\<close>

record kit_app =
  kit_needs_config :: bool
  kit_checking :: bool
  kit_state_dir :: string

record boot_faults =
  boot_lock :: lock_faults
  boot_store_read :: "string option"

datatype 'w boot =
    KitCommand
  | Died string fs
  | Checked "string list"
  | Ready "'w app" environment state_paths credentials nat "string list"

definition BOOTSTRAP_TOKEN_ENV :: string where "BOOTSTRAP_TOKEN_ENV = ''ALMANAC_BOOTSTRAP_TOKEN''"

definition CAPTURE_TOKEN_ENV :: string where "CAPTURE_TOKEN_ENV = ''ALMANAC_CAPTURE_TOKEN''"

definition is_set :: "environment \<Rightarrow> string \<Rightarrow> bool" where
  "is_set env key = (case env key of Some v \<Rightarrow> \<not> is_blank v | None \<Rightarrow> False)"

definition bootstrap_refusal :: string where
  "bootstrap_refusal =
     BOOTSTRAP_TOKEN_ENV @ '' is the 3.x name; 4.0.0 reads ALMANAC_TOKEN (the kit's login token)'' @
     newline @ ''  remedy: rename the variable in the environment file (latch.env on CT 112) '' @
     ''and restart''"

definition capture_warning :: string where
  "capture_warning =
     CAPTURE_TOKEN_ENV @ '' is no longer read since 4.0.0: a system that posts captures gets a '' @
     ''client token from the Sources page instead; remove the variable''"

definition load_credentials :: "environment \<Rightarrow> credentials result" where
  "load_credentials env =
     validate_credentials (env ''CLIENT_EMAIL'') (env ''PRIVATE_KEY'') (env ''TOKEN_URI'')"

definition loaded_map :: "loaded \<Rightarrow> string \<rightharpoonup> profile" where
  "loaded_map l = map_of (rev (map (\<lambda>p. (source_id p, p)) (ld_profiles l)))"

definition check_line :: "unusable \<Rightarrow> string" where
  "check_line u =
     ''--check: profile not usable: '' @ un_path u @ '' '' @ em_dash @ '' '' @ un_reason u"

text \<open>The variable's text without its surrounding blanks, when that leaves something.\<close>

definition owner_from :: "environment \<Rightarrow> string option" where
  "owner_from env = env_value env ''ALMANAC_CALENDAR_OWNER''"

definition boot_site ::
  "('w, 'k, 'dt, 'nd) site \<Rightarrow> state_paths \<Rightarrow> credentials \<Rightarrow> ('w, 'k, 'dt, 'nd) site" where
  "boot_site S P creds =
     S\<lparr>site_env := (site_env S)
         \<lparr>env_journal := \<lparr>journal_path = journal_file P, max_bytes = DEFAULT_MAX_BYTES\<rparr>,
          env_google := (env_google (site_env S))
            \<lparr>env_client := client_new, env_credentials := creds\<rparr>\<rparr>\<rparr>"

definition boot_paths :: "kit_app \<Rightarrow> environment \<Rightarrow> state_paths" where
  "boot_paths kit env = paths_resolve (env(STATE_DIR_ENV \<mapsto> kit_state_dir kit))"

text \<open>A real start: the lock, the state, the journal, the import of the old tokens.\<close>

definition boot_start ::
  "('w, 'k, 'dt, 'nd) site \<Rightarrow> crypto \<Rightarrow> json_text \<Rightarrow> ('key, 'st) kit_clients \<Rightarrow> boot_faults \<Rightarrow>
     kit_app \<Rightarrow> environment \<Rightarrow> string list \<Rightarrow> credentials \<Rightarrow> loaded \<Rightarrow> fs \<Rightarrow> 'w \<Rightarrow> 'w boot" where
  "boot_start S C J K F kit env warnings creds l fs w =
     (let P = boot_paths kit env; E = site_env (boot_site S P creds) in
      case acquire_lock (boot_lock F) (data_dir P) fs of
        (Inl e, fs1) \<Rightarrow> Died (error_display e) fs1
      | (Inr _, fs1) \<Rightarrow>
          (let A = with_calendar_owner (owner_from env)
                     (with_profiles_dir (profiles_dir P) (app_new (loaded_map l) fs1 w)) in
           case app_pending E A of
             (Inl e, A1) \<Rightarrow> Died (error_display e) (app_files A1)
           | (Inr es, A1) \<Rightarrow>
               (case import_source_tokens C J K (boot_store_read F) (kit_state_dir kit) (token_file P)
                       (or_else (env ''ALMANAC_SECRET_KEY'') []) (app_files A1) of
                  (Inl e, fs2) \<Rightarrow> Died e fs2
                | (Inr n, fs2) \<Rightarrow> Ready (A1\<lparr>app_files := fs2\<rparr>) env P creds (length es) warnings)))"

definition main_boot ::
  "('w, 'k, 'dt, 'nd) site \<Rightarrow> crypto \<Rightarrow> json_text \<Rightarrow> ('key, 'st) kit_clients \<Rightarrow> boot_faults \<Rightarrow>
     (environment \<Rightarrow> string + kit_app) \<Rightarrow> environment \<Rightarrow> fs \<Rightarrow> 'w \<Rightarrow> 'w boot" where
  "main_boot S C J K F from_args env0 fs w =
     (case compat env0 of (env, compat_warnings) \<Rightarrow>
        (case from_args env of
           Inl e \<Rightarrow> Died e fs
         | Inr kit \<Rightarrow>
             if \<not> kit_needs_config kit then KitCommand
             else if is_set env BOOTSTRAP_TOKEN_ENV then Died bootstrap_refusal fs
             else
               (let warnings = compat_warnings @
                      (if is_set env CAPTURE_TOKEN_ENV then [capture_warning] else []) in
                case site_read_faults S w of (faults, w1) \<Rightarrow>
                  (let l = load_all (profiles_at S faults) (profiles_dir (boot_paths kit env)) fs in
                   case load_credentials env0 of
                     Inl e \<Rightarrow> Died (error_display e @ newline @ ''  remedy: '' @ remedy e) fs
                   | Inr creds \<Rightarrow>
                       if kit_checking kit then Checked (map check_line (ld_unusable l))
                       else boot_start S C J K F kit env warnings creds l fs w1))))"

section \<open>The service itself\<close>

text \<open>The kit's update events that become notifications; the others stay quiet.\<close>

definition update_notice :: "string \<Rightarrow> string \<Rightarrow> string \<Rightarrow> notice option" where
  "update_notice kind version detail =
     (if kind = ''update.installed'' then
        Some \<lparr>notice_op = ''almanac-update'', notice_ok = True, notice_version = version,
              notice_error = None\<rparr>
      else if kind = ''update.rolled_back'' then
        Some \<lparr>notice_op = ''almanac-update-reverted'', notice_ok = False, notice_version = version,
              notice_error = Some detail\<rparr>
      else if kind = ''update.failed'' then
        Some \<lparr>notice_op = ''almanac-update-unverified'', notice_ok = False, notice_version = version,
              notice_error = Some detail\<rparr>
      else None)"

definition fill_calendar_cache :: "('w, 'k, 'dt, 'nd) app_env \<Rightarrow> 'w app \<Rightarrow> 'w app" where
  "fill_calendar_cache E A =
     (case list_calendars (env_google E) (app_hub A) of
        (Inl e, h) \<Rightarrow> A\<lparr>app_hub := h\<rparr>
      | (Inr cals, h) \<Rightarrow>
          (case with_created_calendars cals (A\<lparr>app_hub := h\<rparr>) of (cals1, A1) \<Rightarrow>
             (case without_deleted_calendars cals1 A1 of (cals2, A2) \<Rightarrow>
                remember_calendars cals2 A2)))"

definition STARTUP_RETRY_WAITS :: "nat list" where
  "STARTUP_RETRY_WAITS = [2, 5, 15, 60, 300]"

text \<open>The wait after the given attempt, counted from 1.\<close>

definition startup_wait :: "nat \<Rightarrow> nat" where
  "startup_wait attempt =
     STARTUP_RETRY_WAITS ! min (attempt - 1) (length STARTUP_RETRY_WAITS - 1)"

text \<open>
  The loop may never end: then its value is \<open>None\<close>. Its result is the error that makes the process
  exit, or none, and the waits in the order they were made.
\<close>

partial_function (option) startup_auth ::
  "('w, 'k) services \<Rightarrow> credentials \<Rightarrow> (nat \<Rightarrow> 'w \<Rightarrow> 'w) \<Rightarrow> nat \<Rightarrow> 'w hub \<Rightarrow>
     (almanac_error option \<times> nat list \<times> 'w hub) option" where
  "startup_auth S creds sleep attempt h =
     (case get_token S creds h of
        (Inr tok, h1) \<Rightarrow> Some (None, [], h1)
      | (Inl e, h1) \<Rightarrow>
          if \<not> error_is_transient e then Some (Some e, [], h1)
          else
            Option.bind
              (startup_auth S creds sleep (attempt + 1)
                 (h1\<lparr>outside := sleep (startup_wait (attempt + 1)) (outside h1)\<rparr>))
              (\<lambda>(r, ws, h2). Some (r, startup_wait (attempt + 1) # ws, h2)))"

text \<open>
  What the service says of itself when it starts, line by line, and the interval of the heartbeat it
  starts with them.
\<close>

datatype start_line =
    Warned string
  | ProfileUnusable string string
  | NoUsableProfiles string nat
  | ProfilesLoaded nat nat "string list"
  | EntriesWaiting nat string
  | NoHeartbeat string

definition on_start ::
  "string list \<Rightarrow> unusable list \<Rightarrow> string list \<Rightarrow> state_paths \<Rightarrow> nat \<Rightarrow> environment \<Rightarrow>
     start_line list \<times> nat option" where
  "on_start warnings unusables names P undelivered env =
     (let every = interval_from env
      in (map Warned warnings @
          map (\<lambda>u. ProfileUnusable (un_path u) (un_reason u)) unusables @
          [if names = [] then NoUsableProfiles (profiles_dir P) (length unusables)
           else ProfilesLoaded (length names) (length unusables) names] @
          (if 0 < undelivered then [EntriesWaiting undelivered (journal_file P)] else []) @
          (if every = None then [NoHeartbeat INTERVAL_ENV] else []), every))"

text \<open>
  Once Google has answered, the worker runs; with unusable credentials the process exits. The
  handlers serve meanwhile, and what they do to the state is the argument \<open>meanwhile\<close>.
\<close>

definition service_run ::
  "('w, 'k, 'dt, 'nd) app_env \<Rightarrow> (nat \<Rightarrow> 'w \<Rightarrow> 'w) \<Rightarrow> ('w app \<Rightarrow> 'w app) \<Rightarrow> string option \<Rightarrow> signal list \<Rightarrow>
     'w app \<Rightarrow> (almanac_error + 'w loop) option" where
  "service_run E sleep meanwhile webhook signals A =
     (case startup_auth (env_services (env_google E)) (env_credentials (env_google E)) sleep 0
             (app_hub A) of
        None \<Rightarrow> None
      | Some (Some e, ws, h) \<Rightarrow> Some (Inl e)
      | Some (None, ws, h) \<Rightarrow> Some (Inr 
          (worker_run E webhook signals (meanwhile (A\<lparr>app_hub := h\<rparr>)))))"

text \<open>
  The orderly stop, when no request is in flight any more. The slot holds the worker's task once
  Google has answered; the flag is set, and the task is waited for. A task that crashed stays so.
\<close>

definition on_flush ::
  "('w, 'k, 'dt, 'nd) app_env \<Rightarrow> string option \<Rightarrow> 'w loop option \<Rightarrow> 'w loop option" where
  "on_flush E webhook slot =
     (case slot of
        Some (Running A W) \<Rightarrow> Some (worker_loop E webhook [Changed True] A W)
      | _ \<Rightarrow> slot)"

text \<open>A worker that runs is stopped after one more pass over the journal.\<close>

lemma flush_drains:
  assumes "drain_once E A = (Some n, A1)"
  shows "on_flush E webhook (Some (Running A W)) = Some (Finished A1)"
  using assms by (simp add: on_flush_def)

end
