(* ===== verification/Shell_Tests.thy ===== *)
theory Shell_Tests
  imports Core_Tests Token_Properties
begin

text \<open>
  The unit tests of src/shell that need no server: journal.rs, token_store.rs, notify.rs, datadir.rs
  and the knob of heartbeat.rs. A temporary directory is an empty file system; \<open>unwrap\<close> is the
  branch that fails.
\<close>

section \<open>shell/journal.rs\<close>

definition temp_journal :: "string \<Rightarrow> journal" where
  "temp_journal p = \<lparr>journal_path = p, max_bytes = DEFAULT_MAX_BYTES\<rparr>"

definition t_entry :: "string \<Rightarrow> entry" where
  "t_entry i =
     \<lparr>entry_id = i, entry_source = ''home-assistant'', received_at = ''2026-08-28T09:00:00+00:00'',
      payload = JObj [(''title'', JStr ''t'')], idempotency_key = None\<rparr>"

text \<open>Records appended one after the other, each with \<open>unwrap\<close>.\<close>

fun append_each :: "encoder \<Rightarrow> journal \<Rightarrow> log_record list \<Rightarrow> fs \<Rightarrow> fs option" where
  "append_each enc j [] fs = Some fs"
| "append_each enc j (r # rs) fs =
     (case journal_append enc j no_append_faults r fs of
        (Inl e, fs') \<Rightarrow> None
      | (Inr u, fs') \<Rightarrow> append_each enc j rs fs')"

definition an_accepted_entry_is_pending_until_marked_done :: "encoder \<Rightarrow> decoder \<Rightarrow> string \<Rightarrow> bool" where
  "an_accepted_entry_is_pending_until_marked_done enc dec p \<longleftrightarrow>
     (let journal = temp_journal p in
      case append_each enc journal [EntryRec (t_entry ''a'')] Map.empty of
        None \<Rightarrow> False
      | Some fs1 \<Rightarrow>
          map_sum id length (journal_pending dec journal None fs1) = Inr 1 \<and>
          (case append_each enc journal [Done ''a''] fs1 of
             None \<Rightarrow> False
           | Some fs2 \<Rightarrow> journal_pending dec journal None fs2 = Inr []))"

definition a_journal_that_does_not_exist_yet_has_nothing_pending :: "decoder \<Rightarrow> string \<Rightarrow> bool" where
  "a_journal_that_does_not_exist_yet_has_nothing_pending dec p \<longleftrightarrow>
     journal_pending dec (temp_journal p) None Map.empty = Inr []"

definition torn_text :: string where
  "torn_text = ''{\"kind\":\"entry\",\"id\":\"b\",\"sou''"

definition replay_survives_a_torn_final_line :: "encoder \<Rightarrow> decoder \<Rightarrow> string \<Rightarrow> bool" where
  "replay_survives_a_torn_final_line enc dec p \<longleftrightarrow>
     (let journal = temp_journal p in
      case append_each enc journal [EntryRec (t_entry ''a'')] Map.empty of
        None \<Rightarrow> False
      | Some fs1 \<Rightarrow>
          map_sum id (map entry_id)
            (journal_pending dec journal None (fs1(p \<mapsto> file_text fs1 p @ torn_text))) = Inr [''a''])"

definition damaged_text :: string where
  "damaged_text = ''garbage that is not json''"

definition done_text :: string where
  "done_text = ''{\"kind\":\"done\",\"id\":\"a\"}''"

definition a_damaged_line_that_is_not_the_tail_is_reported_not_silently_skipped ::
  "encoder \<Rightarrow> decoder \<Rightarrow> string \<Rightarrow> bool" where
  "a_damaged_line_that_is_not_the_tail_is_reported_not_silently_skipped enc dec p \<longleftrightarrow>
     (let journal = temp_journal p in
      case append_each enc journal [EntryRec (t_entry ''a'')] Map.empty of
        None \<Rightarrow> False
      | Some fs1 \<Rightarrow>
          (case journal_pending dec journal None
                  (fs1(p \<mapsto> file_text fs1 p @ damaged_text @ newline @ done_text @ newline)) of
             Inr es \<Rightarrow> False
           | Inl err \<Rightarrow>
               contains (error_display err) ''unparseable'' \<and> contains (remedy err) ''move it aside''))"

definition compaction_keeps_pending_entries_and_drops_delivered_ones ::
  "encoder \<Rightarrow> decoder \<Rightarrow> string \<Rightarrow> bool" where
  "compaction_keeps_pending_entries_and_drops_delivered_ones enc dec p \<longleftrightarrow>
     (let journal = temp_journal p in
      case append_each enc journal [EntryRec (t_entry ''a''), EntryRec (t_entry ''b''), Done ''a'']
             Map.empty of
        None \<Rightarrow> False
      | Some fs1 \<Rightarrow>
          (case journal_compact enc dec journal None no_rewrite_faults fs1 of
             (Inl e, fs2) \<Rightarrow> False
           | (Inr kept, fs2) \<Rightarrow>
               kept = 1 \<and> length (file_text fs2 p) < length (file_text fs1 p) \<and>
               map_sum id (map entry_id) (journal_pending dec journal None fs2) = Inr [''b'']))"

text \<open>The loop of the test, up to a number of rounds; no error within them is \<open>None\<close>.\<close>

fun until_refused :: "nat \<Rightarrow> encoder \<Rightarrow> journal \<Rightarrow> entry \<Rightarrow> fs \<Rightarrow> almanac_error option" where
  "until_refused 0 enc j e fs = None"
| "until_refused (Suc n) enc j e fs =
     (case journal_accept enc j no_append_faults e fs of
        (Inr u, fs') \<Rightarrow> until_refused n enc j e fs'
      | (Inl err, fs') \<Rightarrow> Some err)"

definition the_size_cap_refuses_loudly_instead_of_filling_the_disk :: "encoder \<Rightarrow> string \<Rightarrow> bool" where
  "the_size_cap_refuses_loudly_instead_of_filling_the_disk enc p \<longleftrightarrow>
     (let journal = \<lparr>journal_path = p, max_bytes = 200\<rparr> in
      case append_each enc journal [EntryRec (t_entry ''a'')] Map.empty of
        None \<Rightarrow> False
      | Some fs1 \<Rightarrow>
          (case until_refused 201 enc journal (t_entry ''filler'') fs1 of
             None \<Rightarrow> False
           | Some err \<Rightarrow> contains (error_display err) ''cap'' \<and> contains (remedy err) ''failing''))"

definition entries_replay_in_acceptance_order :: "encoder \<Rightarrow> decoder \<Rightarrow> string \<Rightarrow> bool" where
  "entries_replay_in_acceptance_order enc dec p \<longleftrightarrow>
     (let journal = temp_journal p in
      case append_each enc journal (map (EntryRec \<circ> t_entry) [''a'', ''b'', ''c'']) Map.empty of
        None \<Rightarrow> False
      | Some fs1 \<Rightarrow>
          map_sum id (map entry_id) (journal_pending dec journal None fs1) = Inr [''a'', ''b'', ''c''])"

lemma append_fits:
  assumes "record_codec enc dec" "disk_holds enc j rs fs"
    "length (image_of enc (rs @ [r])) \<le> max_bytes j"
  shows "\<exists>fs'. journal_append enc j no_append_faults r fs = (Inr (), fs') \<and>
    disk_holds enc j (rs @ [r]) fs'"
proof -
  obtain res fs' where run: "journal_append enc j no_append_faults r fs = (res, fs')" by fastforce
  have "existing_size j no_append_faults fs = length (file_text fs (journal_path j))"
    by (simp add: existing_size_def no_append_faults_def file_text_def split: option.split)
  moreover have "mkdir_error j no_append_faults = None"
    by (auto simp: mkdir_error_def no_append_faults_def split: option.split)
  ultimately have "res = Inr ()"
    using run assms(2,3) record_codecD(1) [OF assms(1), of r]
    by (simp add: journal_append_def no_append_faults_def disk_holds_def Let_def)
  with run append_holds [OF assms(1,2)] show ?thesis by blast
qed

lemma append_each_fits:
  assumes "record_codec enc dec"
  shows "disk_holds enc j rs fs \<Longrightarrow> length (image_of enc (rs @ xs)) \<le> max_bytes j \<Longrightarrow>
    \<exists>fs'. append_each enc j xs fs = Some fs' \<and> disk_holds enc j (rs @ xs) fs'"
proof (induction xs arbitrary: rs fs)
  case Nil
  then show ?case by simp
next
  case (Cons x xs)
  have all: "rs @ x # xs = (rs @ [x]) @ xs" by simp
  have "length (image_of enc (rs @ [x])) \<le> length (image_of enc (rs @ x # xs))"
    unfolding all by (simp add: image_of_def log_text_def)
  with Cons.prems append_fits [OF assms Cons.prems(1), of x] obtain fs1 where
    "journal_append enc j no_append_faults x fs = (Inr (), fs1)" "disk_holds enc j (rs @ [x]) fs1"
    by fastforce
  with Cons.IH [of "rs @ [x]" fs1] Cons.prems(2) show ?case by simp
qed

lemma torn_texts_plain:
  "utf8_valid torn_text" "CHR 0x0A \<notin> set torn_text" "torn_text \<noteq> []" "\<not> is_blank torn_text"
  "utf8_valid damaged_text" "CHR 0x0A \<notin> set damaged_text" "\<not> is_blank damaged_text"
  "strip_cr damaged_text = damaged_text"
  "utf8_valid done_text" "CHR 0x0A \<notin> set done_text" "strip_cr done_text = done_text"
  by code_simp+

lemma journal_file_tests_hold:
  assumes "record_codec enc dec"
    and "\<forall>r \<in> {EntryRec (t_entry ''a''), EntryRec (t_entry ''b''), EntryRec (t_entry ''c''), Done ''a''}.
           length (encoded enc r) < 10 ^ 6"
  shows "an_accepted_entry_is_pending_until_marked_done enc dec p"
    "a_journal_that_does_not_exist_yet_has_nothing_pending dec p"
    "compaction_keeps_pending_entries_and_drops_delivered_ones enc dec p"
    "entries_replay_in_acceptance_order enc dec p"
proof -
  let ?j = "temp_journal p"
  have sizes: "length (encoded enc (EntryRec (t_entry ''a''))) < 1000000"
    "length (encoded enc (EntryRec (t_entry ''b''))) < 1000000"
    "length (encoded enc (EntryRec (t_entry ''c''))) < 1000000"
    "length (encoded enc (Done ''a'')) < 1000000"
    using assms(2) by auto
  have cap: "max_bytes ?j = 67108864" by (simp add: temp_journal_def DEFAULT_MAX_BYTES_def)
  have empty_file: "disk_holds enc ?j [] Map.empty"
    by (simp add: disk_holds_def file_text_def)
  note run = append_each_fits [OF assms(1), where j = ?j]
  note read = holds_read [OF assms(1), where j = ?j]
  have newline: "length newline = 1" by (simp add: newline_def)
  show "a_journal_that_does_not_exist_yet_has_nothing_pending dec p"
    by (simp add: a_journal_that_does_not_exist_yet_has_nothing_pending_def journal_pending_def
        read_records_def pending_eq)
  obtain fs1 where one: "append_each enc ?j [EntryRec (t_entry ''a'')] Map.empty = Some fs1"
    "disk_holds enc ?j [EntryRec (t_entry ''a'')] fs1"
    using run [OF empty_file, where xs = "[EntryRec (t_entry ''a'')]"] sizes
    by (auto simp: image_cons cap newline simp del: append_each.simps)
  obtain fs2 where two: "append_each enc ?j [Done ''a''] fs1 = Some fs2"
    "disk_holds enc ?j [EntryRec (t_entry ''a''), Done ''a''] fs2"
    using run [OF one(2), where xs = "[Done ''a'']"] sizes by (auto simp: image_cons cap newline simp del: append_each.simps)
  show "an_accepted_entry_is_pending_until_marked_done enc dec p"
    using one(1) two(1) read [OF one(2)] read [OF two(2)]
    by (simp add: an_accepted_entry_is_pending_until_marked_done_def journal_pending_def pending_eq
        t_entry_def)
  obtain fs3 where three: "append_each enc ?j (map (EntryRec \<circ> t_entry) [''a'', ''b'', ''c'']) Map.empty = Some fs3"
    "disk_holds enc ?j (map (EntryRec \<circ> t_entry) [''a'', ''b'', ''c'']) fs3"
    using run [OF empty_file, where xs = "map (EntryRec \<circ> t_entry) [''a'', ''b'', ''c'']"] sizes
    by (auto simp: image_cons cap newline simp del: append_each.simps)
  show "entries_replay_in_acceptance_order enc dec p"
    using three(1) read [OF three(2)]
    by (simp add: entries_replay_in_acceptance_order_def journal_pending_def pending_eq t_entry_def)
  let ?rs = "[EntryRec (t_entry ''a''), EntryRec (t_entry ''b''), Done ''a'']"
  obtain fs4 where four: "append_each enc ?j ?rs Map.empty = Some fs4" "disk_holds enc ?j ?rs fs4"
    using run [OF empty_file, where xs = ?rs] sizes by (auto simp: image_cons cap newline simp del: append_each.simps)
  have kept: "compact_records ?rs = [EntryRec (t_entry ''b'')]"
    by code_simp
  obtain fs5 where five: "journal_compact enc dec ?j None no_rewrite_faults fs4 =
      (Inr (length (compact_records ?rs)), fs5)"
    using compact_clean [OF assms(1) four(2)] by blast
  from compact_success(1) [OF assms(1) four(2) five] have after: "disk_holds enc ?j [EntryRec (t_entry ''b'')] fs5"
    by (simp only: kept)
  have "journal_compact enc dec ?j None no_rewrite_faults fs4 = (Inr 1, fs5)"
    using five by (simp only: kept) simp
  moreover have "length (file_text fs5 p) < length (file_text fs4 p)"
    using four(2) after by (simp add: disk_holds_def image_cons temp_journal_def newline)
  moreover have "map entry_id (pending [EntryRec (t_entry ''b'')]) = [''b'']"
    by code_simp
  ultimately show "compaction_keeps_pending_entries_and_drops_delivered_ones enc dec p"
    using four(1) read [OF after]
    by (simp add: compaction_keeps_pending_entries_and_drops_delivered_ones_def journal_pending_def
        del: append_each.simps)
qed

text \<open>The tests that damage the file say what the decoder makes of the two broken texts.\<close>

lemma damaged_file_tests_hold:
  assumes "record_codec enc dec" "length (encoded enc (EntryRec (t_entry ''a''))) < 10 ^ 6"
  shows "dec torn_text = Inl e \<Longrightarrow> replay_survives_a_torn_final_line enc dec p"
    "dec damaged_text = Inl e \<Longrightarrow>
     a_damaged_line_that_is_not_the_tail_is_reported_not_silently_skipped enc dec p"
proof -
  let ?j = "temp_journal p"
  let ?a = "EntryRec (t_entry ''a'')"
  have path: "journal_path ?j = p" by (simp add: temp_journal_def)
  have empty_file: "disk_holds enc ?j [] Map.empty"
    by (simp add: disk_holds_def file_text_def)
  obtain fs1 where one: "append_each enc ?j [?a] Map.empty = Some fs1" "disk_holds enc ?j [?a] fs1"
    using append_each_fits [OF assms(1) empty_file, of "[?a]"] assms(2)
    by (auto simp: image_cons temp_journal_def DEFAULT_MAX_BYTES_def newline_def
        simp del: append_each.simps)
  have content: "file_text fs1 p = image_of enc [?a]"
    using one(2) by (simp add: disk_holds_def path)
  note plain = torn_texts_plain
  note image = utf8_image [OF assms(1), of "[?a]"]
  show "replay_survives_a_torn_final_line enc dec p" if torn: "dec torn_text = Inl e"
  proof -
    have "\<not> (image_of enc [?a] @ torn_text = [] \<or> last (image_of enc [?a] @ torn_text) = CHR 0x0A)"
      using plain(2,3) by (metis append_is_Nil_conv last_appendR last_in_set)
    moreover have "lines (image_of enc [?a] @ torn_text) = map (encoded enc) [?a] @ [torn_text]"
      using lines_image [OF assms(1) plain(2)] plain(3) by simp
    ultimately have "parse_journal dec p (image_of enc [?a] @ torn_text) = Inr [?a]"
      unfolding parse_journal_def Let_def
      by (simp add: parse_lines_image [OF assms(1), where rs = "[?a]", simplified] torn plain(4)
          del: append_is_Nil_conv)
    then have "read_records dec ?j None (fs1(p \<mapsto> file_text fs1 p @ torn_text)) = Inr [?a]"
      by (simp add: read_records_def path content utf8_append [OF image] plain(1))
    then show ?thesis
      using one(1) by (simp add: replay_survives_a_torn_final_line_def journal_pending_def pending_eq
          t_entry_def)
  qed
  show "a_damaged_line_that_is_not_the_tail_is_reported_not_silently_skipped enc dec p"
    if bad: "dec damaged_text = Inl e"
  proof -
    let ?c = "image_of enc [?a] @ damaged_text @ newline @ done_text @ newline"
    have "?c = log_text [encoded enc ?a, damaged_text, done_text]"
      by (simp add: image_of_def log_text_def)
    moreover have "lines (log_text [encoded enc ?a, damaged_text, done_text] @ []) =
        map strip_cr [encoded enc ?a, damaged_text, done_text] @ []"
      using record_codecD(5) [OF assms(1)] plain(6,10) by (subst lines_log_text) auto
    ultimately have ls: "lines ?c = map (encoded enc) [?a] @ [damaged_text, done_text]"
      using record_codecD(6) [OF assms(1)] plain(8,11) by simp
    have clean: "?c = [] \<or> last ?c = CHR 0x0A" by (simp add: newline_def)
    have "parse_journal dec p ?c = Inl
        (Config (''journal '' @ p @ '' line '' @ show_nat 2 @ '' is unparseable: '' @ e)
          (''the journal is damaged beyond the usual torn-tail case; move it '' @
           ''aside to inspect before restarting, since doing so abandons any '' @
           ''undelivered events it holds''))" (is "_ = Inl ?err")
      unfolding parse_journal_def Let_def ls
      using clean by (simp only: parse_lines_image [OF assms(1)] parse_lines.simps plain(7) bad if_False
          sum.case bind_result.simps) (simp add: numeral_2_eq_2)
    moreover have "utf8_valid ?c"
      using plain(5,9) by (simp add: utf8_append [OF image] utf8_append)
    ultimately have "journal_pending dec ?j None (fs1(p \<mapsto> ?c)) = Inl ?err"
      by (simp add: journal_pending_def read_records_def path)
    moreover have "contains (error_display ?err) ''unparseable''"
    proof -
      have "contains (''unparseable'' @ '': '' @ e @ r) ''unparseable''" for r
        by (rule contains_here)
      then have "contains ((''journal '' @ p @ '' line '' @ show_nat 2 @ '' is '') @
          (''unparseable'' @ '': '' @ e @ r)) ''unparseable''" for r
        by (rule contains_behind)
      then show ?thesis by (simp add: error_display_def)
    qed
    moreover have "contains (remedy ?err) ''move it aside''" by code_simp
    ultimately show ?thesis
      using one(1) content
      by (simp add: a_damaged_line_that_is_not_the_tail_is_reported_not_silently_skipped_def
          del: append_each.simps)
  qed
qed

text \<open>The loop that fills the journal ends: every round writes at least one byte.\<close>

lemma refused_in_time:
  assumes "record_codec enc dec"
  shows "max_bytes j < length (file_text fs (journal_path j)) + n \<Longrightarrow>
    until_refused n enc j e fs = Some (cap_error j) \<or> max_bytes j < length (file_text fs (journal_path j))"
proof (induction n arbitrary: fs)
  case 0
  then show ?case by simp
next
  case (Suc n)
  obtain res fs' where run: "journal_append enc j no_append_faults (EntryRec e) fs = (res, fs')" by fastforce
  have size: "existing_size j no_append_faults fs = length (file_text fs (journal_path j))"
    by (simp add: existing_size_def no_append_faults_def file_text_def split: option.split)
  have dir: "mkdir_error j no_append_faults = None"
    by (auto simp: mkdir_error_def no_append_faults_def split: option.split)
  have no_faults: "open_fault no_append_faults = None" "append_fault no_append_faults = None"
    "fsync_fault no_append_faults = None"
    by (simp_all add: no_append_faults_def)
  let ?line = "encoded enc (EntryRec e) @ newline"
  show ?case
  proof (cases "length (file_text fs (journal_path j)) + length ?line > max_bytes j")
    case True
    with run have "res = Inl (cap_error j)"
      using record_codecD(1) [OF assms, of "EntryRec e"] by (simp add: journal_append_def Let_def dir size)
    with run show ?thesis by (simp add: journal_accept_def)
  next
    case False
    with run have res: "res = Inr ()"
      and fs': "file_text fs' (journal_path j) = file_text fs (journal_path j) @ ?line"
      using record_codecD(1) [OF assms, of "EntryRec e"]
      by (auto simp: journal_append_def Let_def dir size no_faults file_text_def)
    have "max_bytes j < length (file_text fs' (journal_path j)) + n"
      using Suc.prems by (simp add: fs' newline_def)
    with Suc.IH [of fs'] False run res show ?thesis
      by (auto simp: journal_accept_def fs')
  qed
qed

lemma cap_test_holds:
  assumes "record_codec enc dec" "length (encoded enc (EntryRec (t_entry ''a''))) < 200"
  shows "the_size_cap_refuses_loudly_instead_of_filling_the_disk enc p"
proof -
  let ?j = "\<lparr>journal_path = p, max_bytes = 200\<rparr>"
  have empty_file: "disk_holds enc ?j [] Map.empty"
    by (simp add: disk_holds_def file_text_def)
  obtain fs1 where one: "append_each enc ?j [EntryRec (t_entry ''a'')] Map.empty = Some fs1"
    "disk_holds enc ?j [EntryRec (t_entry ''a'')] fs1"
    using append_each_fits [OF assms(1) empty_file, of "[EntryRec (t_entry ''a'')]"] assms(2)
    by (auto simp: image_cons newline_def simp del: append_each.simps)
  have "\<not> max_bytes ?j < length (file_text fs1 p)"
    using one(2) assms(2) by (simp add: disk_holds_def image_cons newline_def)
  with refused_in_time [OF assms(1), of ?j fs1 201 "t_entry ''filler''"]
  have "until_refused 201 enc ?j (t_entry ''filler'') fs1 = Some (cap_error ?j)"
    by simp
  moreover have "contains (error_display (cap_error ?j)) ''cap''"
  proof -
    have "contains (''cap'' @ r) ''cap''" for r by (rule contains_here)
    then have "contains ((''journal '' @ p @ '' would exceed its '' @ show_nat 200 @ '' byte '') @ (''cap'' @ r)) ''cap''" for r
      by (rule contains_behind)
    then show ?thesis by (simp add: error_display_def cap_error_def)
  qed
  moreover have "contains (remedy (cap_error ?j)) ''failing''"
    unfolding cap_error_def almanac_error.sel by code_simp
  ultimately show ?thesis
    using one(1) by (simp add: the_size_cap_refuses_loudly_instead_of_filling_the_disk_def
        del: append_each.simps until_refused.simps)
qed

section \<open>shell/notify.rs, shell/datadir.rs, shell/heartbeat.rs\<close>

definition a_notifier_with_no_webhook_is_disabled_rather_than_broken :: bool where
  "a_notifier_with_no_webhook_is_disabled_rather_than_broken \<longleftrightarrow>
     \<not> notifier_is_enabled notifier_disabled"

definition sending_without_a_webhook_is_a_no_op_not_a_panic :: "('w, 'k) services \<Rightarrow> 'w hub \<Rightarrow> bool" where
  "sending_without_a_webhook_is_a_no_op_not_a_panic S h \<longleftrightarrow>
     notifier_send S notifier_disabled
       \<lparr>notice_op = UPDATE_REVERTED, notice_ok = False, notice_version = ''0.2.0'',
        notice_error = Some ''did not come up''\<rparr> h = h"

definition the_payload_matches_the_shape_home_assistant_already_parses :: bool where
  "the_payload_matches_the_shape_home_assistant_already_parses \<longleftrightarrow>
     (let json = notice_to_json \<lparr>notice_op = UPDATE_APPLIED, notice_ok = True,
                   notice_version = ''0.2.0'', notice_error = None\<rparr>
      in json_index json ''op'' = JStr ''almanac-update'' \<and> json_index json ''ok'' = JBool True \<and>
         json_index json ''version'' = JStr ''0.2.0'' \<and> json_get json ''error'' = None)"

definition a_failure_carries_its_reason :: bool where
  "a_failure_carries_its_reason \<longleftrightarrow>
     (let json = notice_to_json \<lparr>notice_op = UPDATE_UNVERIFIED, notice_ok = False,
                   notice_version = ''0.2.0'', notice_error = Some ''signature does not verify''\<rparr>
      in json_index json ''ok'' = JBool False \<and>
         json_index json ''error'' = JStr ''signature does not verify'')"

definition the_operation_names_are_distinct_so_alerts_do_not_collapse_into_each_other :: bool where
  "the_operation_names_are_distinct_so_alerts_do_not_collapse_into_each_other \<longleftrightarrow>
     distinct [UPDATE_APPLIED, UPDATE_REVERTED, UPDATE_UNVERIFIED, JOURNAL_BACKLOG]"

lemma notify_tests_hold:
  "a_notifier_with_no_webhook_is_disabled_rather_than_broken"
  "sending_without_a_webhook_is_a_no_op_not_a_panic S h"
  "the_payload_matches_the_shape_home_assistant_already_parses" "a_failure_carries_its_reason"
  "the_operation_names_are_distinct_so_alerts_do_not_collapse_into_each_other"
proof -
  show "sending_without_a_webhook_is_a_no_op_not_a_panic S h"
    by (simp add: sending_without_a_webhook_is_a_no_op_not_a_panic_def notifier_send_def
        notifier_disabled_def)
qed code_simp+

definition an_unset_interval_is_an_hour :: bool where
  "an_unset_interval_is_an_hour \<longleftrightarrow> interval_from (\<lambda>_. None) = Some DEFAULT_INTERVAL"

definition zero_switches_it_off :: bool where
  "zero_switches_it_off \<longleftrightarrow> interval_from (\<lambda>_. Some ''0'') = None"

definition a_number_is_taken_as_seconds :: bool where
  "a_number_is_taken_as_seconds \<longleftrightarrow>
     interval_from (\<lambda>_. Some ''90'') = Some 90 \<and> interval_from (\<lambda>_. Some ''  120 '') = Some 120"

definition a_typo_falls_back_to_the_default_rather_than_to_silence :: bool where
  "a_typo_falls_back_to_the_default_rather_than_to_silence \<longleftrightarrow>
     interval_from (\<lambda>_. Some ''hourly'') = Some DEFAULT_INTERVAL \<and>
     interval_from (\<lambda>_. Some []) = Some DEFAULT_INTERVAL"

lemma heartbeat_tests_hold:
  "an_unset_interval_is_an_hour" "zero_switches_it_off" "a_number_is_taken_as_seconds"
  "a_typo_falls_back_to_the_default_rather_than_to_silence"
proof -
  have trims: "trim ''0'' = ''0''" "trim ''90'' = ''90''" "trim ''  120 '' = ''120''"
    "trim ''hourly'' = ''hourly''" "trim [] = []"
    by code_simp+
  have digits: "parse_digits ''0'' = Some 0" "parse_digits ''90'' = Some 90"
    "parse_digits ''120'' = Some 120" "parse_digits ''hourly'' = None" "parse_digits [] = None"
    by code_simp+
  note knob = interval_from_def parse_u64_def
  show "an_unset_interval_is_an_hour"
    by (simp add: an_unset_interval_is_an_hour_def knob)
  show "zero_switches_it_off"
    by (simp add: zero_switches_it_off_def knob trims digits)
  show "a_number_is_taken_as_seconds"
    by (simp add: a_number_is_taken_as_seconds_def knob trims digits)
  show "a_typo_falls_back_to_the_default_rather_than_to_silence"
    by (simp add: a_typo_falls_back_to_the_default_rather_than_to_silence_def knob trims digits)
qed

text \<open>What \<open>flock\<close> answers is an argument; the second holder meets a lock that is taken.\<close>

definition no_lock_faults :: lock_faults where
  "no_lock_faults = \<lparr>lock_mkdir = None, lock_open = None, lock_taken = (\<lambda>p. None)\<rparr>"

definition the_first_holder_gets_the_lock :: "string \<Rightarrow> bool" where
  "the_first_holder_gets_the_lock dir \<longleftrightarrow> fst (acquire_lock no_lock_faults dir Map.empty) = Inr ()"

definition a_second_holder_is_refused_and_told_why :: "string \<Rightarrow> string \<Rightarrow> bool" where
  "a_second_holder_is_refused_and_told_why e dir \<longleftrightarrow>
     (case acquire_lock no_lock_faults dir Map.empty of
        (Inl err, fs) \<Rightarrow> False
      | (Inr u, fs) \<Rightarrow>
          (case fst (acquire_lock (no_lock_faults\<lparr>lock_taken := [lock_path dir \<mapsto> e]\<rparr>) dir fs) of
             Inr u' \<Rightarrow> False
           | Inl err \<Rightarrow>
               contains (error_display err) ''already holds'' \<and> contains (remedy err) ''twice''))"

lemma datadir_tests_hold:
  "the_first_holder_gets_the_lock dir" "a_second_holder_is_refused_and_told_why e dir"
proof -
  show "the_first_holder_gets_the_lock dir"
    by (simp add: the_first_holder_gets_the_lock_def acquire_lock_def no_lock_faults_def)
  let ?why = "''stop the running instance first '' @ em_dash @ '' two processes sharing '' @
      ''one journal would deliver the same event twice and can lose delivery '' @ ''records (AR22)''"
  have "contains (''another almanac process '' @ ''already holds'' @ r) ''already holds''" for r
    by (rule contains_behind) (rule contains_here)
  moreover have "contains ?why ''twice''" by code_simp
  ultimately show "a_second_holder_is_refused_and_told_why e dir"
    by (simp add: a_second_holder_is_refused_and_told_why_def acquire_lock_def no_lock_faults_def lock_held_error_def
        error_display_def)
qed

end
