(* ===== verification/Durability.thy ===== *)
theory Durability
  imports Journal_Disk Token_Store Profile_Store
begin

text \<open>
  What a power cut leaves of the files: src/shell/durability.rs, and the system calls of the journal,
  of the token store and of the profile writer one by one.

  Files has what a running process sees. Here a file name leads to an inode, and both have, beside
  what the running system sees, everything the platter may hold: the contents an inode has had since
  it was last flushed, and the inodes a name has led to since its directory was last flushed. A write
  reaches the platter from the front, so an inode may hold any beginning of what was being written.
  After a power cut each name has one of the contents it may hold. Directories themselves are taken
  to exist. A process that is killed, or stopped by the cut, between two calls leaves what the run
  whose next call fails leaves, so the faults of each operation cover all points of interruption.
\<close>

section \<open>Disks\<close>

record disk =
  inode_seen :: "nat \<Rightarrow> string"
  inode_may :: "nat \<Rightarrow> string set"
  name_seen :: "string \<rightharpoonup> nat"
  name_may :: "string \<Rightarrow> nat option set"
  next_inode :: nat

text \<open>The running system's view, and the contents a name may have after a cut.\<close>

definition seen :: "disk \<Rightarrow> fs" where
  "seen D p = map_option (inode_seen D) (name_seen D p)"

fun contents_of :: "(nat \<Rightarrow> string set) \<Rightarrow> nat option \<Rightarrow> string option set" where
  "contents_of M None = {None}"
| "contents_of M (Some i) = Some ` M i"

definition may_hold :: "disk \<Rightarrow> string \<Rightarrow> string option set" where
  "may_hold D p = (\<Union>v \<in> name_may D p. contents_of (inode_may D) v)"

definition power_cut :: "disk \<Rightarrow> fs \<Rightarrow> bool" where
  "power_cut D fs \<longleftrightarrow> (\<forall>p. fs p \<in> may_hold D p)"

section \<open>System calls\<close>

definition new_inode :: "string \<Rightarrow> disk \<Rightarrow> nat \<times> disk" where
  "new_inode p D =
     (let i = next_inode D in
      (i, D\<lparr>inode_seen := (inode_seen D)(i := []), inode_may := (inode_may D)(i := {[]}),
            name_seen := (name_seen D)(p \<mapsto> i),
            name_may := (name_may D)(p := insert (Some i) (name_may D p)),
            next_inode := Suc i\<rparr>))"

text \<open>\<open>File::create\<close>, and opening for append.\<close>

definition sys_create :: "string \<Rightarrow> disk \<Rightarrow> nat \<times> disk" where
  "sys_create p D =
     (case name_seen D p of
        None \<Rightarrow> new_inode p D
      | Some i \<Rightarrow>
          (i, D\<lparr>inode_seen := (inode_seen D)(i := []),
                inode_may := (inode_may D)(i := insert [] (inode_may D i))\<rparr>))"

definition sys_open :: "string \<Rightarrow> disk \<Rightarrow> nat \<times> disk" where
  "sys_open p D = (case name_seen D p of None \<Rightarrow> new_inode p D | Some i \<Rightarrow> (i, D))"

definition sys_write :: "nat \<Rightarrow> string \<Rightarrow> disk \<Rightarrow> disk" where
  "sys_write i chunk D =
     D\<lparr>inode_seen := (inode_seen D)(i := inode_seen D i @ chunk),
       inode_may := (inode_may D)
         (i := inode_may D i \<union> (\<lambda>k. inode_seen D i @ take k chunk) ` {..length chunk})\<rparr>"

definition sys_sync :: "nat \<Rightarrow> disk \<Rightarrow> disk" where
  "sys_sync i D = D\<lparr>inode_may := (inode_may D)(i := {inode_seen D i})\<rparr>"

definition sys_rename :: "string \<Rightarrow> string \<Rightarrow> disk \<Rightarrow> disk" where
  "sys_rename a b D =
     (if a = b then D
      else D\<lparr>name_seen := (name_seen D)(b := name_seen D a, a := None),
             name_may := (name_may D)(b := insert (name_seen D a) (name_may D b),
                                      a := insert None (name_may D a))\<rparr>)"

definition dir_of :: "string \<Rightarrow> string option" where
  "dir_of p = map_option (\<lambda>up. if up = [] then ''.'' else up) (path_parent p)"

definition sys_sync_dir :: "string \<Rightarrow> disk \<Rightarrow> disk" where
  "sys_sync_dir dir D =
     D\<lparr>name_may := (\<lambda>p. if dir_of p = Some dir then {name_seen D p} else name_may D p)\<rparr>"

text \<open>
  Opening the directory, or flushing it, may fail; then a warning is logged and nothing else
  happens.
\<close>

record dir_faults =
  dir_open_fails :: bool
  dir_sync_fails :: bool

definition no_dir_faults :: dir_faults where
  "no_dir_faults = \<lparr>dir_open_fails = False, dir_sync_fails = False\<rparr>"

definition fsync_parent_dir :: "dir_faults \<Rightarrow> string \<Rightarrow> disk \<Rightarrow> disk" where
  "fsync_parent_dir F p D =
     (case path_parent p of
        None \<Rightarrow> D
      | Some parent \<Rightarrow>
          (let dir = (if parent = [] then ''.'' else parent) in
           if dir_open_fails F then D else if dir_sync_fails F then D else sys_sync_dir dir D))"

section \<open>The operations, call by call\<close>

definition replace_on_disk ::
  "rewrite_errors \<Rightarrow> rewrite_faults \<Rightarrow> string \<Rightarrow> string \<Rightarrow> string \<Rightarrow> disk \<Rightarrow> unit result \<times> disk"
  where
  "replace_on_disk E F temp target body D =
     (case create_fault F of
        Some e \<Rightarrow> (Inl (create_error E e), D)
      | None \<Rightarrow>
          (case sys_create temp D of (i, D1) \<Rightarrow>
             (case write_fault F of
                Some (n, e) \<Rightarrow> (Inl (write_error E e), sys_write i (take n body) D1)
              | None \<Rightarrow>
                  (let D2 = sys_write i body D1 in
                   case sync_fault F of
                     Some e \<Rightarrow> (Inl (sync_error E e), D2)
                   | None \<Rightarrow>
                       (let D3 = sys_sync i D2 in
                        case rename_fault F of
                          Some e \<Rightarrow> (Inl (rename_error E e), D3)
                        | None \<Rightarrow> (Inr (), sys_rename temp target D3))))))"

text \<open>The compaction and the token store flush the directory afterwards; the profile writer does not.\<close>

definition flushed_replace ::
  "rewrite_errors \<Rightarrow> rewrite_faults \<times> dir_faults \<Rightarrow> string \<Rightarrow> string \<Rightarrow> string \<Rightarrow> disk \<Rightarrow>
     unit result \<times> disk"
  where
  "flushed_replace E F temp target body D =
     (case replace_on_disk E (fst F) temp target body D of
        (Inl e, D') \<Rightarrow> (Inl e, D')
      | (Inr u, D') \<Rightarrow> (Inr u, fsync_parent_dir (snd F) target D'))"

definition compact_on_disk ::
  "rewrite_faults \<times> dir_faults \<Rightarrow> string \<Rightarrow> string \<Rightarrow> disk \<Rightarrow> unit result \<times> disk" where
  "compact_on_disk F p = flushed_replace (compact_errors p) F (compact_temp p) p"

definition store_on_disk ::
  "rewrite_faults \<times> dir_faults \<Rightarrow> string \<Rightarrow> string \<Rightarrow> disk \<Rightarrow> unit result \<times> disk" where
  "store_on_disk F p = flushed_replace (store_errors p) F (store_temp p) p"

definition profile_on_disk ::
  "rewrite_faults \<Rightarrow> string \<Rightarrow> string \<Rightarrow> disk \<Rightarrow> unit result \<times> disk" where
  "profile_on_disk F p = replace_on_disk (profile_write_errors p) F (profile_temp p) p"

definition append_on_disk ::
  "encoder \<Rightarrow> journal \<Rightarrow> append_faults \<Rightarrow> log_record \<Rightarrow> disk \<Rightarrow> unit result \<times> disk" where
  "append_on_disk enc j F r D =
     (case enc r of
        Inl e \<Rightarrow>
          (Inl (Config (''failed to serialize a journal record: '' @ e)
                 ''this is a bug in almanac; the payload could not be re-encoded''), D)
      | Inr text \<Rightarrow>
          (let p = journal_path j; line = text @ newline in
           case mkdir_error j F of
             Some err \<Rightarrow> (Inl err, D)
           | None \<Rightarrow>
               if existing_size j F (seen D) + length line > max_bytes j then (Inl (cap_error j), D)
               else
                 (case open_fault F of
                    Some e \<Rightarrow>
                      (Inl (Config (''failed to open journal '' @ p @ '': '' @ e)
                             (''check permissions on '' @ p)), D)
                  | None \<Rightarrow>
                      (case sys_open p D of (i, D1) \<Rightarrow>
                         (case append_fault F of
                            Some (n, e) \<Rightarrow>
                              (Inl (Config (''failed to write to journal '' @ p @ '': '' @ e)
                                     ''check free disk space and permissions''),
                               sys_write i (take n line) D1)
                          | None \<Rightarrow>
                              (let D2 = sys_write i line D1 in
                               case fsync_fault F of
                                 Some e \<Rightarrow>
                                   (Inl (Config (''failed to fsync journal '' @ p @ '': '' @ e)
                                          (''the filesystem rejected a durability barrier; '' @
                                           ''check disk health'')), D2)
                               | None \<Rightarrow> (Inr (), sys_sync i D2)))))))"

definition journal_compact_on_disk ::
  "encoder \<Rightarrow> decoder \<Rightarrow> journal \<Rightarrow> string option \<Rightarrow> rewrite_faults \<times> dir_faults \<Rightarrow> disk \<Rightarrow>
     nat result \<times> disk" where
  "journal_compact_on_disk enc dec j fault F D =
     (case read_records dec j fault (seen D) of
        Inl e \<Rightarrow> (Inl e, D)
      | Inr rs \<Rightarrow>
          (let kept = compact_records rs in
           case encode_body enc kept of
             Inl e \<Rightarrow> (Inl e, D)
           | Inr body \<Rightarrow>
               (case compact_on_disk F (journal_path j) body D of
                  (Inl e, D') \<Rightarrow> (Inl e, D')
                | (Inr _, D') \<Rightarrow> (Inr (length kept), D'))))"

definition persist_on_disk ::
  "json_text \<Rightarrow> persist_faults \<times> dir_faults \<Rightarrow> token_store \<Rightarrow> disk \<Rightarrow> unit result \<times> disk" where
  "persist_on_disk J F S D =
     (case js_print J (store_to_json (ts_tokens S) (ts_sessions S)) of
        Inl e \<Rightarrow>
          (Inl (Config (''failed to serialize the token store: '' @ e) ''this is a bug in almanac''), D)
      | Inr body \<Rightarrow>
          (case (store_dir (ts_path S), mkdir_fault (fst F)) of
             (Some d, Some e) \<Rightarrow>
               (Inl (Config (''failed to create '' @ d @ '': '' @ e) (''check permissions on '' @ d)), D)
           | _ \<Rightarrow> store_on_disk (rewrite_fault (fst F), snd F) (ts_path S) body D))"

section \<open>Well-formed disks\<close>

text \<open>
  The platter may hold what is seen, new inodes are unused ones, and no two names lead to one inode
  (the code makes no links). A name is \<open>apart\<close> when nothing that it may still lead to is being
  written through another name.
\<close>

definition disk_ok :: "disk \<Rightarrow> bool" where
  "disk_ok D \<longleftrightarrow>
     (\<forall>p. name_seen D p \<in> name_may D p) \<and> (\<forall>i. inode_seen D i \<in> inode_may D i) \<and>
     (\<forall>p i. Some i \<in> name_may D p \<longrightarrow> i < next_inode D) \<and>
     (\<forall>p q i. name_seen D p = Some i \<longrightarrow> name_seen D q = Some i \<longrightarrow> p = q)"

definition apart :: "disk \<Rightarrow> string \<Rightarrow> bool" where
  "apart D p \<longleftrightarrow> (\<forall>q i. Some i \<in> name_may D p \<longrightarrow> name_seen D q = Some i \<longrightarrow> q = p)"

lemma disk_okD:
  assumes "disk_ok D"
  shows "name_seen D p \<in> name_may D p" "inode_seen D i \<in> inode_may D i"
    "Some i \<in> name_may D p \<Longrightarrow> i < next_inode D"
    "name_seen D p = Some i \<Longrightarrow> i < next_inode D"
    "name_seen D p = Some i \<Longrightarrow> name_seen D q = Some i \<Longrightarrow> p = q"
  using assms unfolding disk_ok_def by metis+

lemma seen_may_hold: "disk_ok D \<Longrightarrow> seen D p \<in> may_hold D p"
  unfolding may_hold_def seen_def
  by (rule UN_I [OF disk_okD(1)]) (cases "name_seen D p"; simp add: disk_okD)+

lemma power_cut_seen: "disk_ok D \<Longrightarrow> power_cut D (seen D)"
  by (simp add: power_cut_def seen_may_hold)

lemma power_cut_at:
  assumes "disk_ok D" "c \<in> may_hold D p"
  shows "power_cut D ((seen D)(p := c))"
  using assms by (simp add: power_cut_def seen_may_hold)

lemma may_hold_other:
  assumes "name_may D' q = name_may D q" "\<And>k. Some k \<in> name_may D q \<Longrightarrow> inode_may D' k = inode_may D k"
  shows "may_hold D' q = may_hold D q"
  unfolding may_hold_def assms(1)
proof (rule SUP_cong [OF refl])
  fix v assume "v \<in> name_may D q"
  then show "contents_of (inode_may D') v = contents_of (inode_may D) v"
    by (cases v) (simp_all add: assms(2))
qed

text \<open>What writing through one name leaves of the others.\<close>

definition spares :: "string \<Rightarrow> disk \<Rightarrow> disk \<Rightarrow> bool" where
  "spares p D D' \<longleftrightarrow>
     (\<forall>q. q \<noteq> p \<longrightarrow> name_seen D' q = name_seen D q \<and> name_may D' q = name_may D q \<and>
        (apart D q \<longrightarrow> apart D' q \<and> may_hold D' q = may_hold D q))"

lemma spares_refl: "spares p D D"
  by (simp add: spares_def)

lemma spares_trans: "spares p D D1 \<Longrightarrow> spares p D1 D2 \<Longrightarrow> spares p D D2"
  by (simp add: spares_def)

lemma new_inode_effect:
  assumes "disk_ok D" "name_seen D p = None" "new_inode p D = (i, D1)"
  shows "disk_ok D1 \<and> name_seen D1 p = Some i \<and> inode_seen D1 i = [] \<and>
    seen D1 = (seen D)(p \<mapsto> []) \<and> spares p D D1 \<and> (apart D p \<longrightarrow> apart D1 p) \<and>
    name_may D1 p = insert (Some i) (name_may D p)"
proof -
  note d = disk_okD [OF assms(1)]
  have i: "i = next_inode D"
    and D1: "D1 = D\<lparr>inode_seen := (inode_seen D)(i := []), inode_may := (inode_may D)(i := {[]}),
            name_seen := (name_seen D)(p \<mapsto> i),
            name_may := (name_may D)(p := insert (Some i) (name_may D p)), next_inode := Suc i\<rparr>"
    using assms(3) by (auto simp: new_inode_def Let_def)
  have fresh: "Some i \<notin> name_may D q" "name_seen D q \<noteq> Some i" for q
    using d(3) [of i q] d(4) [of q i] i by auto
  have "disk_ok D1"
    unfolding disk_ok_def D1 using d fresh i
    by (auto simp: less_Suc_eq split: if_splits)
  moreover have "seen D1 = (seen D)(p \<mapsto> [])"
  proof
    fix q
    show "seen D1 q = ((seen D)(p \<mapsto> [])) q"
      using fresh(2) [of q] by (cases "name_seen D q") (auto simp: seen_def D1)
  qed
  moreover have "spares p D D1"
    unfolding spares_def
  proof (intro allI impI conjI)
    fix q assume q: "q \<noteq> p"
    then show "name_seen D1 q = name_seen D q" "name_may D1 q = name_may D q"
      by (simp_all add: D1)
    assume "apart D q"
    then show "apart D1 q" using q fresh by (auto simp: apart_def D1)
    show "may_hold D1 q = may_hold D q"
      by (rule may_hold_other) (use q fresh in \<open>auto simp: D1\<close>)
  qed
  moreover have "apart D p \<longrightarrow> apart D1 p"
    using fresh by (auto simp: apart_def D1)
  ultimately show ?thesis by (simp add: D1)
qed

lemma rewrite_inode:
  assumes "disk_ok D" "name_seen D p = Some i"
    "D1 = D\<lparr>inode_seen := (inode_seen D)(i := c), inode_may := (inode_may D)(i := C)\<rparr>" "c \<in> C"
  shows "disk_ok D1 \<and> name_seen D1 p = Some i \<and> inode_seen D1 i = c \<and> inode_may D1 i = C \<and>
    seen D1 = (seen D)(p \<mapsto> c) \<and> spares p D D1 \<and> name_may D1 = name_may D"
proof -
  note d = disk_okD [OF assms(1)]
  have "seen D1 = (seen D)(p \<mapsto> c)"
  proof
    fix q
    show "seen D1 q = ((seen D)(p \<mapsto> c)) q"
      using assms(2) d(5) [of p i q] by (cases "name_seen D q") (auto simp: seen_def assms(3))
  qed
  moreover have "spares p D D1"
    unfolding spares_def
  proof (intro allI impI conjI)
    fix q assume q: "q \<noteq> p"
    show "name_seen D1 q = name_seen D q" "name_may D1 q = name_may D q"
      by (simp_all add: assms(3))
    assume a: "apart D q"
    then show "apart D1 q" by (simp add: apart_def assms(3))
    have "Some i \<notin> name_may D q"
      using a assms(2) q by (auto simp: apart_def)
    then show "may_hold D1 q = may_hold D q"
      by (intro may_hold_other) (auto simp: assms(3))
  qed
  moreover have "disk_ok D1"
    unfolding disk_ok_def assms(3) using d assms(4) by auto
  ultimately show ?thesis by (simp add: assms)
qed

section \<open>What each call does\<close>

lemma create_effect:
  assumes "disk_ok D" "sys_create p D = (i, D1)"
  shows "disk_ok D1" "name_seen D1 p = Some i" "inode_seen D1 i = []"
    "seen D1 = (seen D)(p \<mapsto> [])" "spares p D D1"
proof -
  have "disk_ok D1 \<and> name_seen D1 p = Some i \<and> inode_seen D1 i = [] \<and>
    seen D1 = (seen D)(p \<mapsto> []) \<and> spares p D D1"
  proof (cases "name_seen D p")
    case None
    with assms(2) new_inode_effect [OF assms(1) None] show ?thesis
      by (simp add: sys_create_def)
  next
    case (Some k)
    with assms(2) have "i = k" and D1: "D1 = D\<lparr>inode_seen := (inode_seen D)(i := []),
        inode_may := (inode_may D)(i := insert [] (inode_may D i))\<rparr>"
      by (auto simp: sys_create_def)
    with rewrite_inode [OF assms(1) _ D1] Some show ?thesis by simp
  qed
  then show "disk_ok D1" "name_seen D1 p = Some i" "inode_seen D1 i = []"
    "seen D1 = (seen D)(p \<mapsto> [])" "spares p D D1" by auto
qed

lemma open_effect:
  assumes "disk_ok D" "sys_open p D = (i, D1)"
  shows "disk_ok D1 \<and> name_seen D1 p = Some i \<and> inode_seen D1 i = file_text (seen D) p \<and>
    seen D1 = (seen D)(p \<mapsto> file_text (seen D) p) \<and> spares p D D1 \<and>
    (apart D p \<longrightarrow> apart D1 p) \<and> name_may D p \<subseteq> name_may D1 p \<and>
    (name_seen D p \<noteq> None \<longrightarrow> D1 = D)"
proof (cases "name_seen D p")
  case None
  with assms(2) have "new_inode p D = (i, D1)" by (simp add: sys_open_def)
  from new_inode_effect [OF assms(1) None this] None show ?thesis
    by (auto simp: file_text_def seen_def)
next
  case (Some k)
  with assms(2) have "i = k" "D1 = D" by (auto simp: sys_open_def)
  with Some assms(1) show ?thesis
    by (auto simp: file_text_def seen_def spares_refl fun_eq_iff)
qed

lemma write_effect:
  assumes "disk_ok D" "name_seen D p = Some i" "D1 = sys_write i chunk D"
  shows "disk_ok D1" "name_seen D1 p = Some i" "inode_seen D1 i = inode_seen D i @ chunk"
    "inode_may D1 i = inode_may D i \<union> (\<lambda>k. inode_seen D i @ take k chunk) ` {..length chunk}"
    "seen D1 = (seen D)(p \<mapsto> inode_seen D i @ chunk)" "spares p D D1" "name_may D1 = name_may D"
  using rewrite_inode [OF assms(1,2) assms(3) [unfolded sys_write_def]] by force+

lemma sync_effect:
  assumes "disk_ok D" "name_seen D p = Some i" "D1 = sys_sync i D"
  shows "disk_ok D1" "name_seen D1 p = Some i" "inode_seen D1 i = inode_seen D i"
    "inode_may D1 i = {inode_seen D i}" "seen D1 = seen D" "spares p D D1" "name_may D1 = name_may D"
proof -
  have D1: "D1 = D\<lparr>inode_seen := (inode_seen D)(i := inode_seen D i),
      inode_may := (inode_may D)(i := {inode_seen D i})\<rparr>"
    by (simp add: assms(3) sys_sync_def)
  note r = rewrite_inode [OF assms(1,2) D1]
  have same: "(seen D)(p \<mapsto> inode_seen D i) = seen D"
    using assms(2) by (auto simp: seen_def fun_eq_iff)
  show "disk_ok D1" "name_seen D1 p = Some i" "inode_seen D1 i = inode_seen D i"
    "inode_may D1 i = {inode_seen D i}" "seen D1 = seen D" "spares p D D1" "name_may D1 = name_may D"
    using r by (simp_all add: same)
qed

lemma rename_effect:
  assumes "disk_ok D" "name_seen D a = Some i" "a \<noteq> b" "D1 = sys_rename a b D"
  shows "disk_ok D1" "seen D1 = fs_rename a b (seen D)" "name_seen D1 b = Some i"
    "inode_may D1 = inode_may D"
    "may_hold D1 b = Some ` inode_may D i \<union> may_hold D b" "apart D b \<Longrightarrow> apart D1 b"
    "q \<noteq> a \<Longrightarrow> q \<noteq> b \<Longrightarrow> apart D q \<Longrightarrow> apart D1 q \<and> may_hold D1 q = may_hold D q"
proof -
  note d = disk_okD [OF assms(1)]
  have D1: "D1 = D\<lparr>name_seen := (name_seen D)(b \<mapsto> i, a := None),
      name_may := (name_may D)(b := insert (Some i) (name_may D b), a := insert None (name_may D a))\<rparr>"
    by (simp add: assms sys_rename_def)
  have i: "i < next_inode D" using d(4) [OF assms(2)] .
  show "disk_ok D1"
    unfolding disk_ok_def D1 using d assms(2,3) i by auto
  show "seen D1 = fs_rename a b (seen D)"
    using assms(2,3) by (auto simp: seen_def fs_rename_def fun_eq_iff D1)
  show "name_seen D1 b = Some i" "inode_may D1 = inode_may D"
    using assms(3) by (simp_all add: D1)
  show "may_hold D1 b = Some ` inode_may D i \<union> may_hold D b"
    using assms(3) by (simp add: may_hold_def D1)
  show "apart D1 b" if "apart D b"
    using that assms(2,3) d(5) unfolding apart_def D1 by auto
  show "apart D1 q \<and> may_hold D1 q = may_hold D q" if "q \<noteq> a" "q \<noteq> b" "apart D q"
    using that assms(2) by (auto simp: apart_def may_hold_def D1 split: if_splits)
qed

lemma sync_dir_effect:
  assumes "disk_ok D" "D1 = fsync_parent_dir F p D"
  shows "disk_ok D1" "seen D1 = seen D" "name_seen D1 = name_seen D"
    "inode_may D1 = inode_may D" "may_hold D1 q \<subseteq> may_hold D q" "apart D q \<Longrightarrow> apart D1 q"
    "\<not> dir_open_fails F \<Longrightarrow> \<not> dir_sync_fails F \<Longrightarrow> path_parent p \<noteq> None \<Longrightarrow>
       name_may D1 p = {name_seen D p}"
proof -
  note d = disk_okD [OF assms(1)]
  obtain N where D1: "D1 = D\<lparr>name_may := N\<rparr>" and N: "N q = name_may D q \<or> N q = {name_seen D q}" for q
  proof -
    have "D1 = D\<lparr>name_may := name_may D\<rparr> \<or> (\<exists>dir. D1 = sys_sync_dir dir D)"
      by (auto simp: assms(2) fsync_parent_dir_def Let_def split: option.split)
    then show ?thesis
      using that [of "name_may D"] that by (auto simp: sys_sync_dir_def)
  qed
  have sub: "N q \<subseteq> name_may D q" "name_seen D q \<in> N q" for q
    using N [of q] d(1) [of q] by auto
  show "disk_ok D1"
    unfolding disk_ok_def D1 using d sub(2) subsetD [OF sub(1)] by simp metis
  show "seen D1 = seen D" "name_seen D1 = name_seen D" "inode_may D1 = inode_may D"
    by (auto simp: seen_def D1)
  show "may_hold D1 q \<subseteq> may_hold D q"
    using sub(1) [of q] by (auto simp: may_hold_def D1)
  show "apart D1 q" if "apart D q"
    using that sub(1) [of q] unfolding apart_def D1 by auto
  show "name_may D1 p = {name_seen D p}"
    if "\<not> dir_open_fails F" "\<not> dir_sync_fails F" "path_parent p \<noteq> None"
    using that by (auto simp: assms(2) fsync_parent_dir_def sys_sync_dir_def dir_of_def Let_def)
qed

section \<open>Replacement\<close>

text \<open>
  The calls of a replacement do to the files what Files says they do; until the rename, the target
  keeps whatever it may hold, and with it the target gains the new body, which is flushed.
\<close>

lemma replace_run:
  assumes "disk_ok D" "temp \<noteq> target" "apart D target"
    "replace_on_disk E F temp target body D = (res, D')"
  shows "disk_ok D' \<and> apart D' target \<and>
    replace_via E F temp target body (seen D) = (res, seen D') \<and>
    (case res of
       Inl e \<Rightarrow> may_hold D' target = may_hold D target \<and> name_may D' target = name_may D target
     | Inr u \<Rightarrow> may_hold D' target = insert (Some body) (may_hold D target) \<and>
               (\<exists>i. name_seen D' target = Some i \<and> inode_may D' i = {body}))"
proof (cases "create_fault F")
  case (Some e)
  with assms show ?thesis by (auto simp: replace_on_disk_def replace_via_def)
next
  case nc: None
  obtain i D1 where c: "sys_create temp D = (i, D1)" by fastforce
  note c1 = create_effect [OF assms(1) c]
  note run = assms(4) [unfolded replace_on_disk_def nc c option.case prod.case Let_def]
  have keeps: "apart X target \<and> may_hold X target = may_hold D target \<and>
      name_may X target = name_may D target" if "spares temp D X" for X
    using that assms(2,3) by (auto simp: spares_def)
  show ?thesis
  proof (cases "write_fault F")
    case (Some nw)
    obtain n e where [simp]: "nw = (n, e)" by (cases nw)
    note w = write_effect [OF c1(1,2) refl, of "take n body"]
    from run Some have "res = Inl (write_error E e)" "D' = sys_write i (take n body) D1" by auto
    with w c1 keeps [OF spares_trans [OF c1(5) w(6)]] nc Some show ?thesis
      by (simp add: replace_via_def)
  next
    case nw: None
    define D2 where "D2 = sys_write i body D1"
    note w = write_effect [OF c1(1,2) D2_def]
    define D3 where "D3 = sys_sync i D2"
    note s = sync_effect [OF w(1,2) D3_def]
    have seen3: "seen D3 = (seen D)(temp \<mapsto> body)"
      using s(5) w(5) c1(3,4) by simp
    have k2: "apart D2 target \<and> may_hold D2 target = may_hold D target \<and>
        name_may D2 target = name_may D target"
      by (rule keeps [OF spares_trans [OF c1(5) w(6)]])
    have k3: "apart D3 target \<and> may_hold D3 target = may_hold D target \<and>
        name_may D3 target = name_may D target"
      by (rule keeps [OF spares_trans [OF spares_trans [OF c1(5) w(6)] s(6)]])
    show ?thesis
    proof (cases "sync_fault F")
      case (Some e)
      with run nw have "res = Inl (sync_error E e)" "D' = D2" by (auto simp: D2_def)
      with w c1 k2 nc nw Some show ?thesis by (simp add: replace_via_def)
    next
      case ns: None
      note run3 = run [unfolded nw ns option.case, folded D2_def, folded D3_def]
      show ?thesis
      proof (cases "rename_fault F")
        case (Some e)
        with run3 have "res = Inl (rename_error E e)" "D' = D3" by auto
        with s(1) k3 seen3 nc nw ns Some show ?thesis by (simp add: replace_via_def)
      next
        case nr: None
        from run3 nr have res: "res = Inr ()" and D': "D' = sys_rename temp target D3" by auto
        note r = rename_effect [OF s(1,2) assms(2) D']
        have body: "inode_may D3 i = {body}"
          using s(4) w(3) c1(3) by simp
        have via: "replace_via E F temp target body (seen D) = (Inr (), seen D')"
          using nc nw ns nr r(2) seen3 by (simp add: replace_via_def)
        have hold: "may_hold D' target = insert (Some body) (may_hold D target)"
          using r(5) body k3 by simp
        from r(1) r(6) [OF conjunct1 [OF k3]] via hold r(3,4) body res show ?thesis by simp
      qed
    qed
  qed
qed

lemma single_name:
  assumes "name_may D p = {Some i}" "inode_may D i = {c}"
  shows "may_hold D p = {Some c}"
  by (simp add: may_hold_def assms)

lemma flushed_run:
  assumes "disk_ok D" "temp \<noteq> target" "apart D target"
    "flushed_replace E F temp target body D = (res, D')"
  shows "disk_ok D' \<and> apart D' target \<and>
    replace_via E (fst F) temp target body (seen D) = (res, seen D') \<and>
    (case res of
       Inl e \<Rightarrow> may_hold D' target = may_hold D target \<and> name_may D' target = name_may D target
     | Inr u \<Rightarrow> may_hold D' target \<subseteq> insert (Some body) (may_hold D target) \<and>
               (snd F = no_dir_faults \<longrightarrow> path_parent target \<noteq> None \<longrightarrow>
                may_hold D' target = {Some body} \<and> (\<exists>i. name_may D' target = {Some i})))"
proof -
  obtain res1 D1 where run: "replace_on_disk E (fst F) temp target body D = (res1, D1)" by fastforce
  note r = replace_run [OF assms(1-3) run]
  show ?thesis
  proof (cases res1)
    case (Inl e)
    with assms(4) run have "res = Inl e" "D' = D1" by (simp_all add: flushed_replace_def)
    with r Inl show ?thesis by simp
  next
    case (Inr u)
    with assms(4) run have res: "res = Inr u" and D': "D' = fsync_parent_dir (snd F) target D1"
      by (simp_all add: flushed_replace_def)
    from r Inr obtain i where i: "name_seen D1 target = Some i" "inode_may D1 i = {body}" by auto
    have ok: "disk_ok D1" using r by blast
    note f = sync_dir_effect [OF ok D']
    have "may_hold D' target = {Some body} \<and> (\<exists>i. name_may D' target = {Some i})" if "snd F = no_dir_faults" "path_parent target \<noteq> None"
      using single_name f(4,7) i that by (simp add: no_dir_faults_def)
    moreover have "may_hold D' target \<subseteq> insert (Some body) (may_hold D target)"
      using f(5) [of target] r Inr by simp
    ultimately show ?thesis using f(1,2) f(6) [of target] r Inr res by simp
  qed
qed

text \<open>
  The contract of a replacement that flushes the directory: whatever it runs into, a power cut
  finds what could be there before or the new body; once it has succeeded, only the new body.
\<close>

locale durable_replace =
  fixes replace :: "'f \<Rightarrow> string \<Rightarrow> string \<Rightarrow> disk \<Rightarrow> unit result \<times> disk"
    and temp_of :: "string \<Rightarrow> string"
    and flushes :: "'f \<Rightarrow> bool"
  assumes well_formed: "replace F p body D = (res, D') \<Longrightarrow> temp_of p \<noteq> p \<Longrightarrow> disk_ok D \<Longrightarrow> apart D p \<Longrightarrow>
        disk_ok D' \<and> apart D' p"
    and refused: "replace F p body D = (Inl e, D') \<Longrightarrow> temp_of p \<noteq> p \<Longrightarrow> disk_ok D \<Longrightarrow> apart D p \<Longrightarrow>
        may_hold D' p = may_hold D p"
    and unflushed: "replace F p body D = (Inr u, D') \<Longrightarrow> temp_of p \<noteq> p \<Longrightarrow> disk_ok D \<Longrightarrow> apart D p \<Longrightarrow>
        may_hold D' p \<subseteq> insert (Some body) (may_hold D p)"
    and flushed: "replace F p body D = (Inr u, D') \<Longrightarrow> temp_of p \<noteq> p \<Longrightarrow> disk_ok D \<Longrightarrow> apart D p \<Longrightarrow>
        flushes F \<Longrightarrow> path_parent p \<noteq> None \<Longrightarrow> may_hold D' p = {Some body}"
begin

lemma old_or_new_after_cut:
  assumes "replace F p body D = (res, D')" "temp_of p \<noteq> p" "disk_ok D" "apart D p" "power_cut D' fs"
  shows "fs p \<in> insert (Some body) (may_hold D p)"
proof -
  have "may_hold D' p \<subseteq> insert (Some body) (may_hold D p)"
    using assms(1-4) refused unflushed by (cases res) fastforce+
  with assms(5) show ?thesis by (auto simp: power_cut_def)
qed

text \<open>A sequence of replacements, with the body that was acknowledged last.\<close>

fun replace_all ::
  "('f \<times> string) list \<Rightarrow> string \<Rightarrow> string option \<Rightarrow> disk \<Rightarrow> string option \<times> disk" where
  "replace_all [] p c D = (c, D)"
| "replace_all ((F, body) # xs) p c D =
     (case replace F p body D of
        (Inl e, D') \<Rightarrow> replace_all xs p c D'
      | (Inr u, D') \<Rightarrow> replace_all xs p (Some body) D')"

lemma acknowledged_after_cut:
  assumes "temp_of p \<noteq> p" "path_parent p \<noteq> None"
  shows "disk_ok D \<Longrightarrow> apart D p \<Longrightarrow> may_hold D p = {c} \<Longrightarrow> \<forall>(F, body) \<in> set xs. flushes F \<Longrightarrow>
    replace_all xs p c D = (c', D') \<Longrightarrow> power_cut D' fs \<Longrightarrow> fs p = c'"
proof (induction xs arbitrary: c D)
  case Nil
  then show ?case by (auto simp: power_cut_def)
next
  case (Cons x xs)
  obtain F body where x: "x = (F, body)" by (cases x)
  obtain r D1 where step: "replace F p body D = (r, D1)" by fastforce
  note wf = well_formed [OF step assms(1) Cons.prems(1,2)]
  show ?case
  proof (cases r)
    case (Inl e)
    with refused [OF step [unfolded Inl] assms(1) Cons.prems(1,2)] Cons.prems Cons.IH [of D1 c] wf step x
    show ?thesis by simp
  next
    case (Inr u)
    from Cons.prems(4) x have "flushes F" by simp
    from flushed [OF step [unfolded Inr] assms(1) Cons.prems(1,2) this assms(2)] Inr Cons.prems
      Cons.IH [of D1 "Some body"] wf step x
    show ?thesis by simp
  qed
qed

end

lemmas flushed_run_cases =
  flushed_run [where res = "Inl e" for e, simplified] flushed_run [where res = "Inr u" for u, simplified]

interpretation compact_cut: durable_replace compact_on_disk compact_temp "\<lambda>F. snd F = no_dir_faults"
  by unfold_locales
    (auto simp: compact_on_disk_def dest: flushed_run flushed_run_cases)

interpretation store_cut: durable_replace store_on_disk store_temp "\<lambda>F. snd F = no_dir_faults"
  by unfold_locales
    (auto simp: store_on_disk_def dest: flushed_run flushed_run_cases)

section \<open>Appending\<close>

text \<open>
  An append does to the files what Journal_Disk says. It never takes away a possibility for the name;
  where the name is settled, a successful append leaves one content, and one that fails leaves what
  was possible and the beginnings of what it wrote.
\<close>

definition settled_name :: "disk \<Rightarrow> string \<Rightarrow> bool" where
  "settled_name D p \<longleftrightarrow> (\<exists>i. name_may D p = {Some i})"

lemma settled_nameD:
  assumes "disk_ok D" "settled_name D p"
  obtains i where "name_seen D p = Some i" "name_may D p = {Some i}" "may_hold D p = Some ` inode_may D i"
  using assms disk_okD(1) [OF assms(1), of p]
  by (auto simp: settled_name_def may_hold_def)

lemma append_run:
  assumes "record_codec enc dec" "disk_ok D" "apart D (journal_path j)"
    "append_on_disk enc j F r D = (res, D')"
  shows "disk_ok D'" "apart D' (journal_path j)"
    "journal_append enc j F r (seen D) = (res, seen D')"
    "name_may D (journal_path j) \<subseteq> name_may D' (journal_path j)"
    "settled_name D (journal_path j) \<Longrightarrow> settled_name D' (journal_path j) \<and>
       (case res of
          Inr u \<Rightarrow> may_hold D' (journal_path j) =
            {Some (file_text (seen D) (journal_path j) @ encoded enc r @ newline)}
        | Inl e \<Rightarrow> (\<exists>s. file_text (seen D') (journal_path j) = file_text (seen D) (journal_path j) @ s \<and>
            may_hold D' (journal_path j) \<subseteq> may_hold D (journal_path j) \<union>
              {Some (file_text (seen D) (journal_path j) @ take k s) | k. True}))"
proof -
  let ?p = "journal_path j"
  let ?line = "encoded enc r @ newline"
  have e: "enc r = Inr (encoded enc r)" by (rule record_codecD(1) [OF assms(1)])
  note run = assms(4) [unfolded append_on_disk_def e sum.case Let_def]
  note spec = journal_append_def [of enc j F r "seen D", unfolded e sum.case Let_def]
  have all: "disk_ok D' \<and> apart D' ?p \<and> journal_append enc j F r (seen D) = (res, seen D') \<and>
    name_may D ?p \<subseteq> name_may D' ?p \<and>
    (settled_name D ?p \<longrightarrow> settled_name D' ?p \<and>
       (case res of
          Inr u \<Rightarrow> may_hold D' ?p = {Some (file_text (seen D) ?p @ ?line)}
        | Inl e \<Rightarrow> (\<exists>s. file_text (seen D') ?p = file_text (seen D) ?p @ s \<and>
            may_hold D' ?p \<subseteq> may_hold D ?p \<union> {Some (file_text (seen D) ?p @ take k s) | k. True})))"
    (is ?goal)
  proof (cases "(\<exists>e. res = Inl e) \<and> D' = D \<and> journal_append enc j F r (seen D) = (res, seen D)")
    case True
    with assms(2,3) show ?thesis by auto
  next
    case False
    with run spec have clean: "mkdir_error j F = None" "open_fault F = None"
      "(max_bytes j < existing_size j F (seen D) + length ?line) = False"
      by (auto split: option.splits if_splits)
    obtain i D1 where o: "sys_open ?p D = (i, D1)" by fastforce
    note o1 = open_effect [OF assms(2) o]
    note run1 = run [unfolded clean option.case o prod.case if_False]
    note spec1 = spec [unfolded clean option.case if_False]
    have settled: "D1 = D \<and> may_hold D ?p = Some ` inode_may D i \<and> name_may D ?p = {Some i}"
      if "settled_name D ?p"
    proof -
      from settled_nameD [OF assms(2) that] obtain k where
        k: "name_seen D ?p = Some k" "name_may D ?p = {Some k}" "may_hold D ?p = Some ` inode_may D k"
        by blast
      with o1 have "D1 = D" by simp
      with o1 k show ?thesis by simp
    qed
    have written: ?goal
      if D2: "D2 = sys_write i chunk D1" and D': "D' = D2" and "res = Inl err"
        and via: "journal_append enc j F r (seen D) =
          (res, (seen D)(?p \<mapsto> file_text (seen D) ?p @ chunk))"
      for D2 chunk err
    proof -
      note w = write_effect [OF _ _ D2, of ?p]
      from o1 have w1: "disk_ok D1" "name_seen D1 ?p = Some i" by auto
      note w = w [OF w1]
      have "seen D2 = (seen D)(?p \<mapsto> file_text (seen D) ?p @ chunk)"
        using w(5) o1 by simp
      moreover have "apart D2 ?p"
        using o1 w(7) assms(3) D2 by (simp add: apart_def sys_write_def)
      moreover have "may_hold D2 ?p \<subseteq> may_hold D ?p \<union>
          {Some (file_text (seen D) ?p @ take k chunk) | k. True} \<and> settled_name D2 ?p"
        if "settled_name D ?p"
        using settled [OF that] w(4,7) o1 by (auto simp: may_hold_def settled_name_def)
      ultimately show ?thesis
        using w(1,7) o1 via that by (auto simp: file_text_def)
    qed
    show ?thesis
    proof (cases "append_fault F")
      case (Some ne)
      obtain n err where ne: "ne = (n, err)" by (cases ne)
      show ?thesis
        by (rule written [OF refl]) (use run1 spec1 Some ne in auto)
    next
      case na: None
      define D2 where "D2 = sys_write i ?line D1"
      show ?thesis
      proof (cases "fsync_fault F")
        case (Some err)
        show ?thesis
          by (rule written [OF D2_def]) (use run1 spec1 Some na in \<open>auto simp: D2_def\<close>)
      next
        case None
        with run1 na have res: "res = Inr ()" and D': "D' = sys_sync i D2"
          by (auto simp: D2_def)
        from o1 have w1: "disk_ok D1" "name_seen D1 ?p = Some i" by auto
        note w = write_effect [OF w1 D2_def]
        note s = sync_effect [OF w(1,2) D']
        have ap: "apart D' ?p"
          using o1 assms(3) by (simp add: apart_def D' D2_def sys_write_def sys_sync_def)
        have seen': "seen D' = (seen D)(?p \<mapsto> file_text (seen D) ?p @ ?line)"
          using s(5) w(5) o1 by simp
        have "may_hold D' ?p = {Some (file_text (seen D) ?p @ ?line)} \<and> settled_name D' ?p"
          if "settled_name D ?p"
          using settled [OF that] s(4,7) w(3,7) o1 by (simp add: may_hold_def settled_name_def)
        with s(1,7) w(7) o1 ap seen' spec1 na None res show ?thesis by simp
      qed
    qed
  qed
  then show "disk_ok D'" "apart D' ?p" "journal_append enc j F r (seen D) = (res, seen D')"
    "name_may D ?p \<subseteq> name_may D' ?p" by blast+
  show "settled_name D ?p \<Longrightarrow> settled_name D' ?p \<and>
       (case res of
          Inr u \<Rightarrow> may_hold D' ?p = {Some (file_text (seen D) ?p @ ?line)}
        | Inl e \<Rightarrow> (\<exists>s. file_text (seen D') ?p = file_text (seen D) ?p @ s \<and>
            may_hold D' ?p \<subseteq> may_hold D ?p \<union> {Some (file_text (seen D) ?p @ take k s) | k. True}))"
    using all by blast
qed

end
