(* ===== verification/Journal_Properties.thy ===== *)
theory Journal_Properties
  imports Journal_Codec
begin

text \<open>
  What the ingest journal guarantees, over the records (Journal_Records) and on disk
  (Journal_Disk), with each guarantee applied to a concrete journal.
\<close>

section \<open>A concrete journal\<close>

definition demo_journal :: journal where
  "demo_journal = \<lparr>journal_path = ''j.jsonl'', max_bytes = DEFAULT_MAX_BYTES\<rparr>"

definition demo_entry :: entry where
  "demo_entry = \<lparr>entry_id = ''a'', entry_source = ''s'', received_at = [], payload = JNull,
                 idempotency_key = None\<rparr>"

definition demo_disk :: "log_record list \<Rightarrow> fs" where
  "demo_disk rs = [''j.jsonl'' \<mapsto> image_of demo_enc rs]"

lemma put_text_length [simp]:
  "length (put_text s) = Suc (length s) + sum_list (map (\<lambda>c. Suc (byte c)) s)"
  by (induction s) (auto simp: put_text_def)

lemma demo_encoded: "encoded demo_enc r = put_json (record_to_json r) @ ''c''"
  by (simp add: encoded_def demo_enc_def)

lemma demo_lengths:
  "length (encoded demo_enc (EntryRec demo_entry)) < 10000"
  "length (encoded demo_enc (Done ''a'')) < 10000"
  by (simp_all add: demo_encoded demo_entry_def entry_fields_def byte_def)

lemma demo_compact_temp: "compact_temp ''j.jsonl'' = ''j.compacting''"
  by (simp add: compact_temp_def with_extension_def file_name_def name_stem_def)

lemma demo_append:
  assumes "length (file_text fs ''j.jsonl'') + length (encoded demo_enc r) < 60000000"
  shows "journal_append demo_enc demo_journal no_append_faults r fs =
    (Inr (), fs(''j.jsonl'' \<mapsto> file_text fs ''j.jsonl'' @ encoded demo_enc r @ newline))"
proof -
  have size: "existing_size demo_journal no_append_faults fs = length (file_text fs ''j.jsonl'')"
    by (simp add: existing_size_def demo_journal_def no_append_faults_def file_text_def
        split: option.split)
  have dir: "mkdir_error demo_journal no_append_faults = None"
    by (auto simp: mkdir_error_def no_append_faults_def split: option.split)
  have enc: "demo_enc r = Inr (encoded demo_enc r)"
    by (rule record_codecD(1) [OF demo_codec])
  show ?thesis
    unfolding journal_append_def Let_def dir option.case size enc sum.case
    using assms by (simp add: demo_journal_def no_append_faults_def DEFAULT_MAX_BYTES_def newline_def)
qed

section \<open>Records\<close>

text \<open>
  C10: The journal's replay, which collects all markers before it looks at an entry, is an incremental
  board: whatever the log and in whatever order its records stand, reading it record by record,
  adding each entry behind the others and letting each marker give its id a verdict, leaves as
  waiting exactly the pending entries and as set aside exactly the dead ones, in acceptance order and
  each with the latest reason. A marker that stands before its entry counts as one behind it.
\<close>

theorem log_refines_board:
  "board (rs @ [r]) = board_step r (board rs) \<and> board rs = fold board_step rs empty_board \<and>
   pending rs = waiting (fold board_step rs empty_board) \<and>
   dead rs = set_aside (fold board_step rs empty_board)"
  by (simp add: board_append pending_waiting dead_set_aside flip: board_run)

text \<open>
  Compaction of the records loses no entry that is waiting and no reason of one set aside: the
  two lists read back are the same, the log it writes is no longer than twice what they hold, and
  compacting again changes nothing.
\<close>

theorem compaction_keeps_records:
  "pending (compact_records rs) = pending rs \<and> dead (compact_records rs) = dead rs \<and>
   length (compact_records rs) = length (pending rs) + 2 * length (dead rs) \<and>
   compact_records (compact_records rs) = compact_records rs"
proof -
  have "length (concat (map (\<lambda>(e, why, at). [EntryRec e, Dead (entry_id e) why at]) ds))
      = 2 * length ds" for ds :: "(entry \<times> string \<times> string) list"
    by (induction ds) auto
  then have "length (compact_records rs) = length (pending rs) + 2 * length (dead rs)"
    by (simp add: compact_records_def)
  moreover have "compact_records (compact_records rs) = compact_records rs"
    unfolding compact_records_def [of "compact_records rs"] pending_compact dead_compact
    by (simp add: compact_records_def)
  ultimately show ?thesis by (simp add: pending_compact dead_compact)
qed

text \<open>
  A record written as JSON by the derived writer is read back as the same record, for all
  three kinds, with the idempotency key left out when there is none.
\<close>

theorem record_json_roundtrip: "record_of_json (record_to_json r) = Some r"
  by (rule record_roundtrip_aux)

section \<open>The file\<close>

text \<open>
  C1: The promise behind the 202. After any sequence of appends, markers and compactions on disk,
  with the refusals and failures the code handles in between, every entry whose append returned
  \<open>Ok\<close> and that no done marker names is read back, waiting or set aside with a reason. Ids are
  fresh and no write was cut short.
\<close>

theorem accepted_never_lost:
  assumes "record_codec enc dec" "compact_temp (journal_path j) \<noteq> journal_path j"
    "journal_history enc dec j (before @ Accept e # after) fs"
    "fresh_ids {} (before @ Accept e # after)" "MarkDone (entry_id e) \<notin> set after"
  shows "\<exists>ps ds. journal_pending dec j None fs = Inr ps \<and> journal_dead dec j None fs = Inr ds \<and>
    (e \<in> set ps \<or> (\<exists>why at. (e, why, at) \<in> set ds))"
proof -
  have "read_records dec j None fs = Inr (replay (before @ Accept e # after) [])"
    by (rule holds_read [OF assms(1) history_holds [OF assms(1-3)]])
  with replay_nothing_lost [OF assms(4,5)] show ?thesis
    by (simp add: journal_pending_def journal_dead_def)
qed

lemma demo_history:
  "journal_history demo_enc demo_dec demo_journal ([] @ [Accept demo_entry]) (demo_disk [EntryRec demo_entry])"
proof -
  have "journal_history demo_enc demo_dec demo_journal ([] @ [op_of_record (EntryRec demo_entry)])
      (Map.empty(''j.jsonl'' \<mapsto> encoded demo_enc (EntryRec demo_entry) @ newline))"
  proof (rule journal_history.appended)
    show "journal_history demo_enc demo_dec demo_journal [] Map.empty"
      by (rule journal_history.start) simp
    show "journal_append demo_enc demo_journal no_append_faults (EntryRec demo_entry) Map.empty =
        (Inr (), Map.empty(''j.jsonl'' \<mapsto> encoded demo_enc (EntryRec demo_entry) @ newline))"
      using demo_append [of Map.empty "EntryRec demo_entry"] demo_lengths(1)
      by (simp add: file_text_def)
  qed
  then show ?thesis by (simp add: demo_disk_def image_of_def)
qed

lemma accepted_never_lost_witness:
  "\<exists>ps ds. journal_pending demo_dec demo_journal None (demo_disk [EntryRec demo_entry]) = Inr ps \<and>
     journal_dead demo_dec demo_journal None (demo_disk [EntryRec demo_entry]) = Inr ds \<and>
     (demo_entry \<in> set ps \<or> (\<exists>why at. (demo_entry, why, at) \<in> set ds))"
  by (rule accepted_never_lost [OF demo_codec, where before = "[]" and after = "[]"])
    (use demo_history in \<open>simp_all add: demo_compact_temp demo_journal_def\<close>)

text \<open>
  C11: Compaction on disk is all or nothing. Whatever fails in it, reading afterwards gives the
  waiting entries and the set-aside ones of before; when it reports success the file is exactly the
  compacted log and the number it returns is its length; no other file but the sibling it writes
  first is touched.
\<close>

theorem compaction_all_or_nothing:
  assumes "record_codec enc dec" "compact_temp (journal_path j) \<noteq> journal_path j"
    "disk_holds enc j rs fs" "journal_compact enc dec j fault F fs = (res, fs')"
  shows "journal_pending dec j None fs' = Inr (pending rs) \<and>
    journal_dead dec j None fs' = Inr (dead rs) \<and>
    (case res of
       Inr n \<Rightarrow> file_text fs' (journal_path j) = image_of enc (compact_records rs) \<and>
               n = length (compact_records rs)
     | Inl _ \<Rightarrow> fs' (journal_path j) = fs (journal_path j)) \<and>
    (\<forall>q. q \<noteq> journal_path j \<longrightarrow> q \<noteq> compact_temp (journal_path j) \<longrightarrow> fs' q = fs q)"
proof -
  have frame: "\<forall>q. q \<noteq> journal_path j \<longrightarrow> q \<noteq> compact_temp (journal_path j) \<longrightarrow> fs' q = fs q"
    using assms(4) by (auto simp: journal_compact_def Let_def dest: compaction.frame
        split: sum.splits prod.splits)
  show ?thesis
  proof (cases res)
    case (Inl e)
    with compact_failure [OF _ assms(2)] assms(4) have kept: "fs' (journal_path j) = fs (journal_path j)"
      by blast
    then have "disk_holds enc j rs fs'"
      using assms(3) by (simp add: disk_holds_def file_text_def)
    from holds_read [OF assms(1) this] Inl kept frame show ?thesis
      by (simp add: journal_pending_def journal_dead_def)
  next
    case (Inr n)
    note ok = compact_success [OF assms(1,3) assms(4) [unfolded Inr]]
    from holds_read [OF assms(1) ok(1)] ok Inr frame show ?thesis
      by (simp add: journal_pending_def journal_dead_def pending_compact dead_compact disk_holds_def)
  qed
qed

lemma demo_holds: "disk_holds demo_enc demo_journal rs (demo_disk rs)"
  by (simp add: disk_holds_def demo_disk_def demo_journal_def file_text_def)

lemma compaction_all_or_nothing_witness:
  "journal_pending demo_dec demo_journal None
     (snd (journal_compact demo_enc demo_dec demo_journal None no_rewrite_faults
        (demo_disk [EntryRec demo_entry]))) = Inr [demo_entry]"
  using compaction_all_or_nothing [OF demo_codec _ demo_holds surjective_pairing,
      where rs = "[EntryRec demo_entry]" and fault = None and F = no_rewrite_faults]
  by (simp add: demo_compact_temp demo_journal_def pending_eq)

text \<open>
  C18: A crash in the middle of an append costs at most the record being written. With any part of its
  line at the end of the file that stops between two characters of the text, the records before it
  are read back, and the record itself only when the line is complete but for its line feed. (A part
  that stops inside a character is not read at all, which is \<open>torn_character_blocks_the_journal\<close>.)
\<close>

theorem torn_tail_dropped:
  assumes "record_codec enc dec" "utf8_valid (take k (encoded enc r))"
    "fs (journal_path j) = Some (image_of enc rs @ take k (encoded enc r))"
  shows "read_records dec j None fs = Inr (if length (encoded enc r) \<le> k then rs @ [r] else rs)"
  using assms(2,3) parse_torn [OF assms(1)]
  by (simp add: read_records_def utf8_append [OF utf8_image [OF assms(1)]])

lemma torn_tail_dropped_witness:
  "read_records demo_dec demo_journal None
     [''j.jsonl'' \<mapsto> image_of demo_enc [EntryRec demo_entry] @ take 1 (encoded demo_enc (Done ''a''))]
   = Inr [EntryRec demo_entry]"
proof -
  have one: "take 1 (encoded demo_enc (Done ''a'')) = ''a''"
    by (simp add: demo_encoded put_nat_def numeral_eq_Suc)
  have "\<not> length (encoded demo_enc (Done ''a'')) \<le> 1"
    by (simp add: demo_encoded)
  with torn_tail_dropped [OF demo_codec, of 1 "Done ''a''" _ demo_journal "[EntryRec demo_entry]"] one
  show ?thesis
    by (simp add: demo_journal_def utf8_valid.simps(2) byte_def)
qed

lemma strip_cr_last: "strip_cr t = t \<Longrightarrow> t \<noteq> [] \<Longrightarrow> last t \<noteq> CHR 0x0D"
  by (metis append_butlast_last_id append_self_conv list.distinct(1) strip_cr_def)

text \<open>
  C35: What the torn tail does to the next append. The code appends behind it without closing the
  line, so a record that was accepted and answered 202 shares its line with the fragment; the line
  ends in a line feed, so it is not taken for a torn tail, and every later reading of the journal
  is an error. Both the new entry and everything pending are stuck until the file is repaired by
  hand. The fragment followed by a record is no record, as in JSON.
\<close>

theorem append_after_torn_tail_wedges:
  assumes "record_codec enc dec" "0 < k" "utf8_valid (take k (encoded enc r))"
    "fs (journal_path j) = Some (image_of enc rs @ take k (encoded enc r))"
    "dec (take k (encoded enc r) @ encoded enc r') = Inl e"
    "\<not> is_blank (take k (encoded enc r) @ encoded enc r')"
    "journal_append enc j F r' fs = (Inr u, fs')"
  shows "\<exists>err. read_records dec j None fs' = Inl err"
proof -
  let ?t = "take k (encoded enc r) @ encoded enc r'"
  note c = record_codecD [OF assms(1)]
  have content: "fs' (journal_path j) = Some (image_of enc rs @ ?t @ newline)"
    using append_outcome [OF assms(1,7)] assms(4) by (auto simp: file_text_def)
  have "utf8_valid (take k (encoded enc r) @ encoded enc r' @ newline)"
    using assms(3) c(3) by (simp add: utf8_append)
  then have valid: "utf8_valid (image_of enc rs @ ?t @ newline)"
    by (simp add: utf8_append [OF utf8_image [OF assms(1)]])
  have "last (encoded enc r') \<noteq> CHR 0x0D" if "encoded enc r' \<noteq> []"
    using strip_cr_last [OF c(6) that] .
  moreover have "encoded enc r' \<noteq> []"
    using c(4) [of r'] by (auto simp: is_blank_def trim_def trim_start_def trim_end_def)
  ultimately have cr: "strip_cr ?t = ?t"
    by (simp add: strip_cr_def)
  have "lines (image_of enc rs @ ?t @ newline) = map (encoded enc) rs @ [?t]"
  proof -
    have "lines (log_text (map (encoded enc) rs @ [?t]) @ []) =
        map strip_cr (map (encoded enc) rs @ [?t]) @ (if [] = ([] :: string) then [] else [[]])"
      by (rule lines_log_text) (use c(5) take_no_newline [OF c(5)] in auto)
    moreover have "map strip_cr (map (encoded enc) rs) = map (encoded enc) rs"
      by (simp add: c(6))
    ultimately show ?thesis by (simp add: image_of_def cr)
  qed
  moreover have "last (image_of enc rs @ ?t @ newline) = CHR 0x0A"
    by (simp add: newline_def)
  ultimately have "parse_journal dec (journal_path j) (image_of enc rs @ ?t @ newline) =
      bind_result (parse_lines dec (journal_path j) True (Suc (length rs)) (length rs) [?t])
        (\<lambda>xs. Inr (rs @ xs))"
    using parse_lines_image [OF assms(1)]
    by (simp add: parse_journal_def Let_def del: parse_lines.simps(2) append_is_Nil_conv last_appendR)
  with assms(5,6) content valid show ?thesis
    by (simp add: read_records_def)
qed

lemma demo_fragment:
  "\<exists>e. demo_dec (''a'' @ encoded demo_enc (Done i)) = Inl e"
proof -
  obtain rest where json: "put_json (record_to_json (Done i)) = put_nat 6 @ put_nat 2 @ rest"
    by (simp add: numeral_2_eq_2)
  have "''a'' @ put_nat 6 @ s = put_nat 7 @ s" for s
    by (simp add: put_nat_def numeral_eq_Suc)
  from this [of "put_nat 2 @ rest @ ''c''"]
  have "''a'' @ encoded demo_enc (Done i) = (put_nat 7 @ put_nat 2 @ rest) @ ''c''"
    unfolding demo_encoded json by simp
  moreover have "get_json n (put_nat 7 @ put_nat 2 @ rest) = None" for n
    by (cases n) simp_all
  ultimately show ?thesis
    by (simp add: demo_dec_def butlast_append)
qed

lemma append_after_torn_tail_wedges_witness:
  "\<exists>err. read_records demo_dec demo_journal None
     (snd (journal_append demo_enc demo_journal no_append_faults (Done ''a'')
        [''j.jsonl'' \<mapsto> ''a''])) = Inl err"
proof -
  let ?fs = "[''j.jsonl'' \<mapsto> ''a'']"
  have one: "take 1 (encoded demo_enc (Done ''a'')) = ''a''"
    by (simp add: demo_encoded put_nat_def numeral_eq_Suc)
  have app: "journal_append demo_enc demo_journal no_append_faults (Done ''a'') ?fs =
      (Inr (), ?fs(''j.jsonl'' \<mapsto> ''a'' @ encoded demo_enc (Done ''a'') @ newline))"
    using demo_append [of ?fs "Done ''a''"] demo_lengths(2) by (simp add: file_text_def)
  obtain e where bad: "demo_dec (''a'' @ encoded demo_enc (Done ''a'')) = Inl e"
    using demo_fragment by blast
  have "\<not> is_blank (''a'' @ encoded demo_enc (Done ''a''))"
    unfolding is_blank_def trim_def demo_encoded
    using trim_end_stop [of "CHR ''c''"]
    by (subst strip_ws_no_change) (auto simp: ws1_def byte_def simp flip: append_assoc append_Cons)
  with append_after_torn_tail_wedges [OF demo_codec, where k = 1 and r = "Done ''a''" and rs = "[]"
      and r' = "Done ''a''" and fs = ?fs and j = demo_journal and e = e and F = no_append_faults]
    app bad show ?thesis
    unfolding one by (simp add: demo_journal_def utf8_valid.simps(2) byte_def)
qed

text \<open>
  The cap. An append that returns \<open>Ok\<close> leaves a file of at most the configured number of
  bytes, when the size could be read; one that would exceed it is refused with the typed error and
  changes nothing.
\<close>

theorem append_within_cap:
  assumes "record_codec enc dec" "\<not> stat_fails F"
    "journal_append enc j F r fs = (res, fs')"
  shows "(res = Inr () \<longrightarrow> length (file_text fs' (journal_path j)) \<le> max_bytes j) \<and>
    (mkdir_error j F = None \<longrightarrow>
     max_bytes j < length (file_text fs (journal_path j)) + length (encoded enc r) + 1 \<longrightarrow>
     res = Inl (cap_error j) \<and> fs' = fs)"
proof -
  have size: "existing_size j F fs = length (file_text fs (journal_path j))"
    using assms(2) by (simp add: existing_size_def file_text_def split: option.split)
  show ?thesis
    using assms(3)
    by (auto simp: journal_append_def Let_def record_codecD(1) [OF assms(1), of r] size newline_def
        file_text_def split: option.splits if_splits prod.splits)
qed

lemma append_within_cap_witness:
  "journal_append demo_enc (demo_journal\<lparr>max_bytes := 1\<rparr>) no_append_faults (Done ''a'') Map.empty
   = (Inl (cap_error (demo_journal\<lparr>max_bytes := 1\<rparr>)), Map.empty)"
proof -
  let ?j = "demo_journal\<lparr>max_bytes := 1\<rparr>"
  obtain res fs' where app:
    "journal_append demo_enc ?j no_append_faults (Done ''a'') Map.empty = (res, fs')"
    by fastforce
  have "mkdir_error ?j no_append_faults = None"
    by (auto simp: mkdir_error_def no_append_faults_def split: option.split)
  moreover have "1 < length (encoded demo_enc (Done ''a'')) + 1"
    by (simp add: demo_encoded)
  ultimately show ?thesis
    using append_within_cap [OF demo_codec _ app] app
    by (simp add: no_append_faults_def demo_journal_def file_text_def)
qed

text \<open>
  C38: The cap also stops the markers. With the room left smaller than a done marker and nothing
  settled yet, a delivered entry cannot be marked, and compaction makes no room: it writes back
  the same records. Such an entry is delivered again on every pass.
\<close>

theorem full_journal_cannot_settle:
  assumes "record_codec enc dec" "\<not> stat_fails F" "mkdir_error j F = None"
    "disk_holds enc j rs fs" "marked rs = {}"
    "max_bytes j < length (image_of enc rs) + length (encoded enc (Done i)) + 1"
    "journal_compact enc dec j fault G fs = (Inr n, fs')"
  shows "disk_holds enc j rs fs' \<and> journal_mark_done enc j F i fs' = (Inl (cap_error j), fs')"
proof -
  have "List.map_filter as_entry rs = map (\<lambda>r. the (as_entry r)) rs \<and> rs = map EntryRec (entries rs)"
    using assms(5)
  proof (induction rs)
    case Nil
    then show ?case by (simp add: List.map_filter_def)
  next
    case (Cons r rs)
    then show ?case by (cases r) (auto simp: List.map_filter_def)
  qed
  then have rs: "rs = map EntryRec (entries rs)" by blast
  have "dead rs = []"
    using assms(5) unmarked_no_reason by (simp add: dead_eq List.map_filter_def)
  then have same: "compact_records rs = rs"
    using rs assms(5) by (simp add: compact_records_def pending_eq)
  with compact_success(1) [OF assms(1,4,7)] have holds: "disk_holds enc j rs fs'"
    by simp
  then have "file_text fs' (journal_path j) = image_of enc rs"
    by (simp add: disk_holds_def)
  with append_within_cap [OF assms(1,2) surjective_pairing, of j "Done i" fs'] assms(3,6) holds
  show ?thesis
    unfolding journal_mark_done_def by (auto simp: prod_eq_iff)
qed

definition full_journal :: journal where
  "full_journal = demo_journal\<lparr>max_bytes := length (image_of demo_enc [EntryRec demo_entry])\<rparr>"

lemma full_journal_cannot_settle_witness:
  "\<exists>n fs'. journal_compact demo_enc demo_dec full_journal None no_rewrite_faults
      (demo_disk [EntryRec demo_entry]) = (Inr n, fs') \<and>
    journal_mark_done demo_enc full_journal no_append_faults ''a'' fs' = (Inl (cap_error full_journal), fs')"
proof -
  have holds: "disk_holds demo_enc full_journal [EntryRec demo_entry] (demo_disk [EntryRec demo_entry])"
    using demo_holds by (simp add: full_journal_def disk_holds_def demo_journal_def)
  obtain fs' where c: "journal_compact demo_enc demo_dec full_journal None no_rewrite_faults
      (demo_disk [EntryRec demo_entry]) = (Inr (length (compact_records [EntryRec demo_entry])), fs')"
    using compact_clean [OF demo_codec holds] by blast
  have "mkdir_error full_journal no_append_faults = None"
    by (auto simp: mkdir_error_def no_append_faults_def split: option.split)
  from full_journal_cannot_settle [OF demo_codec _ this holds _ _ c, of "''a''"] c show ?thesis
    by (simp add: no_append_faults_def full_journal_def)
qed

end
