(* ===== verification/Power_Loss.thy ===== *)
theory Power_Loss
  imports Durability Journal_Properties Token_Properties
begin

text \<open>
  What survives when the power goes: the journal, the token store and the profile files under the
  cuts of Durability.
\<close>

section \<open>The journal over its life\<close>

text \<open>What the reader makes of a last line that has no line feed.\<close>

definition tail_record :: "decoder \<Rightarrow> string \<Rightarrow> log_record list" where
  "tail_record dec t = (if t = [] then [] else case dec t of Inr r \<Rightarrow> [r] | Inl e \<Rightarrow> [])"

text \<open>
  The journal in use: the operations that are on the platter, the records written since whose flush
  failed, and the part of a line behind them, which a write or a power cut has cut short. The first
  rule starts from a journal whose name and content have reached the platter; every other rule is one
  operation of the code, a change of other files, or a cut, wherever in the file, and the restart
  after it. An append ends in one of four ways: acknowledged, refused with the file unchanged, its
  whole line written without the acknowledgement, or a part of it. Nothing is appended behind the part
  of a line (\<open>append_after_torn_tail_wedges\<close> is what would come of that); reading it, compacting it
  away, other failures and further cuts are all possible.
\<close>

inductive cut_history ::
  "encoder \<Rightarrow> decoder \<Rightarrow> journal \<Rightarrow> log_op list \<Rightarrow> log_record list \<Rightarrow> string \<Rightarrow> disk \<Rightarrow> bool"
  for enc dec j where
  begun:
    "disk_ok D \<Longrightarrow> apart D (journal_path j) \<Longrightarrow> settled_name D (journal_path j) \<Longrightarrow>
     may_hold D (journal_path j) = {Some (image_of enc (replay ops []))} \<Longrightarrow>
     cut_history enc dec j ops [] [] D"
| appended:
    "cut_history enc dec j ops us [] D \<Longrightarrow> append_on_disk enc j F r D = (Inr u, D') \<Longrightarrow>
     cut_history enc dec j (ops @ map op_of_record (us @ [r])) [] [] D'"
| refused:
    "cut_history enc dec j ops us t D \<Longrightarrow> append_on_disk enc j F r D = (Inl e, D') \<Longrightarrow>
     seen D' (journal_path j) = seen D (journal_path j) \<Longrightarrow> cut_history enc dec j ops us t D'"
| unsynced:
    "cut_history enc dec j ops us [] D \<Longrightarrow> append_on_disk enc j F r D = (Inl e, D') \<Longrightarrow>
     seen D' (journal_path j) =
       Some (file_text (seen D) (journal_path j) @ encoded enc r @ newline) \<Longrightarrow>
     cut_history enc dec j ops (us @ [r]) [] D'"
| cut_short:
    "cut_history enc dec j ops us [] D \<Longrightarrow> append_on_disk enc j F r D = (Inl e, D') \<Longrightarrow>
     seen D' (journal_path j) = Some (file_text (seen D) (journal_path j) @ t) \<Longrightarrow>
     CHR 0x0A \<notin> set t \<Longrightarrow> cut_history enc dec j ops us t D'"
| compacted:
    "cut_history enc dec j ops us t D \<Longrightarrow> snd G = no_dir_faults \<Longrightarrow>
     journal_compact_on_disk enc dec j fault G D = (Inr n, D') \<Longrightarrow>
     cut_history enc dec j (ops @ map op_of_record (us @ tail_record dec t) @ [Compact]) [] [] D'"
| not_compacted:
    "cut_history enc dec j ops us t D \<Longrightarrow>
     journal_compact_on_disk enc dec j fault G D = (Inl e, D') \<Longrightarrow> cut_history enc dec j ops us t D'"
| elsewhere:
    "cut_history enc dec j ops us t D \<Longrightarrow> disk_ok D' \<Longrightarrow> apart D' (journal_path j) \<Longrightarrow>
     settled_name D' (journal_path j) \<Longrightarrow> seen D' (journal_path j) = seen D (journal_path j) \<Longrightarrow>
     may_hold D' (journal_path j) = may_hold D (journal_path j) \<Longrightarrow> cut_history enc dec j ops us t D'"
| restarted:
    "cut_history enc dec j ops us t D \<Longrightarrow> power_cut D fs \<Longrightarrow>
     fs (journal_path j) = Some (image_of enc (replay ops [] @ take m us) @ t') \<Longrightarrow>
     CHR 0x0A \<notin> set t' \<Longrightarrow>
     disk_ok D' \<Longrightarrow> apart D' (journal_path j) \<Longrightarrow> settled_name D' (journal_path j) \<Longrightarrow>
     may_hold D' (journal_path j) = {fs (journal_path j)} \<Longrightarrow>
     cut_history enc dec j (ops @ map op_of_record (take m us)) [] t' D'"

text \<open>
  What is seen is everything written; what may be found is what was flushed and a beginning of the
  rest. The part of a line is the beginning of a record's.
\<close>

definition journal_kept ::
  "encoder \<Rightarrow> journal \<Rightarrow> log_record list \<Rightarrow> log_record list \<Rightarrow> string \<Rightarrow> disk \<Rightarrow> bool" where
  "journal_kept enc j rs us t D \<longleftrightarrow>
     disk_ok D \<and> apart D (journal_path j) \<and> settled_name D (journal_path j) \<and>
     seen D (journal_path j) = Some (image_of enc (rs @ us) @ t) \<and>
     (\<exists>r l. t = take l (encoded enc r)) \<and>
     may_hold D (journal_path j) \<subseteq> {Some (image_of enc rs @ take k (image_of enc us @ t)) | k. True}"

lemma settled_seen:
  assumes "disk_ok D" "may_hold D p = {c}"
  shows "seen D p = c"
  using seen_may_hold [OF assms(1), of p] assms(2) by simp

lemma kept_flushed:
  assumes "disk_ok D" "apart D (journal_path j)" "settled_name D (journal_path j)"
    "may_hold D (journal_path j) = {Some (image_of enc rs @ t)}" "t = take l (encoded enc r)"
  shows "journal_kept enc j rs [] t D"
proof -
  have "\<exists>k. t = take k t" by (intro exI [of _ "length t"]) simp
  moreover have "seen D (journal_path j) = Some (image_of enc rs @ t)"
    by (rule settled_seen [OF assms(1,4)])
  ultimately show ?thesis
    unfolding journal_kept_def assms(4) using assms(1-3) assms(5)
    by (intro conjI exI [of _ r] exI [of _ l]) simp_all
qed

lemma kept_flushed_whole:
  assumes "disk_ok D" "apart D (journal_path j)" "settled_name D (journal_path j)"
    "may_hold D (journal_path j) = {Some (image_of enc rs)}"
  shows "journal_kept enc j rs [] [] D"
  by (rule kept_flushed [where l = 0]) (use assms in simp_all)

lemma kept_append:
  assumes "record_codec enc dec" "journal_kept enc j rs us [] D"
    "append_on_disk enc j F r D = (Inr u, D')"
  shows "journal_kept enc j (rs @ us @ [r]) [] [] D'"
proof -
  let ?p = "journal_path j"
  note k = assms(2) [unfolded journal_kept_def]
  from k have wf: "disk_ok D" "apart D ?p" and name: "settled_name D ?p" by auto
  note a = append_run [OF assms(1) wf assms(3)]
  have "may_hold D' ?p = {Some (image_of enc (rs @ us @ [r]))}"
    using a(5) [OF name] k by (simp add: file_text_def image_append image_single)
  with a(1,2) a(5) [OF name] kept_flushed_whole show ?thesis by simp
qed

text \<open>An append that is not acknowledged has written a beginning of its line, or nothing.\<close>

lemma take_in_front: "\<exists>m. take n a = take m (a @ b)"
  by (cases "n \<le> length a") (auto intro: exI [of _ n] exI [of _ "length a"])

lemma kept_unfinished:
  assumes "record_codec enc dec" "journal_kept enc j rs us t D"
    "append_on_disk enc j F r D = (Inl e, D')"
    "seen D' (journal_path j) = Some (file_text (seen D) (journal_path j) @ s)"
  shows "disk_ok D'" "apart D' (journal_path j)" "settled_name D' (journal_path j)"
    "seen D' (journal_path j) = Some (image_of enc (rs @ us) @ t @ s)"
    "may_hold D' (journal_path j) \<subseteq>
       {Some (image_of enc rs @ take k (image_of enc us @ t @ s)) | k. True}"
    "\<exists>l. s = take l (encoded enc r @ newline)"
proof -
  let ?p = "journal_path j"
  note k = assms(2) [unfolded journal_kept_def]
  from k have wf: "disk_ok D" "apart D ?p" and name: "settled_name D ?p" by auto
  have old: "file_text (seen D) ?p = image_of enc (rs @ us) @ t"
    using k by (simp add: file_text_def)
  note a = append_run [OF assms(1) wf assms(3)]
  show "disk_ok D'" "apart D' ?p" by (rule a(1), rule a(2))
  from a(5) [OF name] assms(4) old show "settled_name D' ?p" by simp
  from a(5) [OF name] assms(4) old
  have s: "may_hold D' ?p \<subseteq> may_hold D ?p \<union> {Some (image_of enc (rs @ us) @ t @ take k s) | k. True}"
    by (auto simp: file_text_def)
  show "may_hold D' ?p \<subseteq> {Some (image_of enc rs @ take k (image_of enc us @ t @ s)) | k. True}"
  proof
    fix c assume "c \<in> may_hold D' ?p"
    with s consider "c \<in> may_hold D ?p" | k where "c = Some (image_of enc (rs @ us) @ t @ take k s)"
      by blast
    then show "c \<in> {Some (image_of enc rs @ take k (image_of enc us @ t @ s)) | k. True}"
    proof cases
      case 1
      from 1 k obtain n where "c = Some (image_of enc rs @ take n (image_of enc us @ t))" by blast
      moreover obtain m where "take n (image_of enc us @ t) = take m ((image_of enc us @ t) @ s)"
        using take_in_front by blast
      ultimately show ?thesis by auto
    next
      case 2
      then have "c = Some (image_of enc rs @ take (length (image_of enc us @ t) + k) (image_of enc us @ t @ s))"
        by (simp add: image_append)
      then show ?thesis by blast
    qed
  qed
  show "seen D' ?p = Some (image_of enc (rs @ us) @ t @ s)"
    using assms(4) old by simp
  consider "s = []" | "s = encoded enc r @ newline" | n where "s = take n (encoded enc r @ newline)"
    using append_outcome [OF assms(1) a(3)] assms(4) k old by (auto simp: file_text_def)
  then show "\<exists>l. s = take l (encoded enc r @ newline)"
    by cases (metis take_0, metis take_all order_refl, blast)
qed

lemma kept_refused:
  assumes "record_codec enc dec" "journal_kept enc j rs us t D"
    "append_on_disk enc j F r D = (Inl e, D')"
    "seen D' (journal_path j) = seen D (journal_path j)"
  shows "journal_kept enc j rs us t D'"
proof -
  have "seen D' (journal_path j) = Some (file_text (seen D) (journal_path j) @ [])"
    using assms(2,4) by (simp add: journal_kept_def file_text_def)
  from kept_unfinished [OF assms(1-3) this] assms(2) show ?thesis
    unfolding journal_kept_def by simp
qed

lemma kept_unsynced:
  assumes "record_codec enc dec" "journal_kept enc j rs us [] D"
    "append_on_disk enc j F r D = (Inl e, D')"
    "seen D' (journal_path j) = Some (file_text (seen D) (journal_path j) @ encoded enc r @ newline)"
  shows "journal_kept enc j rs (us @ [r]) [] D'"
proof -
  from kept_unfinished [OF assms] assms(2) show ?thesis
    unfolding journal_kept_def by (simp add: image_append image_single)
qed

lemma kept_cut_short:
  assumes "record_codec enc dec" "journal_kept enc j rs us [] D"
    "append_on_disk enc j F r D = (Inl e, D')"
    "seen D' (journal_path j) = Some (file_text (seen D) (journal_path j) @ t)"
    "CHR 0x0A \<notin> set t"
  shows "journal_kept enc j rs us t D'"
proof -
  note u = kept_unfinished [OF assms(1-4)]
  from u(6) obtain l where l: "t = take l (encoded enc r @ newline)" ..
  with assms(5) have "t = take l (encoded enc r)"
    by (cases "l \<le> length (encoded enc r)") (auto simp: newline_def take_Cons')
  with u(1-5) show ?thesis unfolding journal_kept_def by auto
qed

text \<open>A part of a line is where the last line feed ends, and the reader takes it for a record or drops it.\<close>

lemma same_tail:
  assumes "x @ a = y @ b" "x = [] \<or> last x = c" "y = [] \<or> last y = c" "c \<notin> set a" "c \<notin> set b"
  shows "a = b"
proof -
  from assms(1) consider u where "x = y @ u" "u @ a = b" | u where "x @ u = y" "a = u @ b"
    by (auto simp: append_eq_append_conv2)
  then show ?thesis
  proof cases
    case 1
    with assms(2,5) have "u = []" by (cases u rule: rev_cases) auto
    with 1 show ?thesis by simp
  next
    case 2
    with assms(3,4) have "u = []" by (cases u rule: rev_cases) auto
    with 2 show ?thesis by simp
  qed
qed

lemma encoded_nonempty: "record_codec enc dec \<Longrightarrow> encoded enc r \<noteq> []"
  using record_codecD(4) [of enc dec r] by (auto simp: is_blank_def trim_def trim_start_def trim_end_def)

lemma tail_record_take:
  assumes "record_codec enc dec"
  shows "tail_record dec (take l (encoded enc r)) = (if length (encoded enc r) \<le> l then [r] else [])"
  using record_codecD(2) [OF assms, of r] record_codecD(7) [OF assms, where k = l and r = r] encoded_nonempty [OF assms, of r]
  by (auto simp: tail_record_def)

lemma read_with_tail:
  assumes "record_codec enc dec" "fs (journal_path j) = Some (image_of enc rs @ t)"
    "t = take l (encoded enc r)" "utf8_valid (file_text fs (journal_path j))"
  shows "read_records dec j None fs = Inr (rs @ tail_record dec t)"
  using assms(2,4) parse_torn [OF assms(1), of "journal_path j" rs l r]
  by (simp add: read_records_def file_text_def assms(3) tail_record_take [OF assms(1)])

lemma kept_read:
  assumes "record_codec enc dec" "journal_kept enc j rs us t D"
    "read_records dec j fault (seen D) = Inr rs'"
  shows "rs' = rs @ us @ tail_record dec t"
proof -
  from assms(2) obtain r l where seen: "seen D (journal_path j) = Some (image_of enc (rs @ us) @ t)"
    and t: "t = take l (encoded enc r)" unfolding journal_kept_def by blast
  from assms(3) seen have ok: "fault = None" "utf8_valid (file_text (seen D) (journal_path j))"
    by (auto simp: read_records_def file_text_def split: option.splits if_splits)
  from read_with_tail [OF assms(1) seen t ok(2)] assms(3) ok(1) show ?thesis by simp
qed

lemma kept_compacted:
  assumes "record_codec enc dec" "compact_temp (journal_path j) \<noteq> journal_path j"
    "path_parent (journal_path j) \<noteq> None" "disk_ok D" "apart D (journal_path j)"
    "read_records dec j fault (seen D) = Inr rs" "snd G = no_dir_faults"
    "journal_compact_on_disk enc dec j fault G D = (Inr n, D')"
  shows "disk_ok D'" "apart D' (journal_path j)" "settled_name D' (journal_path j)"
    "may_hold D' (journal_path j) = {Some (image_of enc (compact_records rs))}"
proof -
  let ?p = "journal_path j"
  let ?body = "image_of enc (compact_records rs)"
  obtain u where "compact_on_disk G ?p ?body D = (Inr u, D')"
    using assms(8) encode_body_image [OF assms(1)]
    by (auto simp: journal_compact_on_disk_def Let_def assms(6) split: prod.splits sum.splits)
  then have "flushed_replace (compact_errors ?p) G (compact_temp ?p) ?p ?body D = (Inr u, D')"
    by (simp add: compact_on_disk_def)
  from flushed_run [OF assms(4,2,5) this] assms(3,7)
  show "disk_ok D'" "apart D' ?p" "settled_name D' ?p" "may_hold D' ?p = {Some ?body}"
    by (auto simp: settled_name_def)
qed

lemma kept_not_compacted:
  assumes "record_codec enc dec" "compact_temp (journal_path j) \<noteq> journal_path j"
    "journal_kept enc j rs us t D" "journal_compact_on_disk enc dec j fault G D = (Inl e, D')"
  shows "journal_kept enc j rs us t D'"
proof -
  let ?p = "journal_path j"
  note run = assms(4) [unfolded journal_compact_on_disk_def Let_def]
  from assms(3) have wf: "disk_ok D" "apart D ?p" by (auto simp: journal_kept_def)
  consider "D' = D" | body where "compact_on_disk G ?p body D = (Inl e, D')"
    using run by (auto split: sum.splits prod.splits)
  then show ?thesis
  proof cases
    case 1
    with assms(3) show ?thesis by simp
  next
    case 2
    then have fl: "flushed_replace (compact_errors ?p) G (compact_temp ?p) ?p body D = (Inl e, D')"
      by (simp add: compact_on_disk_def)
    note f = flushed_run [OF wf(1) assms(2) wf(2) fl]
    have "seen D' ?p = seen D ?p"
      using replace_via_kept f assms(2) by (auto dest!: replace_via_kept)
    with f assms(3) show ?thesis
      by (simp add: journal_kept_def settled_name_def)
  qed
qed

text \<open>A beginning of the written records is some of them and a beginning of the next, or of the part.\<close>

lemma take_image:
  "\<exists>m l. take k (image_of enc us @ t) =
     image_of enc (take m us) @ take l (if m < length us then encoded enc (us ! m) else t)"
proof (induction us arbitrary: k)
  case Nil
  show ?case by auto
next
  case (Cons r us)
  have cons: "image_of enc (r # xs) = (encoded enc r @ newline) @ image_of enc xs" for xs
    by (simp add: image_cons)
  show ?case
  proof (cases "k \<le> length (encoded enc r)")
    case True
    then have "take k (image_of enc (r # us) @ t) =
        image_of enc (take 0 (r # us)) @ take k (encoded enc ((r # us) ! 0))"
      by (simp add: cons)
    then show ?thesis by (intro exI [of _ 0] exI [of _ k]) simp
  next
    case False
    then obtain k' where k': "k = length (encoded enc r @ newline) + k'"
      by (metis Suc_leI add.commute add_Suc_right le_Suc_ex length_append newline_def length_Cons
          list.size(3) not_le One_nat_def plus_1_eq_Suc)
    from Cons [of k'] obtain m l where "take k' (image_of enc us @ t) =
        image_of enc (take m us) @ take l (if m < length us then encoded enc (us ! m) else t)"
      by blast
    then have "take k (image_of enc (r # us) @ t) = image_of enc (take (Suc m) (r # us)) @
        take l (if Suc m < length (r # us) then encoded enc ((r # us) ! Suc m) else t)"
      by (simp add: cons k')
    then show ?thesis by blast
  qed
qed

lemma cut_content:
  assumes "journal_kept enc j rs us t D" "power_cut D fs"
  obtains m l where "fs (journal_path j) = Some (image_of enc (rs @ take m us) @
      take l (if m < length us then encoded enc (us ! m) else t))"
proof -
  from assms obtain k where "fs (journal_path j) = Some (image_of enc rs @ take k (image_of enc us @ t))"
    unfolding journal_kept_def power_cut_def by blast
  with take_image [of k enc us t] that show thesis
    by (auto simp: image_append)
qed

lemma torn_is_beginning:
  assumes "record_codec enc dec" "journal_kept enc j rs us t D" "power_cut D fs"
    "fs (journal_path j) = Some (image_of enc xs @ t')" "CHR 0x0A \<notin> set t'"
  shows "\<exists>r l. t' = take l (encoded enc r)"
proof -
  from cut_content [OF assms(2,3)] obtain m l where c: "fs (journal_path j) =
      Some (image_of enc (rs @ take m us) @ take l (if m < length us then encoded enc (us ! m) else t))"
    by blast
  from assms(2) obtain r0 l0 where t: "t = take l0 (encoded enc r0)"
    unfolding journal_kept_def by blast
  let ?a = "take l (if m < length us then encoded enc (us ! m) else t)"
  have a: "\<exists>r l. ?a = take l (encoded enc r)"
  proof (cases "m < length us")
    case True
    then show ?thesis by auto
  next
    case False
    have "?a = take (min l l0) (encoded enc r0)" using False by (simp add: t)
    then show ?thesis by blast
  qed
  then have "CHR 0x0A \<notin> set ?a"
    using record_codecD(5) [OF assms(1)] take_no_newline by metis
  with same_tail [of "image_of enc xs" t' "image_of enc (rs @ take m us)" ?a] c assms(4,5)
    image_clean [of enc xs] image_clean [of enc "rs @ take m us"] a
  show ?thesis by auto
qed

lemma history_kept:
  assumes "record_codec enc dec" "compact_temp (journal_path j) \<noteq> journal_path j"
    "path_parent (journal_path j) \<noteq> None"
  shows "cut_history enc dec j ops us t D \<Longrightarrow> journal_kept enc j (replay ops []) us t D"
proof (induction rule: cut_history.induct)
  case (begun D ops)
  then show ?case by (intro kept_flushed_whole)
next
  case (appended ops us D F r u D')
  from kept_append [OF assms(1) appended.IH appended.hyps(2)] show ?case
    by (simp add: replay_append replay_records del: map_append)
next
  case (refused ops us t D F r e D')
  from kept_refused [OF assms(1) refused.IH refused.hyps(2,3)] show ?case .
next
  case (unsynced ops us D F r e D')
  from kept_unsynced [OF assms(1) unsynced.IH unsynced.hyps(2,3)] show ?case .
next
  case (cut_short ops us D F r e D' t)
  from kept_cut_short [OF assms(1) cut_short.IH cut_short.hyps(2-4)] show ?case .
next
  case (compacted ops us t D G fault n D')
  from compacted.hyps(3) obtain rs where read: "read_records dec j fault (seen D) = Inr rs"
    by (auto simp: journal_compact_on_disk_def split: sum.splits)
  have wf: "disk_ok D" "apart D (journal_path j)"
    using compacted.IH by (auto simp: journal_kept_def)
  from kept_compacted [OF assms wf read compacted.hyps(2,3)] kept_read [OF assms(1) compacted.IH read]
  show ?case
    by (intro kept_flushed_whole)
      (simp_all add: replay_append replay_records flip: map_append append_assoc)
next
  case (not_compacted ops us t D fault G e D')
  from kept_not_compacted [OF assms(1,2) not_compacted.IH not_compacted.hyps(2)] show ?case .
next
  case (elsewhere ops us t D D')
  then show ?case by (simp add: journal_kept_def)
next
  case (restarted ops us t D fs m t' D')
  from torn_is_beginning [OF assms(1) restarted.IH restarted.hyps(2-4)] obtain r l
    where "t' = take l (encoded enc r)" by blast
  with restarted.hyps show ?case
    by (intro kept_flushed) (auto simp: replay_append replay_records)
qed

lemma read_after_cut:
  assumes "record_codec enc dec" "journal_kept enc j rs us t D" "power_cut D fs"
    "utf8_valid (file_text fs (journal_path j))"
  shows "\<exists>m. read_records dec j None fs = Inr (rs @ take m (us @ tail_record dec t))"
proof -
  from cut_content [OF assms(2,3)] obtain m l where c: "fs (journal_path j) =
      Some (image_of enc (rs @ take m us) @ take l (if m < length us then encoded enc (us ! m) else t))"
    by blast
  show ?thesis
  proof (cases "m < length us")
    case True
    with c have "fs (journal_path j) = Some (image_of enc (rs @ take m us) @ take l (encoded enc (us ! m)))"
      by simp
    from read_with_tail [OF assms(1) this refl assms(4)]
    have "read_records dec j None fs = Inr (rs @ take (if length (encoded enc (us ! m)) \<le> l then Suc m else m)
        (us @ tail_record dec t))"
      using True by (simp add: tail_record_take [OF assms(1)] take_Suc_conv_app_nth)
    then show ?thesis by blast
  next
    case False
    from assms(2) obtain r l0 where t: "t = take l0 (encoded enc r)"
      unfolding journal_kept_def by blast
    with False c have "fs (journal_path j) = Some (image_of enc (rs @ us) @ take (min l l0) (encoded enc r))"
      by simp
    from read_with_tail [OF assms(1) this refl assms(4)]
    have "read_records dec j None fs = Inr (rs @ take (if length (encoded enc r) \<le> min l l0 then length us + 1
        else length us) (us @ tail_record dec t))"
      by (simp add: t tail_record_take [OF assms(1)])
    then show ?thesis by blast
  qed
qed

section \<open>What was acknowledged is still there\<close>

text \<open>A disk with one file, all of it on the platter.\<close>

definition flushed_file :: "string \<Rightarrow> string \<Rightarrow> disk" where
  "flushed_file p c =
     \<lparr>inode_seen = (\<lambda>_. c), inode_may = (\<lambda>_. {c}), name_seen = [p \<mapsto> 0],
      name_may = (\<lambda>q. {if q = p then Some 0 else None}), next_inode = 1\<rparr>"

definition no_files :: disk where
  "no_files =
     \<lparr>inode_seen = (\<lambda>_. []), inode_may = (\<lambda>_. {[]}), name_seen = Map.empty,
      name_may = (\<lambda>_. {None}), next_inode = 0\<rparr>"

lemma flushed_file_facts:
  "disk_ok (flushed_file p c)" "apart (flushed_file p c) q" "settled_name (flushed_file p c) p"
  "may_hold (flushed_file p c) p = {Some c}" "seen (flushed_file p c) = [p \<mapsto> c]"
  by (auto simp: flushed_file_def disk_ok_def apart_def settled_name_def may_hold_def seen_def
      fun_eq_iff split: if_splits)

lemma no_files_facts:
  "disk_ok no_files" "apart no_files q" "name_may no_files q = {None}" "seen no_files = Map.empty"
  by (auto simp: no_files_def disk_ok_def apart_def seen_def fun_eq_iff)

text \<open>
  C4: Over any life of the journal on disk, with failed flushes, writes cut short, refusals,
  compactions, and power cuts that stop anywhere in a line and are followed by restarts in between:
  after a power cut at any moment, an entry whose append returned \<open>Ok\<close> and that no done marker names is
  read back, waiting or set aside with a reason. The journal's name was on the platter from the
  beginning, no compaction lost the flush of its directory, nothing was appended behind a line that was
  cut short (\<open>append_after_torn_tail_wedges\<close> says what would come of it), and what this last cut leaves
  ends between two characters of its text (\<open>torn_character_blocks_the_journal\<close> is the other case).
\<close>

theorem acknowledged_survives_power_cuts:
  assumes "record_codec enc dec" "compact_temp (journal_path j) \<noteq> journal_path j"
    "path_parent (journal_path j) \<noteq> None"
    "cut_history enc dec j (before @ Accept e # after) us t D" "power_cut D fs"
    "fresh_ids {} (before @ Accept e # after @ map op_of_record (us @ tail_record dec t))"
    "MarkDone (entry_id e) \<notin> set after" "Done (entry_id e) \<notin> set (us @ tail_record dec t)"
    "utf8_valid (file_text fs (journal_path j))"
  shows "\<exists>ps ds. journal_pending dec j None fs = Inr ps \<and> journal_dead dec j None fs = Inr ds \<and>
    (e \<in> set ps \<or> (\<exists>why at. (e, why, at) \<in> set ds))"
proof -
  define ws where "ws = us @ tail_record dec t"
  note h = assms(6,8) [folded ws_def]
  obtain m where "read_records dec j None fs =
      Inr (replay (before @ Accept e # after) [] @ take m ws)"
    using read_after_cut [OF assms(1) history_kept [OF assms(1-4)] assms(5,9)] unfolding ws_def by blast
  then have read: "read_records dec j None fs =
      Inr (replay (before @ Accept e # (after @ map op_of_record (take m ws))) [])"
    by (simp add: replay_append replay_records)
  have split: "before @ Accept e # after @ map op_of_record ws =
      (before @ Accept e # (after @ map op_of_record (take m ws))) @ map op_of_record (drop m ws)"
    by (simp flip: map_append)
  have fresh: "fresh_ids {} (before @ Accept e # (after @ map op_of_record (take m ws)))"
    by (rule fresh_ids_append) (use h(1) in \<open>simp only: split\<close>)
  have "MarkDone (entry_id e) \<noteq> op_of_record u" if "u \<in> set ws" for u
    using h(2) that by (cases u) auto
  then have "MarkDone (entry_id e) \<notin> set (after @ map op_of_record (take m ws))"
    using assms(7) in_set_takeD by fastforce
  from replay_nothing_lost [OF fresh this] read show ?thesis
    by (simp add: journal_pending_def journal_dead_def)
qed

lemma demo_disk_append:
  "\<exists>D'. append_on_disk demo_enc demo_journal no_append_faults (EntryRec demo_entry)
     (flushed_file ''j.jsonl'' []) = (Inr (), D')"
proof -
  obtain res D' where run: "append_on_disk demo_enc demo_journal no_append_faults (EntryRec demo_entry)
      (flushed_file ''j.jsonl'' []) = (res, D')" by fastforce
  from append_run(3) [OF demo_codec flushed_file_facts(1,2) run]
    demo_append [of "[''j.jsonl'' \<mapsto> []]" "EntryRec demo_entry"] demo_lengths(1)
  have "res = Inr ()" by (simp add: flushed_file_facts file_text_def)
  with run show ?thesis by blast
qed

lemma demo_path: "path_parent ''j.jsonl'' = Some []"
  by (simp add: path_parent_def)

definition full_disk :: append_faults where
  "full_disk = no_append_faults\<lparr>append_fault := Some (1, ''no space'')\<rparr>"

lemma demo_append_cut_short:
  assumes "length (file_text fs ''j.jsonl'') + length (encoded demo_enc r) < 60000000"
  shows "\<exists>e. journal_append demo_enc demo_journal full_disk r fs =
    (Inl e, fs(''j.jsonl'' \<mapsto> file_text fs ''j.jsonl'' @ take 1 (encoded demo_enc r @ newline)))"
proof -
  have size: "existing_size demo_journal full_disk fs = length (file_text fs ''j.jsonl'')"
    by (simp add: existing_size_def demo_journal_def full_disk_def no_append_faults_def file_text_def
        split: option.split)
  have dir: "mkdir_error demo_journal full_disk = None"
    by (auto simp: mkdir_error_def full_disk_def no_append_faults_def split: option.split)
  have enc: "demo_enc r = Inr (encoded demo_enc r)"
    by (rule record_codecD(1) [OF demo_codec])
  show ?thesis
    unfolding journal_append_def Let_def dir option.case size enc sum.case
    using assms
    by (simp add: demo_journal_def full_disk_def no_append_faults_def DEFAULT_MAX_BYTES_def newline_def)
qed

text \<open>An entry accepted, a marker cut short by a full disk, and the power going: the restart finds the part.\<close>

lemma demo_torn_history:
  "cut_history demo_enc demo_dec demo_journal ([] @ Accept demo_entry # []) [] ''a''
     (flushed_file ''j.jsonl'' (image_of demo_enc [EntryRec demo_entry] @ ''a''))"
proof -
  have path: "journal_path demo_journal = ''j.jsonl''" by (simp add: demo_journal_def)
  obtain D1 where run: "append_on_disk demo_enc demo_journal no_append_faults (EntryRec demo_entry)
      (flushed_file ''j.jsonl'' []) = (Inr (), D1)"
    using demo_disk_append by blast
  have "cut_history demo_enc demo_dec demo_journal [] [] [] (flushed_file ''j.jsonl'' [])"
    by (rule cut_history.begun) (simp_all add: flushed_file_facts path)
  from cut_history.appended [OF this run]
  have h1: "cut_history demo_enc demo_dec demo_journal [Accept demo_entry] [] [] D1" by simp
  have plain: "compact_temp (journal_path demo_journal) \<noteq> journal_path demo_journal"
    "path_parent (journal_path demo_journal) \<noteq> None"
    by (simp_all add: path demo_compact_temp demo_path)
  have replayed: "replay [Accept demo_entry] [] = [EntryRec demo_entry]"
    using replay_records [of "[EntryRec demo_entry]" "[]"] by simp
  let ?image = "image_of demo_enc [EntryRec demo_entry]"
  from history_kept [OF demo_codec plain h1, unfolded journal_kept_def path replayed]
  have d1: "disk_ok D1" "apart D1 ''j.jsonl''" "seen D1 ''j.jsonl'' = Some ?image" by simp_all
  obtain res D2 where short: "append_on_disk demo_enc demo_journal full_disk (Done ''b'') D1 = (res, D2)"
    by fastforce
  have one: "take 1 (encoded demo_enc (Done ''b'') @ newline) = ''a''"
    by (simp add: demo_encoded put_nat_def numeral_eq_Suc)
  have "length (encoded demo_enc (Done ''b'')) < 10000"
    by (simp add: demo_encoded byte_def)
  then obtain e where e: "res = Inl e" "seen D2 ''j.jsonl'' = Some (?image @ ''a'')"
    using demo_append_cut_short [of "seen D1" "Done ''b''"] d1(3) demo_lengths(1)
      append_run(3) [OF demo_codec d1(1) _ short] d1(2)
    unfolding one by (auto simp: path file_text_def image_single newline_def)
  have h2: "cut_history demo_enc demo_dec demo_journal [Accept demo_entry] [] ''a'' D2"
    by (rule cut_history.cut_short [OF h1 short [unfolded e(1)]])
      (use e(2) d1(3) in \<open>simp_all add: path file_text_def\<close>)
  have "disk_ok D2"
    using history_kept [OF demo_codec plain h2] by (simp add: journal_kept_def)
  from power_cut_seen [OF this] have "cut_history demo_enc demo_dec demo_journal
      ([Accept demo_entry] @ map op_of_record (take 0 [])) [] ''a'' (flushed_file ''j.jsonl'' (?image @ ''a''))"
    by (rule cut_history.restarted [OF h2])
      (use e(2) replayed in \<open>simp_all add: path flushed_file_facts del: image_of_simps\<close>)
  then show ?thesis by simp
qed

lemma acknowledged_survives_power_cuts_witness:
  "\<exists>ps ds. journal_pending demo_dec demo_journal None
       [''j.jsonl'' \<mapsto> image_of demo_enc [EntryRec demo_entry] @ ''a''] = Inr ps \<and>
     journal_dead demo_dec demo_journal None
       [''j.jsonl'' \<mapsto> image_of demo_enc [EntryRec demo_entry] @ ''a''] = Inr ds \<and>
     (demo_entry \<in> set ps \<or> (\<exists>why at. (demo_entry, why, at) \<in> set ds))"
proof -
  have path: "journal_path demo_journal = ''j.jsonl''" by (simp add: demo_journal_def)
  have plain: "compact_temp (journal_path demo_journal) \<noteq> journal_path demo_journal"
    "path_parent (journal_path demo_journal) \<noteq> None"
    by (simp_all add: path demo_compact_temp demo_path)
  have "take 1 (encoded demo_enc (Done ''b'')) = ''a''" "\<not> length (encoded demo_enc (Done ''b'')) \<le> 1"
    by (simp_all add: demo_encoded put_nat_def numeral_eq_Suc)
  with tail_record_take [OF demo_codec, of 1 "Done ''b''"] have tail: "tail_record demo_dec ''a'' = []"
    by simp
  let ?D = "flushed_file ''j.jsonl'' (image_of demo_enc [EntryRec demo_entry] @ ''a'')"
  have "utf8_valid (file_text (seen ?D) (journal_path demo_journal))"
    by (simp add: path flushed_file_facts file_text_def utf8_append [OF utf8_image [OF demo_codec]]
        utf8_valid.simps(2) byte_def)
  from acknowledged_survives_power_cuts [OF demo_codec plain demo_torn_history
      power_cut_seen [OF flushed_file_facts(1)] _ _ _ this]
  show ?thesis by (simp add: tail flushed_file_facts)
qed

text \<open>Appends one after the other, each acknowledged.\<close>

fun appends_on_disk :: "encoder \<Rightarrow> journal \<Rightarrow> log_record list \<Rightarrow> disk \<Rightarrow> unit result \<times> disk" where
  "appends_on_disk enc j [] D = (Inr (), D)"
| "appends_on_disk enc j (r # rs) D =
     (case append_on_disk enc j no_append_faults r D of
        (Inl e, D') \<Rightarrow> (Inl e, D')
      | (Inr u, D') \<Rightarrow> appends_on_disk enc j rs D')"

lemma appends_run:
  assumes "record_codec enc dec"
  shows "disk_ok D \<Longrightarrow> apart D (journal_path j) \<Longrightarrow> None \<in> name_may D (journal_path j) \<Longrightarrow>
    appends_on_disk enc j rs D = (Inr u, D') \<Longrightarrow>
    disk_ok D' \<and> None \<in> name_may D' (journal_path j) \<and>
    file_text (seen D') (journal_path j) = file_text (seen D) (journal_path j) @ image_of enc rs"
proof (induction rs arbitrary: D)
  case Nil
  then show ?case by simp
next
  case (Cons r rs)
  obtain res D1 where step: "append_on_disk enc j no_append_faults r D = (res, D1)" by fastforce
  with Cons.prems(4) have res: "res = Inr ()" and rest: "appends_on_disk enc j rs D1 = (Inr u, D')"
    by (cases res; simp)+
  note a = append_run [OF assms Cons.prems(1,2) step]
  have "file_text (seen D1) (journal_path j) =
      file_text (seen D) (journal_path j) @ encoded enc r @ newline"
    using append_outcome [OF assms a(3)] by (auto simp: res file_text_def)
  moreover note image_cons [of enc r rs]
  ultimately show ?case
    using Cons.IH [OF a(1,2) _ rest] a(4) Cons.prems(3) by auto
qed

text \<open>
  C37: The same promise is not kept for a journal that is new. Appending flushes the file and never
  the directory that names it, so that however many appends have returned \<open>Ok\<close>, a power cut can
  find no journal at all, and the reader takes that for an empty one: the accepted event is gone
  without a word. It lasts until the first compaction, which does flush the directory.
\<close>

theorem new_journal_may_vanish:
  assumes "record_codec enc dec" "disk_ok D" "apart D (journal_path j)"
    "name_may D (journal_path j) = {None}" "appends_on_disk enc j rs D = (Inr u, D')"
  shows "read_records dec j None (seen D') = Inr rs \<and>
    (\<exists>fs. power_cut D' fs \<and> read_records dec j None fs = Inr [])"
proof -
  let ?p = "journal_path j"
  have "name_seen D ?p = None"
    using disk_okD(1) [OF assms(2), of ?p] assms(4) by simp
  with appends_run [OF assms(1-3) _ assms(5)] assms(4)
  have run: "disk_ok D'" "None \<in> name_may D' ?p" "file_text (seen D') ?p = image_of enc rs"
    by (simp_all add: file_text_def seen_def)
  have "None \<in> may_hold D' ?p"
    unfolding may_hold_def by (rule UN_I [OF run(2)]) simp
  from power_cut_at [OF run(1) this]
  have "\<exists>fs. power_cut D' fs \<and> read_records dec j None fs = Inr []"
    by (intro exI [of _ "(seen D')(?p := None)"]) (simp add: read_records_def)
  with holds_read [OF assms(1)] run(3) show ?thesis by (simp add: disk_holds_def)
qed

lemma new_journal_may_vanish_witness:
  "\<exists>D'. append_on_disk demo_enc demo_journal no_append_faults (EntryRec demo_entry) no_files = (Inr (), D') \<and>
     journal_pending demo_dec demo_journal None (seen D') = Inr [demo_entry] \<and>
     (\<exists>fs. power_cut D' fs \<and> journal_pending demo_dec demo_journal None fs = Inr [])"
proof -
  obtain res D' where run: "append_on_disk demo_enc demo_journal no_append_faults (EntryRec demo_entry)
      no_files = (res, D')" by fastforce
  from append_run(3) [OF demo_codec no_files_facts(1,2) run]
    demo_append [of Map.empty "EntryRec demo_entry"] demo_lengths(1)
  have "res = Inr ()" by (simp add: no_files_facts file_text_def)
  with run have all: "appends_on_disk demo_enc demo_journal [EntryRec demo_entry] no_files = (Inr (), D')"
    by simp
  from new_journal_may_vanish [OF demo_codec no_files_facts(1-3) all] run \<open>res = Inr ()\<close>
  show ?thesis by (auto simp: journal_pending_def pending_eq)
qed

text \<open>A compaction that flushes its directory puts the journal, whatever it was before, on the platter.\<close>

lemma compaction_begins_history:
  assumes "record_codec enc dec" "compact_temp (journal_path j) \<noteq> journal_path j"
    "path_parent (journal_path j) \<noteq> None" "disk_ok D" "apart D (journal_path j)"
    "read_records dec j fault (seen D) = Inr rs" "snd G = no_dir_faults"
    "journal_compact_on_disk enc dec j fault G D = (Inr n, D')"
  shows "cut_history enc dec j (map op_of_record (compact_records rs)) [] [] D'"
  using kept_compacted [OF assms] by (intro cut_history.begun) (simp_all add: replay_records)

section \<open>A record cut in the middle of a character\<close>

text \<open>
  C36: The torn tail that the reader forgives is one of whole characters. When the write was cut
  inside a character of more than one byte, the file is no UTF-8 text, so reading it fails as a
  whole, before the question of a torn line comes up: every pending entry is stuck, and the error
  asks for the file's permissions to be checked.
\<close>

theorem torn_character_blocks_the_journal:
  assumes "record_codec enc dec" "\<not> utf8_valid (take k (encoded enc r))"
    "fs (journal_path j) = Some (image_of enc rs @ take k (encoded enc r))"
  shows "journal_pending dec j None fs =
    Inl (Config (''failed to read journal '' @ journal_path j @ '': stream did not contain valid UTF-8'')
          (''check permissions on '' @ journal_path j))"
  using assms utf8_append [OF utf8_image [OF assms(1)]]
  by (simp add: journal_pending_def read_records_def read_error_def)

text \<open>A text form whose lines have a character of two bytes.\<close>

definition accent_enc :: encoder where
  "accent_enc r = Inr (CHR ''v'' # CHR 0xC3 # CHR 0xA9 # encoded demo_enc r)"

fun accent_dec :: decoder where
  "accent_dec (v # a # b # t) =
     (if v = CHR ''v'' \<and> a = CHR 0xC3 \<and> b = CHR 0xA9 \<and> t \<noteq> [] then demo_dec t else Inl [])"
| "accent_dec t = Inl []"

lemma accent_codec: "record_codec accent_enc accent_dec"
  unfolding record_codec_def
proof
  fix r
  note c = record_codecD [OF demo_codec, where r = r]
  let ?t = "CHR ''v'' # CHR 0xC3 # CHR 0xA9 # encoded demo_enc r"
  have ne: "encoded demo_enc r \<noteq> []"
    by (simp add: demo_encoded)
  have "\<exists>e. accent_dec (take k ?t) = Inl e" if "0 < k" "k < length ?t" for k
  proof (cases "k \<le> 3")
    case True
    with that have "k = 1 \<or> k = 2 \<or> k = 3" by auto
    then show ?thesis by (auto simp: numeral_eq_Suc)
  next
    case False
    define k' where "k' = k - 3"
    have k: "k = Suc (Suc (Suc k'))" "0 < k'"
      using False by (simp_all add: k'_def)
    with that have "k' < length (encoded demo_enc r)" by simp
    with c(7) [of k'] k ne show ?thesis by auto
  qed
  moreover have "utf8_valid ?t"
    using c(3) by (simp add: utf8_valid.simps(2) byte_def cont_byte_def)
  moreover have "strip_cr ?t = ?t"
    using strip_cr_last [OF c(6) ne] ne by (simp add: strip_cr_def)
  moreover have "\<not> is_blank ?t"
  proof -
    have "trim_start ?t = ?t"
      by (rule strip_ws_no_change) (simp_all add: ws1_def byte_def)
    moreover have "?t = (CHR ''v'' # CHR 0xC3 # CHR 0xA9 # put_json (record_to_json r)) @ [CHR ''c'']"
      by (simp add: demo_encoded)
    moreover have "trim_end ((CHR ''v'' # CHR 0xC3 # CHR 0xA9 # put_json (record_to_json r)) @ [CHR ''c''])
        \<noteq> []"
      by (subst trim_end_stop) (simp_all add: ws1_def byte_def)
    ultimately show ?thesis by (simp add: is_blank_def trim_def)
  qed
  ultimately show "\<exists>t. accent_enc r = Inr t \<and> accent_dec t = Inr r \<and> utf8_valid t \<and> \<not> is_blank t \<and>
        CHR 0x0A \<notin> set t \<and> strip_cr t = t \<and>
        (\<forall>k. 0 < k \<longrightarrow> k < length t \<longrightarrow> (\<exists>e. accent_dec (take k t) = Inl e))"
    using c(2,5) ne by (intro exI [of _ ?t]) (simp add: accent_enc_def)
qed

lemma torn_character_blocks_the_journal_witness:
  "\<exists>err. journal_pending accent_dec demo_journal None
     [''j.jsonl'' \<mapsto> image_of accent_enc [EntryRec demo_entry] @ take 2 (encoded accent_enc (Done ''a''))]
   = Inl err"
proof -
  have "\<not> utf8_valid (take 2 (encoded accent_enc (Done ''a'')))"
    by (simp add: encoded_def accent_enc_def utf8_valid.simps(2) byte_def numeral_2_eq_2)
  from torn_character_blocks_the_journal [OF accent_codec this] show ?thesis
    by (simp add: demo_journal_def)
qed

section \<open>The token store and the profiles\<close>

text \<open>A sequence of writes of the token store, with the store that was acknowledged last.\<close>

fun persists_on_disk ::
  "json_text \<Rightarrow> ((persist_faults \<times> dir_faults) \<times> token_store) list \<Rightarrow> token_store \<Rightarrow> disk \<Rightarrow>
     token_store \<times> disk" where
  "persists_on_disk J [] S D = (S, D)"
| "persists_on_disk J ((F, S') # xs) S D =
     (case persist_on_disk J F S' D of
        (Inl e, D') \<Rightarrow> persists_on_disk J xs S D'
      | (Inr u, D') \<Rightarrow> persists_on_disk J xs S' D')"

lemma persist_run:
  assumes "json_text_ok J" "store_ok S" "store_temp (ts_path S) \<noteq> ts_path S"
    "path_parent (ts_path S) \<noteq> None" "disk_ok D" "apart D (ts_path S)"
    "persist_on_disk J F S D = (res, D')"
  shows "disk_ok D' \<and> apart D' (ts_path S) \<and>
    (case res of
       Inl e \<Rightarrow> may_hold D' (ts_path S) = may_hold D (ts_path S)
     | Inr u \<Rightarrow> snd F = no_dir_faults \<longrightarrow>
         (\<exists>c. may_hold D' (ts_path S) = {c} \<and> (\<forall>fs. fs (ts_path S) = c \<longrightarrow> synced J S fs)))"
proof -
  obtain body where body: "js_print J (store_to_json (ts_tokens S) (ts_sessions S)) = Inr body"
    "utf8_valid body" "js_parse J body = Some (store_to_json (ts_tokens S) (ts_sessions S))"
    using assms(1) store_json_plain [OF assms(2)] by (auto simp: json_text_ok_def)
  have here: "\<forall>fs. fs (ts_path S) = Some body \<longrightarrow> synced J S fs"
    using body assms(2) by (simp add: synced_def read_store_file_def store_json_roundtrip)
  consider e where "res = Inl e" "D' = D"
    | "store_on_disk (rewrite_fault (fst F), snd F) (ts_path S) body D = (res, D')"
    using assms(7) body(1) by (auto simp: persist_on_disk_def split: option.splits)
  then show ?thesis
  proof cases
    case 1
    with assms(5,6) show ?thesis by simp
  next
    case 2
    note wf = store_cut.well_formed [OF 2 assms(3,5,6)]
    show ?thesis
    proof (cases res)
      case (Inl e)
      from store_cut.refused [OF 2 [unfolded Inl] assms(3,5,6)] wf Inl show ?thesis by simp
    next
      case (Inr u)
      from store_cut.flushed [OF 2 [unfolded Inr] assms(3,5,6)] assms(4) wf Inr here show ?thesis
        by simp
    qed
  qed
qed

lemma persist_seen:
  assumes "store_temp (ts_path S) \<noteq> ts_path S" "disk_ok D" "apart D (ts_path S)"
    "persist_on_disk J F S D = (res, D')"
  shows "persist_with J (fst F) S (seen D) = (res, seen D')"
proof -
  have rep: "store_replace (rewrite_fault (fst F)) (ts_path S) body (seen D) = (r, seen X)"
    if "store_on_disk (rewrite_fault (fst F), snd F) (ts_path S) body D = (r, X)" for body r X
    using flushed_run [OF assms(2,1,3) that [unfolded store_on_disk_def]]
    by (simp add: store_replace_def)
  then show ?thesis
    using assms(4) by (auto simp: persist_on_disk_def persist_with_def split: sum.splits option.splits)
qed

text \<open>
  C27: The token store's file after a power cut at any moment is the store that was acknowledged
  last, whatever the writes since ran into: whoever was told that a token is issued or revoked finds
  it so after the restart, and a write that was refused left nothing. The flushes of the directory
  succeeded.
\<close>

theorem acknowledged_store_survives_power_cut:
  assumes "json_text_ok J" "store_temp p \<noteq> p" "path_parent p \<noteq> None"
    "disk_ok D" "apart D p" "may_hold D p = {c}" "\<forall>fs. fs p = c \<longrightarrow> synced J S fs" "ts_path S = p"
    "\<forall>(F, S') \<in> set xs. snd F = no_dir_faults \<and> store_ok S' \<and> ts_path S' = p"
    "persists_on_disk J xs S D = (S1, D1)" "power_cut D1 fs"
  shows "with_key_loading J None p (ts_key S1) fs = Inr S1"
proof -
  have "synced J S1 fs \<and> ts_path S1 = p"
    using assms(4-10)
  proof (induction xs arbitrary: S D c)
    case Nil
    with assms(11) show ?case by (auto simp: power_cut_def)
  next
    case (Cons x xs)
    obtain F S' where x: "x = (F, S')" by (cases x)
    from Cons.prems(6) x have ok: "snd F = no_dir_faults" "store_ok S'" "ts_path S' = p" by auto
    obtain r D2 where step: "persist_on_disk J F S' D = (r, D2)" by fastforce
    note run = persist_run [OF assms(1) ok(2) _ _ Cons.prems(1) _ step, unfolded ok(3),
        OF assms(2,3) Cons.prems(2)]
    have rest: "\<forall>(F, S') \<in> set xs. snd F = no_dir_faults \<and> store_ok S' \<and> ts_path S' = p"
      using Cons.prems(6) by simp
    show ?case
    proof (cases r)
      case (Inl e)
      with Cons.prems(7) x step have "persists_on_disk J xs S D2 = (S1, D1)" by simp
      moreover have "disk_ok D2" "apart D2 p" "may_hold D2 p = {c}"
        using run Inl Cons.prems(3) by auto
      ultimately show ?thesis using Cons.IH [of D2 c S] Cons.prems(4,5) rest by blast
    next
      case (Inr u)
      with run ok(1) obtain c' where "disk_ok D2" "apart D2 p" "may_hold D2 p = {c'}"
        "\<forall>fs. fs p = c' \<longrightarrow> synced J S' fs" by auto
      moreover have "persists_on_disk J xs S' D2 = (S1, D1)"
        using Inr Cons.prems(7) x step by simp
      ultimately show ?thesis using Cons.IH [of D2 c' S'] ok(3) rest by blast
    qed
  qed
  then show ?thesis by (auto simp: synced_load)
qed

definition demo_hass_store :: token_store where
  "demo_hass_store = demo_store\<lparr>ts_tokens :=
     [(''hass'', \<lparr>tr_source = ''hass'', sealed_token = ''x'', issued_at = ''2026-01-01''\<rparr>)]\<rparr>"

lemma demo_hass_facts:
  "store_ok demo_hass_store" "ts_path demo_hass_store = ''state/tokens.json''"
  "ts_key demo_hass_store = demo_key"
  using demo_store_facts
  by (simp_all add: demo_hass_store_def store_ok_def bt_ok_def token_ok_def utf8_valid.simps(2) byte_def)

lemma acknowledged_store_survives_power_cut_witness:
  "\<exists>D1. persists_on_disk demo_json_text
      [((no_persist_faults, no_dir_faults), demo_hass_store),
       ((rename_refused, no_dir_faults), demo_store)] demo_store no_files = (demo_hass_store, D1) \<and>
    with_key_loading demo_json_text None ''state/tokens.json'' demo_key (seen D1) = Inr demo_hass_store"
proof -
  let ?p = "''state/tokens.json''"
  let ?ok = "(no_persist_faults, no_dir_faults)"
  let ?bad = "(rename_refused, no_dir_faults)"
  note temp = demo_store_facts(3) [unfolded demo_store_facts(4)]
  obtain r D1 where one: "persist_on_disk demo_json_text ?ok demo_hass_store no_files = (r, D1)"
    by fastforce
  obtain r' D2 where two: "persist_on_disk demo_json_text ?bad demo_store D1 = (r', D2)" by fastforce
  have "persist_with demo_json_text no_persist_faults demo_hass_store (seen no_files) = (r, seen D1)"
    using persist_seen [OF _ no_files_facts(1,2) one] temp demo_hass_facts by simp
  with persist_clean [OF demo_json_text_ok demo_hass_facts(1), of "seen no_files"]
  have r: "r = Inr ()" by (metis prod.inject)
  have wf: "disk_ok D1" "apart D1 ?p"
    using persist_run [OF demo_json_text_ok demo_hass_facts(1) _ _ no_files_facts(1,2) one]
    by (simp_all add: demo_hass_facts temp path_parent_def)
  have "persist_with demo_json_text rename_refused demo_store (seen D1) = (r', seen D2)"
    using persist_seen [OF _ wf(1) _ two] temp wf(2) demo_store_facts by simp
  with persist_refused [OF demo_json_text_ok demo_store_facts(1), of "seen D1"]
  obtain e where r': "r' = Inl e" by (metis prod.inject)
  have all: "persists_on_disk demo_json_text [(?ok, demo_hass_store), (?bad, demo_store)]
      demo_store no_files = (demo_hass_store, D2)"
    by (simp add: one two r r')
  have wf2: "disk_ok D2"
    using persist_run [OF demo_json_text_ok demo_store_facts(1) _ _ wf(1) _ two] wf(2)
    by (simp add: demo_store_facts temp path_parent_def)
  have "with_key_loading demo_json_text None ?p (ts_key demo_hass_store) (seen D2) = Inr demo_hass_store"
  proof (rule acknowledged_store_survives_power_cut [OF demo_json_text_ok temp _ no_files_facts(1,2) _ _ demo_store_facts(4) _ all
        power_cut_seen [OF wf2], where c = None])
    show "may_hold no_files ?p = {None}" by (simp add: may_hold_def no_files_facts)
    show "\<forall>fs. fs ?p = None \<longrightarrow> synced demo_json_text demo_store fs"
      using demo_store_facts(2,4) by (simp add: synced_def read_store_file_def)
  qed (simp_all add: path_parent_def demo_hass_facts demo_store_facts)
  with all show ?thesis by (simp add: demo_hass_facts)
qed

text \<open>
  C5: A profile file is written the same way but for the flush of its directory. Exactly what a power
  cut can find under its name: after a write that reported an error at any of its steps, what could be
  found before; after one that reported success, the whole new file, which the running process sees,
  or still anything that could be found before, so a profile that was saved with success can come back
  as it was. A part of the new file is never found under the name.
\<close>

theorem written_profile_is_old_or_new:
  assumes "disk_ok D" "apart D p" "profile_temp p \<noteq> p" "profile_on_disk F p contents D = (res, D')"
  shows "(\<forall>c. (\<exists>fs. power_cut D' fs \<and> fs p = c) \<longleftrightarrow>
       (\<exists>fs. power_cut D fs \<and> fs p = c) \<or> res = Inr () \<and> c = Some contents) \<and>
    seen D' p = (if res = Inr () then Some contents else seen D p)"
proof (intro conjI allI)
  note r = replace_run [OF assms(1,3,2) assms(4) [unfolded profile_on_disk_def]]
  have found: "(\<exists>fs. power_cut X fs \<and> fs p = c) \<longleftrightarrow> c \<in> may_hold X p" if "disk_ok X" for X c
  proof
    show "c \<in> may_hold X p" if "\<exists>fs. power_cut X fs \<and> fs p = c"
      using that by (auto simp: power_cut_def)
    show "\<exists>fs. power_cut X fs \<and> fs p = c" if "c \<in> may_hold X p"
      using power_cut_at [OF \<open>disk_ok X\<close> that] by (intro exI [of _ "(seen X)(p := c)"]) simp
  qed
  from r have ok: "disk_ok D'" by blast
  show "(\<exists>fs. power_cut D' fs \<and> fs p = c) \<longleftrightarrow>
      (\<exists>fs. power_cut D fs \<and> fs p = c) \<or> res = Inr () \<and> c = Some contents" for c
    unfolding found [OF ok] found [OF assms(1)] using r by (cases res) auto
  from r show "seen D' p = (if res = Inr () then Some contents else seen D p)"
    using assms(3) by (cases res) (auto dest: replace_via_kept replace_via_replaced)
qed

lemma written_profile_is_old_or_new_witness:
  "\<exists>D'. profile_on_disk no_rewrite_faults ''d/n.toml'' ''new'' (flushed_file ''d/n.toml'' ''old'') = (Inr (), D') \<and>
     (\<exists>fs. power_cut D' fs \<and> fs ''d/n.toml'' = Some ''old'')"
proof -
  obtain r D' where run: "profile_on_disk no_rewrite_faults ''d/n.toml'' ''new''
      (flushed_file ''d/n.toml'' ''old'') = (r, D')" by fastforce
  have temp: "profile_temp ''d/n.toml'' \<noteq> ''d/n.toml''"
    by (simp add: profile_temp_def with_extension_def file_name_def name_stem_def)
  from replace_run [OF flushed_file_facts(1) temp flushed_file_facts(2) run [unfolded profile_on_disk_def]]
  have "r = Inr ()" by (simp add: replace_via_clean)
  with written_profile_is_old_or_new [OF flushed_file_facts(1,2) temp run] run
    power_cut_seen [OF flushed_file_facts(1)]
  show ?thesis by (metis flushed_file_facts(5) fun_upd_same)
qed

end
