(* ===== verification/Machines.thy ===== *)
theory Machines
  imports Main
begin

text \<open>
  What the step relations of the development share: an invariant that every step keeps holds along
  every run, and a rank that every step lowers bounds the runs. Each relation interprets the locale
  that fits it, in the theory that declares it.
\<close>

locale machine =
  fixes step :: "'s \<Rightarrow> 's \<Rightarrow> bool"
    and inv :: "'s \<Rightarrow> bool"
  assumes keeps: "inv s \<Longrightarrow> step s t \<Longrightarrow> inv t"
begin

lemma run_keeps: "step\<^sup>*\<^sup>* s t \<Longrightarrow> inv s \<Longrightarrow> inv t"
  by (induction rule: rtranclp_induct) (auto intro: keeps)

lemma counted_run_keeps: "(step ^^ n) s t \<Longrightarrow> inv s \<Longrightarrow> inv t"
  by (rule run_keeps [OF relpowp_imp_rtranclp])

end

text \<open>A machine that works something off: it can go on until it is done, and not for ever.\<close>

locale finishing_machine = machine step inv
  for step :: "'s \<Rightarrow> 's \<Rightarrow> bool" and inv :: "'s \<Rightarrow> bool" +
  fixes rank :: "'s \<Rightarrow> nat"
    and finished :: "'s \<Rightarrow> bool"
  assumes descends: "inv s \<Longrightarrow> step s t \<Longrightarrow> rank t < rank s"
    and goes_on: "inv s \<Longrightarrow> \<not> finished s \<Longrightarrow> \<exists>t. step s t"
begin

lemma run_bounded: "(step ^^ n) s t \<Longrightarrow> inv s \<Longrightarrow> n + rank t \<le> rank s"
proof (induction n arbitrary: t)
  case 0
  then show ?case by simp
next
  case (Suc n)
  then obtain r where r: "(step ^^ n) s r" "step r t" by auto
  from descends [OF counted_run_keeps [OF r(1) Suc.prems(2)] r(2)] Suc.IH [OF r(1) Suc.prems(2)]
  show ?case by simp
qed

lemma finishes: "inv s \<Longrightarrow> \<exists>t. step\<^sup>*\<^sup>* s t \<and> finished t"
proof (induction "rank s" arbitrary: s rule: less_induct)
  case less
  show ?case
  proof (cases "finished s")
    case True
    then show ?thesis by blast
  next
    case False
    then obtain r where r: "step s r" using goes_on [OF less.prems] by blast
    from less.hyps [OF descends [OF less.prems r] keeps [OF less.prems r]] r show ?thesis
      by (meson converse_rtranclp_into_rtranclp)
  qed
qed

end

end
