(* ===== verification/Service_Machine.thy ===== *)
theory Service_Machine
  imports Status Startup Machines
begin

text \<open>
  The running service as a state machine: the routers of src/shell/ingest.rs, src/shell/admin.rs and
  src/shell/dashboard.rs, put together by src/shell/mod.rs, the hooks the kit calls, the worker's
  ticks and the filling of the calendar cache, in any order. Each runs as one step here; how two
  deliveries interleave inside their steps is the subject of Delivery_Race.
\<close>

section \<open>Routes\<close>

text \<open>A request is the route it matched with what the extractors took from it.\<close>

datatype ingest_call =
    PostIngest string caller "string option" json
  | PostIngestSync string caller "string option" json
  | DeleteEvent string string caller

datatype admin_call = GetDebugStatus caller | PostPing caller | PostDryRun string caller json

datatype page_call =
    GetCalendars
  | PostCalendars string
  | PostDeleteCalendar string
  | PostReload
  | PostDeleteProfile string
  | GetSources
  | GetDashboard
  | GetDashboardSources
  | GetDashboardCaptures
  | GetCaptures

fun ingest_routes ::
  "('w, 'k, 'dt, 'nd) app_env \<Rightarrow> ingest_call \<Rightarrow> 'w app \<Rightarrow> reply option \<times> 'w app" where
  "ingest_routes E (PostIngest src who header body) A = ingest E src who header body A"
| "ingest_routes E (PostIngestSync src who header body) A = ingest_sync E src who header body A"
| "ingest_routes E (DeleteEvent src ext who) A =
     (case delete_event E src ext who A of (r, A1) \<Rightarrow> (Some r, A1))"

fun admin_routes ::
  "('w, 'k, 'dt, 'nd) site \<Rightarrow> admin_call \<Rightarrow> 'w app \<Rightarrow> reply option \<times> 'w app" where
  "admin_routes S (GetDebugStatus who) A =
     (case debug_status S who A of (r, A1) \<Rightarrow> (Some r, A1))"
| "admin_routes S (PostPing who) A = (Some (ping who), A)"
| "admin_routes S (PostDryRun src who body) A =
     (dry_run (env_crates (site_env S)) src who body A, A)"

fun dashboard_routes ::
  "('w, 'k, 'dt, 'nd) site \<Rightarrow> page_call \<Rightarrow> 'w app \<Rightarrow> page_reply \<times> 'w app" where
  "dashboard_routes S GetCalendars A = render_calendars S None A"
| "dashboard_routes S (PostCalendars name) A = page_create_calendar S name A"
| "dashboard_routes S (PostDeleteCalendar cal) A = page_delete_calendar S cal A"
| "dashboard_routes S PostReload A = page_reload_profiles S A"
| "dashboard_routes S (PostDeleteProfile n) A = page_delete_unusable S n A"
| "dashboard_routes S GetSources A = (Redirect ''/calendars'', A)"
| "dashboard_routes S GetDashboard A = (Redirect ''/'', A)"
| "dashboard_routes S GetDashboardSources A = (Redirect ''/calendars'', A)"
| "dashboard_routes S GetDashboardCaptures A = (Redirect ''/clients'', A)"
| "dashboard_routes S GetCaptures A = (Redirect ''/clients'', A)"

text \<open>The two routers: the API, and the pages behind the kit's login.\<close>

datatype api_call = IngestCall ingest_call | AdminCall admin_call

fun build_router ::
  "('w, 'k, 'dt, 'nd) site \<Rightarrow> api_call \<Rightarrow> 'w app \<Rightarrow> reply option \<times> 'w app" where
  "build_router S (IngestCall call) A = ingest_routes (site_env S) call A"
| "build_router S (AdminCall call) A = admin_routes S call A"

fun pages :: "('w, 'k, 'dt, 'nd) site \<Rightarrow> page_call \<Rightarrow> 'w app \<Rightarrow> page_reply \<times> 'w app" where
  "pages S page A = dashboard_routes S page A"

section \<open>What hangs on the kit\<close>

text \<open>
  The kit calls back when a client is issued or deleted on its Sources page; the form's field is a
  choice among the calendars known. The rest of \<open>mount\<close> is these two routers, the sections and the
  column of Status, and three fixed texts.
\<close>

datatype hook_call = ClientIssued string "string \<rightharpoonup> string" | ClientDeleted string

fun mount ::
  "('w, 'k, 'dt, 'nd) site \<Rightarrow> hook_call \<Rightarrow> 'w app \<Rightarrow> (kit_error + unit) \<times> 'w app" where
  "mount S (ClientIssued name form) A =
     create_source S name (case form ''calendar'' of Some c \<Rightarrow> c | None \<Rightarrow> []) A"
| "mount S (ClientDeleted name) A = remove_source S name A"

definition issue_form_options :: "'w app \<Rightarrow> (string \<times> string) list" where
  "issue_form_options A = calendar_options A"

definition clients_label :: string where "clients_label = ''Sources''"

definition nav_entry :: "string \<times> string" where "nav_entry = (''Calendars'', ''/calendars'')"

definition test_route :: "string \<times> string \<times> string \<times> string" where
  "test_route =
     (''POST'', ''/v1/ping'', ''application/json'', ''{\"hello\":\"from the dashboard\"}'')"

section \<open>Steps\<close>

text \<open>A delivery that was attempted: the entry, the profile, and the state it was attempted in.\<close>

type_synonym 'w attempt = "entry \<times> profile \<times> 'w app"

definition succeeded :: "('w, 'k, 'dt, 'nd) app_env \<Rightarrow> string \<Rightarrow> 'w attempt list \<Rightarrow> bool" where
  "succeeded E i tr \<longleftrightarrow>
     (\<exists>(e, p, B) \<in> set tr. entry_id e = i \<and> (\<exists>d. fst (app_deliver E e p B) = Ok d))"

definition sync_attempts ::
  "('w, 'k, 'dt, 'nd) app_env \<Rightarrow> string \<Rightarrow> caller \<Rightarrow> string option \<Rightarrow> json \<Rightarrow> 'w app \<Rightarrow> 'w attempt list"
  where
  "sync_attempts E src who header body A =
     (case admit E A src who header body of
        Inl v \<Rightarrow> []
      | Inr p \<Rightarrow>
          (case build_entry E (source_id p) header body A of (e, A1) \<Rightarrow>
             (case app_accept E e A1 of
                (Inl err, A2) \<Rightarrow> []
              | (Inr _, A2) \<Rightarrow> [(e, p, on_metrics count_accepted A2)])))"

definition drain_attempts ::
  "('w, 'k, 'dt, 'nd) app_env \<Rightarrow> string option \<Rightarrow> 'w app \<Rightarrow> permanent_failures \<Rightarrow> 'w attempt list" where
  "drain_attempts E webhook A perm =
     (case app_pending E A of
        (Inl err, A1) \<Rightarrow> []
      | (Inr es, A1) \<Rightarrow>
          List.map_filter
            (\<lambda>(e, B). map_option (\<lambda>p. (e, p, B)) (app_profiles A (entry_source e)))
            (drain_visits E webhook (app_profiles A) es A1 perm))"

fun ingest_attempts ::
  "('w, 'k, 'dt, 'nd) app_env \<Rightarrow> ingest_call \<Rightarrow> 'w app \<Rightarrow> 'w attempt list" where
  "ingest_attempts E (PostIngestSync src who header body) A = sync_attempts E src who header body A"
| "ingest_attempts E _ A = []"

text \<open>
  One rule for each of these, and one for what is not the program's doing: somebody edits, adds or
  removes files, profiles included, but for the journal.
\<close>

inductive service_step ::
  "('w, 'k, 'dt, 'nd) site \<Rightarrow> string option \<Rightarrow> 'w app \<times> worker \<Rightarrow> 'w attempt list \<Rightarrow>
     'w app \<times> worker \<Rightarrow> bool"
  for S webhook where
  posted:
    "build_router S (IngestCall call) A = (r, A') \<Longrightarrow>
     service_step S webhook (A, W) (ingest_attempts (site_env S) call A) (A', W)"
| asked:
    "build_router S (AdminCall call) A = (r, A') \<Longrightarrow> service_step S webhook (A, W) [] (A', W)"
| paged: "pages S page A = (r, A') \<Longrightarrow> service_step S webhook (A, W) [] (A', W)"
| source_added:
    "mount S (ClientIssued src form) A = (r, A') \<Longrightarrow> service_step S webhook (A, W) [] (A', W)"
| source_removed:
    "mount S (ClientDeleted src) A = (r, A') \<Longrightarrow> service_step S webhook (A, W) [] (A', W)"
| checked: "journal_check (site_env S) A = (r, A') \<Longrightarrow> service_step S webhook (A, W) [] (A', W)"
| scraped: "scrape (site_env S) A = (r, A') \<Longrightarrow> service_step S webhook (A, W) [] (A', W)"
| shown:
    "journal_section (site_env S) busy A = (r, A') \<Longrightarrow> service_step S webhook (A, W) [] (A', W)"
| cache_filled: "service_step S webhook (A, W) [] (fill_calendar_cache (site_env S) A, W)"
| ticked:
    "worker_tick (site_env S) webhook A W = Some (A', W') \<Longrightarrow>
     service_step S webhook (A, W) (drain_attempts (site_env S) webhook A (permanent_map W)) (A', W')"
| edited:
    "fs (journal_path (env_journal (site_env S))) = app_files A (journal_path (env_journal (site_env S))) \<Longrightarrow>
     service_step S webhook (A, W) [] (A\<lparr>app_files := fs\<rparr>, W)"

inductive service_reaches ::
  "('w, 'k, 'dt, 'nd) site \<Rightarrow> string option \<Rightarrow> 'w app \<times> worker \<Rightarrow> 'w attempt list \<Rightarrow>
     'w app \<times> worker \<Rightarrow> bool"
  for S webhook where
  idle: "service_reaches S webhook X [] X"
| move:
    "service_reaches S webhook X tr Y \<Longrightarrow> service_step S webhook Y tr' Z \<Longrightarrow>
     service_reaches S webhook X (tr @ tr') Z"

section \<open>What every step keeps\<close>

definition served_well :: "('w, 'k, 'dt, 'nd) site \<Rightarrow> 'w app \<Rightarrow> bool" where
  "served_well S A \<longleftrightarrow>
     (\<forall>sid p. app_profiles A sid = Some p \<longrightarrow>
        source_id p = sid \<and> profile_wf (tz_known (env_crates (site_env S))) p)"

definition locks_grow :: "key_locks \<Rightarrow> key_locks \<Rightarrow> bool" where
  "locks_grow L L' \<longleftrightarrow>
     key_locks_wf L' \<and> (\<forall>k l. lock_table L k = Some l \<longrightarrow> lock_table L' k = Some l)"

text \<open>The state \<open>A\<close> is in order, and keeps what the state \<open>A0\<close> the run began in has fixed.\<close>

definition tidy :: "('w, 'k, 'dt, 'nd) site \<Rightarrow> 'w app \<Rightarrow> 'w app \<Rightarrow> bool" where
  "tidy S A0 A \<longleftrightarrow>
     served_well S A \<and> app_profiles_dir A = app_profiles_dir A0 \<and>
     ring_capacity (app_routes A) = HISTORY_CAPACITY \<and>
     length (ring_items (app_routes A)) \<le> HISTORY_CAPACITY \<and>
     locks_grow (app_locks A0) (app_locks A) \<and> distinct (map fst (created_calendars A))"

lemma tidy_updates [simp]:
  "tidy S A0 (A\<lparr>app_hub := h\<rparr>) = tidy S A0 A"
  "tidy S A0 (A\<lparr>app_files := fs\<rparr>) = tidy S A0 A"
  "tidy S A0 (A\<lparr>deleted_calendars := D\<rparr>) = tidy S A0 A"
  "tidy S A0 (on_metrics f A) = tidy S A0 A"
  "tidy S A0 (remember_calendars cs A) = tidy S A0 A"
  "tidy S A0 (remember_deleted_calendar cal A) = tidy S A0 A"
  "tidy S A0 (send_notice E wh opname err A) = tidy S A0 A"
  by (simp_all add: tidy_def served_well_def on_metrics_def remember_calendars_def
      remember_deleted_calendar_def send_notice_def)

named_theorems keeps_tidy

lemma tidy_ask [keeps_tidy]: "ask f A = (x, A') \<Longrightarrow> tidy S A0 A \<Longrightarrow> tidy S A0 A'"
  by (auto simp: ask_def split: prod.splits)

lemma locks_grow_trans: "locks_grow L1 L2 \<Longrightarrow> locks_grow L2 L3 \<Longrightarrow> locks_grow L1 L3"
  by (simp add: locks_grow_def)

lemma for_key_grows: "key_locks_wf L \<Longrightarrow> locks_grow L (snd (for_key k L))"
  using locks.get_wf [of L k] locks.get_keeps [of L k]
  by (cases "for_key k L") (auto simp: locks_grow_def)

lemma tidy_set_locks:
  "tidy S A0 A \<Longrightarrow> locks_grow (app_locks A) L \<Longrightarrow> tidy S A0 (A\<lparr>app_locks := L\<rparr>)"
  by (auto simp: tidy_def served_well_def intro: locks_grow_trans)

lemma tidy_locks_wf: "tidy S A0 A \<Longrightarrow> key_locks_wf (app_locks A)"
  by (simp add: tidy_def locks_grow_def)

lemma tidy_for_key [keeps_tidy]:
  "tidy S A0 A \<Longrightarrow> tidy S A0 (A\<lparr>app_locks := snd (for_key k (app_locks A))\<rparr>)"
  by (simp add: tidy_set_locks for_key_grows tidy_locks_wf)

lemma locks_after_grows: "key_locks_wf L \<Longrightarrow> locks_grow L (locks_after K e p L)"
  using for_key_grows [of L]
  by (auto simp: locks_after_def locks_grow_def [of L L] split: outcome.split option.split)

lemma tidy_deliver [keeps_tidy]:
  assumes "app_deliver E e p A = (r, A')" "tidy S A0 A"
  shows "tidy S A0 A'"
proof -
  obtain h where "A' = (A\<lparr>app_hub := h\<rparr>)\<lparr>app_locks := locks_after (env_crates E) e p (app_locks A)\<rparr>"
    using assms(1) by (auto simp: app_deliver_def split: prod.splits)
  with tidy_set_locks [of S A0 "A\<lparr>app_hub := h\<rparr>"] locks_after_grows [OF tidy_locks_wf [OF assms(2)], of "env_crates E" e p]
    assms(2)
  show ?thesis by simp
qed

lemma tidy_append [keeps_tidy]: "app_append E r A = (res, A') \<Longrightarrow> tidy S A0 A \<Longrightarrow> tidy S A0 A'"
  by (auto simp: app_append_def intro: tidy_ask split: prod.splits)

lemma tidy_marks [keeps_tidy]:
  "app_accept E e A = (res, A') \<Longrightarrow> tidy S A0 A \<Longrightarrow> tidy S A0 A'"
  "app_mark_done E i A = (res, A') \<Longrightarrow> tidy S A0 A \<Longrightarrow> tidy S A0 A'"
  "app_mark_dead E i why stamp A = (res, A') \<Longrightarrow> tidy S A0 A \<Longrightarrow> tidy S A0 A'"
  unfolding app_append_eqs by (erule (1) tidy_append)+

lemma tidy_pending [keeps_tidy]: "app_pending E A = (r, A') \<Longrightarrow> tidy S A0 A \<Longrightarrow> tidy S A0 A'"
  by (auto simp: app_pending_def intro: tidy_ask split: prod.splits)

lemma tidy_compact [keeps_tidy]: "app_compact E A = (r, A') \<Longrightarrow> tidy S A0 A \<Longrightarrow> tidy S A0 A'"
  by (auto simp: app_compact_def split: prod.splits) (blast intro: tidy_ask)

lemma tidy_push: "tidy S A0 A \<Longrightarrow> tidy S A0 (A\<lparr>app_routes := ring_push x (app_routes A)\<rparr>)"
  by (simp add: tidy_def served_well_def ring.items_push ring.capacity_push)

lemma tidy_route [keeps_tidy]: "tidy S A0 A \<Longrightarrow> tidy S A0 (record_route E e res A)"
  by (auto simp: record_route_def intro: tidy_ask tidy_push split: prod.split)

subsection \<open>The profiles\<close>

lemma serves_usable: "serves N fs ps prof \<Longrightarrow> \<exists>p. usable N fs p = Some prof"
  by (induction ps) auto

lemma loaded_well:
  assumes "load_map N dir fs sid = Some prof"
  shows "source_id prof = sid \<and> profile_wf (ps_tz N) prof"
proof -
  have "prof \<in> set (ld_profiles (load_all N dir fs))" "source_id prof = sid"
    using assms by (simp_all add: load_map_iff)
  moreover from this have "\<exists>ps. serves N fs ps prof"
    by (auto simp: load_all_def load_paths_served split: sum.splits)
  ultimately show ?thesis using serves_usable usable_wf by blast
qed

lemma tidy_set_profiles:
  "tidy S A0 A \<Longrightarrow> served_well S (A\<lparr>app_profiles := ps\<rparr>) \<Longrightarrow> tidy S A0 (A\<lparr>app_profiles := ps\<rparr>)"
  by (simp add: tidy_def)

lemma tidy_reload [keeps_tidy]:
  assumes "tidy S A0 A"
  shows "tidy S A0 (app_reload S A)"
proof -
  obtain faults A1 where a: "ask (site_read_faults S) A = (faults, A1)" by fastforce
  show ?thesis
    unfolding app_reload_def a set_profiles_def prod.case
    by (rule tidy_set_profiles)
      (use tidy_ask [OF a assms] in \<open>auto simp: served_well_def profiles_at_def dest!: loaded_well\<close>)
qed

lemma tidy_load_all [keeps_tidy]: "app_load_all S' A = (l, A') \<Longrightarrow> tidy S A0 A \<Longrightarrow> tidy S A0 A'"
  by (auto simp: app_load_all_def intro: tidy_ask split: prod.splits)

lemma tidy_save_new [keeps_tidy]:
  "app_save_new S' contents A = (r, A') \<Longrightarrow> tidy S A0 A \<Longrightarrow> tidy S A0 A'"
  by (auto simp: app_save_new_def split: prod.splits) (blast intro: tidy_ask)

lemma tidy_delete_file [keeps_tidy]:
  "app_delete_profile S' sid A = (r, A') \<Longrightarrow> tidy S A0 A \<Longrightarrow> tidy S A0 A'"
  "app_delete_file S' n A = (r, A') \<Longrightarrow> tidy S A0 A \<Longrightarrow> tidy S A0 A'"
  by (auto simp: app_delete_profile_def app_delete_file_def intro: tidy_ask split: prod.splits)

lemma tidy_create_source [keeps_tidy]:
  "create_source S src cal A = (r, A') \<Longrightarrow> tidy S A0 A \<Longrightarrow> tidy S A0 A'"
  by (auto simp: create_source_def Let_def intro: keeps_tidy split: if_splits prod.splits sum.splits)

lemma tidy_remove_source [keeps_tidy]:
  "remove_source S sid A = (r, A') \<Longrightarrow> tidy S A0 A \<Longrightarrow> tidy S A0 A'"
  by (auto simp: remove_source_def Let_def intro: keeps_tidy split: if_splits prod.splits sum.splits)

subsection \<open>The calendars\<close>

lemma tidy_set_created:
  "tidy S A0 A \<Longrightarrow> distinct (map fst cs) \<Longrightarrow> tidy S A0 (A\<lparr>created_calendars := cs\<rparr>)"
  by (simp add: tidy_def served_well_def)

lemma tidy_created: "tidy S A0 A \<Longrightarrow> distinct (map fst (filter P (created_calendars A)))"
  by (simp add: tidy_def distinct_map_filter)

lemma tidy_overlays [keeps_tidy]:
  "with_created_calendars cals A = (c, A') \<Longrightarrow> tidy S A0 A \<Longrightarrow> tidy S A0 A'"
  "without_deleted_calendars cals A = (c, A') \<Longrightarrow> tidy S A0 A \<Longrightarrow> tidy S A0 A'"
  "tidy S A0 A \<Longrightarrow> tidy S A0 (forget_created_calendar cal A)"
  "tidy S A0 A \<Longrightarrow> tidy S A0 (remember_created_calendar name cal A)"
proof -
  show "with_created_calendars cals A = (c, A') \<Longrightarrow> tidy S A0 A \<Longrightarrow> tidy S A0 A'"
    by (auto simp: with_created_calendars_def Let_def intro: tidy_set_created tidy_created
        split: if_splits)
  show "without_deleted_calendars cals A = (c, A') \<Longrightarrow> tidy S A0 A \<Longrightarrow> tidy S A0 A'"
    by (auto simp: without_deleted_calendars_def Let_def split: if_splits)
  show "tidy S A0 A \<Longrightarrow> tidy S A0 (forget_created_calendar cal A)"
    unfolding forget_created_calendar_def by (rule tidy_set_created [OF _ tidy_created])
  show "tidy S A0 A \<Longrightarrow> tidy S A0 (remember_created_calendar name cal A)"
    unfolding remember_created_calendar_def
    by (rule tidy_set_created) (auto dest: tidy_created)
qed

lemma tidy_corrected:
  assumes "with_created_calendars cals (A\<lparr>app_hub := h\<rparr>) = (c1, B1)"
    "without_deleted_calendars c1 B1 = (c2, B2)" "tidy S A0 A"
  shows "tidy S A0 B2"
  using tidy_overlays(2) [OF assms(2) tidy_overlays(1) [OF assms(1)]] assms(3) by simp

lemma tidy_fill [keeps_tidy]: "tidy S A0 A \<Longrightarrow> tidy S A0 (fill_calendar_cache E A)"
  by (auto simp: fill_calendar_cache_def intro: tidy_corrected split: prod.split sum.split)

lemma tidy_render [keeps_tidy]:
  assumes "render_calendars S' err A = (r, A')" "tidy S A0 A"
  shows "tidy S A0 A'"
proof -
  obtain l A1 where l: "app_load_all S' A = (l, A1)" by fastforce
  from tidy_load_all [OF l assms(2)] assms(1) show ?thesis
    by (auto simp: render_calendars_def l Let_def intro: tidy_corrected split: prod.splits sum.splits)
qed

lemma tidy_create_calendar [keeps_tidy]:
  assumes "page_create_calendar S' name A = (r, A')" "tidy S A0 A"
  shows "tidy S A0 A'"
proof -
  have "tidy S A0 (A\<lparr>app_locks := snd (for_key k (app_locks A))\<rparr>)" for k
    by (rule tidy_for_key [OF assms(2)])
  with assms show ?thesis
    by (auto simp: page_create_calendar_def Let_def intro: tidy_overlays
        elim!: tidy_render split: if_splits prod.splits sum.splits option.splits)
qed

lemma tidy_delete_calendar [keeps_tidy]:
  "page_delete_calendar S' cal A = (r, A') \<Longrightarrow> tidy S A0 A \<Longrightarrow> tidy S A0 A'"
  by (auto simp: page_delete_calendar_def Let_def intro: tidy_overlays
      elim!: tidy_render split: if_splits prod.splits sum.splits)

lemma tidy_delete_unusable [keeps_tidy]:
  assumes "page_delete_unusable S n A = (r, A')" "tidy S A0 A"
  shows "tidy S A0 A'"
proof -
  obtain l A1 where l: "app_load_all S A = (l, A1)" by fastforce
  obtain d A2 where d: "app_delete_file S n A1 = (d, A2)" by fastforce
  have "tidy S A0 A1" "tidy S A0 A2"
    using tidy_load_all [OF l assms(2)] tidy_delete_file(2) [OF d] by simp_all
  with assms(1) show ?thesis
    by (auto simp: page_delete_unusable_def l d intro: tidy_reload
        elim!: tidy_render split: if_splits sum.splits)
qed

lemma tidy_dashboard: "dashboard_routes S page A = (r, A') \<Longrightarrow> tidy S A0 A \<Longrightarrow> tidy S A0 A'"
  by (cases page) (auto simp: page_reload_profiles_def intro: keeps_tidy)

subsection \<open>The API\<close>

lemma tidy_build [keeps_tidy]:
  assumes "build_entry E src header body A = (e, A')" "tidy S A0 A"
  shows "tidy S A0 A'"
proof -
  obtain i A1 where 1: "ask (env_uuid E) A = (i, A1)" by fastforce
  obtain now A2 where 2: "ask (env_now E) A1 = (now, A2)" by fastforce
  from tidy_ask [OF 2 tidy_ask [OF 1 assms(2)]] assms(1) show ?thesis
    by (simp add: build_entry_def Let_def 1 2)
qed

text \<open>What both handlers do once a request is admitted.\<close>

lemma tidy_accepted:
  assumes "build_entry E src header body A = (e, A1)" "app_accept E e A1 = (r, A2)" "tidy S A0 A"
  shows "tidy S A0 A2"
  by (rule tidy_marks(1) [OF assms(2) tidy_build [OF assms(1,3)]])

lemma tidy_ingest [keeps_tidy]:
  "ingest E src who header body A = (r, A') \<Longrightarrow> tidy S A0 A \<Longrightarrow> tidy S A0 A'"
  by (auto simp: ingest_def dest: tidy_accepted split: sum.splits prod.splits)

lemma tidy_sync [keeps_tidy]:
  assumes "ingest_sync E src who header body A = (r, A')" "tidy S A0 A"
  shows "tidy S A0 A'"
proof (cases "admit E A src who header body")
  case (Inl v)
  with assms show ?thesis by (simp add: ingest_sync_def)
next
  case (Inr p)
  obtain e A1 where b: "build_entry E (source_id p) header body A = (e, A1)" by fastforce
  obtain res A2 where acc: "app_accept E e A1 = (res, A2)" by fastforce
  obtain d A3 where d: "app_deliver E e p (on_metrics count_accepted A2) = (d, A3)" by fastforce
  obtain m A4 where m: "app_mark_done E (entry_id e) A3 = (m, A4)" by fastforce
  have "tidy S A0 A2" by (rule tidy_accepted [OF b acc assms(2)])
  moreover from this have "tidy S A0 A3" by (intro tidy_deliver [OF d]) simp
  moreover from this have "tidy S A0 A4" by (rule tidy_marks(2) [OF m])
  ultimately show ?thesis
    using assms(1) by (auto simp: ingest_sync_def Inr b acc d m split: sum.splits outcome.splits)
qed

lemma tidy_deleted_event:
  assumes "delete_event E src ext who A = (r, A')" "tidy S A0 A"
  shows "tidy S A0 A'"
proof -
  have "tidy S A0 (A\<lparr>app_locks := snd (for_key k (app_locks A))\<rparr>)" for k
    by (rule tidy_for_key [OF assms(2)])
  with assms show ?thesis
    by (auto simp: delete_event_def Let_def split: sum.splits prod.splits option.splits)
qed

subsection \<open>The worker\<close>

lemma tidy_permanent:
  assumes "permanent_failure E wh e err A perm = (A', perm')" "tidy S A0 A"
  shows "tidy S A0 A'"
proof -
  obtain now A1 where 1: "ask (env_now E) A = (now, A1)" by fastforce
  obtain m A2 where 2: "app_mark_dead E (entry_id e) (set_aside_reason err) now A1 = (m, A2)"
    by fastforce
  have "tidy S A0 A2" by (rule tidy_marks(3) [OF 2 tidy_ask [OF 1 assms(2)]])
  with assms show ?thesis
    by (auto simp: permanent_failure_def Let_def 1 2 split: if_splits sum.splits)
qed

lemma tidy_drain_one:
  assumes "drain_one E wh ps e A perm = (r, A', perm')" "tidy S A0 A"
  shows "tidy S A0 A'"
proof (cases "ps (entry_source e)")
  case None
  with assms show ?thesis by (simp add: drain_one_def)
next
  case (Some p)
  obtain d A1 where d: "app_deliver E e p A = (d, A1)" by fastforce
  have A1: "tidy S A0 A1" by (rule tidy_deliver [OF d assms(2)])
  note route = tidy_route [OF A1]
  show ?thesis
  proof (cases d)
    case (Ok x)
    obtain m A2 where m: "app_mark_done E (entry_id e) (record_route E e (Inr x) A1) = (m, A2)"
      by fastforce
    from tidy_marks(2) [OF m route] assms(1) show ?thesis by (simp add: drain_one_def Some d Ok m)
  next
    case (Err err)
    with assms(1) route show ?thesis
      by (auto simp: drain_one_def Some d Let_def intro: tidy_permanent split: if_splits)
  next
    case Panic
    with assms(1) A1 show ?thesis by (simp add: drain_one_def Some d)
  qed
qed

lemma tidy_drain_all:
  "drain_all E wh ps es d f A perm = (r, A', perm') \<Longrightarrow> tidy S A0 A \<Longrightarrow> tidy S A0 A'"
proof (induction es arbitrary: d f A perm)
  case Nil
  then show ?case by simp
next
  case (Cons e es)
  obtain r1 A1 perm1 where one: "drain_one E wh ps e A perm = (r1, A1, perm1)"
    by (cases "drain_one E wh ps e A perm") auto
  have "tidy S A0 A1" by (rule tidy_drain_one [OF one Cons.prems(2)])
  with Cons.prems(1) Cons.IH show ?case
    by (auto simp: one split: option.splits bool.splits)
qed

lemma tidy_drain:
  assumes "drain_once_tracking E wh A perm = (r, A', perm')" "tidy S A0 A"
  shows "tidy S A0 A'"
proof -
  obtain p A1 where p: "app_pending E A = (p, A1)" by fastforce
  have "tidy S A0 A1" by (rule tidy_pending [OF p assms(2)])
  with assms(1) show ?thesis
    by (auto simp: drain_once_tracking_def p dest: tidy_drain_all simp del: drain_all.simps
        split: sum.splits list.splits option.splits prod.splits)
qed

text \<open>A tick ends in a state the pass, a fault, a notice and a compaction lead to.\<close>

lemma tick_parts:
  assumes "worker_tick E wh A W = Some (A', W')"
  obtains s A1 perm A2 A3 since where
    "drain_once_tracking E wh A (permanent_map W) = (Some s, A1, perm)"
    "A2 = A1 \<or> (\<exists>F. ask (env_append_faults E) A1 = (F, A2))"
    "A3 = A2 \<or> A3 = send_notice E wh JOURNAL_BACKLOG backlog_notice A2"
    "maybe_compact E since A3 = (since_compaction W', A')"
    "\<exists>f. period W' = wait_secs (fst (pace_after s f (pace W)))"
proof -
  obtain r A1 perm where d: "drain_once_tracking E wh A (permanent_map W) = (r, A1, perm)"
    by (cases "drain_once_tracking E wh A (permanent_map W)") auto
  with assms obtain s where s: "r = Some s" by (cases r) (simp_all add: worker_tick_def)
  obtain f A2 where f: "(if stalled s then worker_journal_is_filling E A1 else (False, A1)) = (f, A2)"
    by fastforce
  obtain nxt pc where n: "pace_after s (stalled s \<and> f) (pace W) = (nxt, pc)" by fastforce
  let ?A3 = "if report_backlog nxt then send_notice E wh JOURNAL_BACKLOG backlog_notice A2 else A2"
  obtain since A4 where c: "maybe_compact E (since_compaction W + sum_delivered s) ?A3 = (since, A4)"
    by fastforce
  have eqs: "A' = A4" "since_compaction W' = since" "period W' = wait_secs nxt"
    using assms by (auto simp: worker_tick_def d s f n c Let_def)
  have A2: "A2 = A1 \<or> (\<exists>F. ask (env_append_faults E) A1 = (F, A2))"
    using f by (auto simp: worker_journal_is_filling_def split: if_splits prod.splits option.splits)
  show thesis
  proof (rule that)
    show "drain_once_tracking E wh A (permanent_map W) = (Some s, A1, perm)" using d s by simp
    show "A2 = A1 \<or> (\<exists>F. ask (env_append_faults E) A1 = (F, A2))" by (rule A2)
    show "?A3 = A2 \<or> ?A3 = send_notice E wh JOURNAL_BACKLOG backlog_notice A2" by simp
    show "maybe_compact E (since_compaction W + sum_delivered s) ?A3 = (since_compaction W', A')"
      using c eqs by simp
    show "\<exists>f. period W' = wait_secs (fst (pace_after s f (pace W)))"
      using n eqs by (metis fst_conv)
  qed
qed

lemma tidy_tick:
  assumes "worker_tick E wh A W = Some (A', W')" "tidy S A0 A"
  shows "tidy S A0 A'"
  using assms(1)
proof (rule tick_parts)
  fix s A1 perm A2 A3 since
  assume d: "drain_once_tracking E wh A (permanent_map W) = (Some s, A1, perm)"
    and A2: "A2 = A1 \<or> (\<exists>F. ask (env_append_faults E) A1 = (F, A2))"
    and A3: "A3 = A2 \<or> A3 = send_notice E wh JOURNAL_BACKLOG backlog_notice A2"
    and c: "maybe_compact E since A3 = (since_compaction W', A')"
  have "tidy S A0 A1" by (rule tidy_drain [OF d assms(2)])
  with A2 A3 have "tidy S A0 A3" by (auto intro: tidy_ask)
  with c show ?thesis
    by (auto simp: maybe_compact_def intro: tidy_compact split: if_splits prod.splits sum.splits)
qed

lemma tidy_step: "service_step S wh (A, W) tr (A', W') \<Longrightarrow> tidy S A0 A \<Longrightarrow> tidy S A0 A'"
proof (erule service_step.cases, goal_cases)
  case (1 call B r B' V)
  then show ?case by (cases call) (auto intro: tidy_ingest tidy_sync tidy_deleted_event split: prod.splits)
next
  case (2 call B r B' V)
  then show ?case
    by (cases call) (auto simp: debug_status_def Let_def intro: tidy_pending
        split: prod.splits option.splits)
next
  case 3
  then show ?case by (auto intro: tidy_dashboard)
qed (auto simp: journal_check_def scrape_def journal_section_def Let_def
    intro: tidy_create_source tidy_remove_source tidy_pending tidy_fill tidy_tick
    split: prod.splits sum.splits)

text \<open>The service with its trace left out, as a machine.\<close>

abbreviation moves :: "('w, 'k, 'dt, 'nd) site \<Rightarrow> string option \<Rightarrow> 'w app \<times> worker \<Rightarrow> 'w app \<times> worker \<Rightarrow> bool"
  where "moves S wh X Z \<equiv> \<exists>tr. service_step S wh X tr Z"

lemma reaches_moves: "service_reaches S wh X tr Y \<Longrightarrow> (moves S wh)\<^sup>*\<^sup>* X Y"
  by (induction rule: service_reaches.induct) (auto intro: rtranclp.rtrancl_into_rtrancl)

interpretation tidy_runs: machine "moves S wh" "\<lambda>X. tidy S A0 (fst X)" for S wh A0
proof
  show "tidy S A0 (fst Z)" if "tidy S A0 (fst X)" "moves S wh X Z" for X Z
    using that tidy_step [of S wh "fst X" "snd X" _ "fst Z" "snd Z" A0] by auto
qed

lemma tidy_run: "service_reaches S wh X tr Y \<Longrightarrow> tidy S A0 (fst X) \<Longrightarrow> tidy S A0 (fst Y)"
  by (rule tidy_runs.run_keeps [OF reaches_moves])

section \<open>What becomes of the files\<close>

lemma overlay_files:
  "with_created_calendars cals A = (c, A') \<Longrightarrow> app_files A' = app_files A"
  "without_deleted_calendars cals A = (c, A') \<Longrightarrow> app_files A' = app_files A"
  by (auto simp: with_created_calendars_def without_deleted_calendars_def Let_def split: if_splits)

lemma fill_files [simp]: "app_files (fill_calendar_cache E A) = app_files A"
  by (auto simp: fill_calendar_cache_def remember_calendars_def dest!: overlay_files
      split: prod.split sum.split)

lemma render_files:
  assumes "render_calendars S err A = (r, A')"
  shows "app_files A' = app_files A"
proof -
  obtain l A1 where l: "app_load_all S A = (l, A1)" by fastforce
  then have "app_files A1 = app_files A" by (auto dest: app_load_all_fields)
  with assms show ?thesis
    by (auto simp: render_calendars_def l Let_def remember_calendars_def dest!: overlay_files
        split: prod.splits sum.splits)
qed

lemma pending_files: "app_pending E A = (r, A') \<Longrightarrow> app_files A' = app_files A"
  by (auto simp: app_pending_def dest: ask_frame split: prod.splits)

lemma remove_file_frame:
  "remove_file fault dir p gone fs = (r, fs') \<Longrightarrow> q \<noteq> p \<Longrightarrow> fs' q = fs q"
  by (auto simp: remove_file_def split: if_splits option.splits)

lemma in_dir_join: "looks_safe n \<Longrightarrow> in_dir dir (path_join dir n)"
  unfolding in_dir_def
  by (rule exI [of _ n]) (auto simp: looks_safe_def list_all_iff is_ascii_alphanumeric_def byte_def)

lemma delete_frame:
  "delete_profile fault dir sid fs = (r, fs') \<Longrightarrow> \<not> in_dir dir q \<Longrightarrow> fs' q = fs q"
  "delete_file fault dir n fs = (r, fs') \<Longrightarrow> \<not> in_dir dir q \<Longrightarrow> fs' q = fs q"
  using profile_path_facts(2) [of sid dir] in_dir_join [of n dir]
  by (auto simp: delete_profile_def delete_file_def dest: remove_file_frame [where q = q]
      split: if_splits)

lemma save_frame:
  assumes "save_new N mkdir F dir contents fs = (r, fs')" "\<not> in_dir dir q"
  shows "fs' q = fs q"
proof (cases "fs' = fs")
  case False
  with assms(1) obtain prof res where p:
    "profile_parse (ps_toml N) (ps_tz N) contents ''the submitted profile'' = Inr prof"
    "write_atomically F (profile_path dir (source_id prof)) contents fs = (res, fs')"
    by (auto simp: save_new_def split: sum.splits option.splits if_splits prod.splits)
  note safe = parsed_is_safe [OF p(1)]
  show ?thesis
    by (rule profile_files.frame [OF p(2)])
      (use assms(2) profile_path_facts(2,5) [OF safe] in auto)
qed simp

lemma app_profile_files:
  assumes "\<not> in_dir (app_profiles_dir A) q"
  shows "app_delete_profile S sid A = (r, A') \<Longrightarrow> app_files A' q = app_files A q"
    "app_delete_file S n A = (r', A') \<Longrightarrow> app_files A' q = app_files A q"
    "app_save_new S contents A = (r'', A') \<Longrightarrow> app_files A' q = app_files A q"
proof -
  show "app_delete_profile S sid A = (r, A') \<Longrightarrow> app_files A' q = app_files A q"
    using assms by (auto simp: app_delete_profile_def dest!: ask_fields delete_frame(1) [where q = q]
        split: prod.splits)
  show "app_delete_file S n A = (r', A') \<Longrightarrow> app_files A' q = app_files A q"
    using assms by (auto simp: app_delete_file_def dest!: ask_fields delete_frame(2) [where q = q]
        split: prod.splits)
  show "app_save_new S contents A = (r'', A') \<Longrightarrow> app_files A' q = app_files A q"
    using assms by (auto simp: app_save_new_def dest!: ask_fields save_frame [where q = q]
        split: prod.splits)
qed

lemma source_files:
  assumes "\<not> in_dir (app_profiles_dir A) q"
  shows "create_source S src cal A = (r, A') \<Longrightarrow> app_files A' q = app_files A q"
    "remove_source S sid A = (r', A') \<Longrightarrow> app_files A' q = app_files A q"
proof -
  show "create_source S src cal A = (r, A') \<Longrightarrow> app_files A' q = app_files A q"
    using assms by (auto simp: create_source_def Let_def app_reload_quiet(2)
        dest: app_profile_files(3) split: if_splits prod.splits sum.splits)
  obtain p A1 where p: "app_pending (site_env S) A = (p, A1)" by fastforce
  then have f: "app_files A1 = app_files A" "app_profiles_dir A1 = app_profiles_dir A"
    by (auto simp: app_pending_def dest: ask_fields split: prod.splits)
  show "remove_source S sid A = (r', A') \<Longrightarrow> app_files A' q = app_files A q"
    using assms f by (auto simp: remove_source_def Let_def p app_reload_quiet(2)
        dest: app_profile_files(1) [where q = q, rotated] split: if_splits prod.splits sum.splits)
qed

lemma page_files:
  assumes "dashboard_routes S page A = (r, A')" "\<not> in_dir (app_profiles_dir A) q"
  shows "app_files A' q = app_files A q"
proof (cases page)
  case (PostCalendars name)
  with assms show ?thesis
    by (auto simp: page_create_calendar_def Let_def remember_created_calendar_def
        dest!: render_files split: if_splits prod.splits sum.splits option.splits)
next
  case (PostDeleteCalendar cal)
  with assms show ?thesis
    by (auto simp: page_delete_calendar_def Let_def forget_created_calendar_def
        remember_deleted_calendar_def dest!: render_files split: if_splits prod.splits sum.splits)
next
  case (PostDeleteProfile n)
  obtain l A1 where l: "app_load_all S A = (l, A1)" by fastforce
  from app_load_all_fields [OF l]
  have f: "app_files A1 = app_files A" "app_profiles_dir A1 = app_profiles_dir A" by simp_all
  show ?thesis
    using assms f PostDeleteProfile
    by (auto simp: page_delete_unusable_def l app_reload_quiet(2)
        dest!: render_files dest: app_profile_files(2) [where q = q, rotated]
        split: if_splits prod.splits sum.splits)
qed (use assms in \<open>auto simp: page_reload_profiles_def app_reload_quiet(2) dest: render_files\<close>)

section \<open>What becomes of the log\<close>

text \<open>An entry that is still waiting, or set aside with a reason.\<close>

definition still_held :: "entry \<Rightarrow> log_record list \<Rightarrow> bool" where
  "still_held e rs \<longleftrightarrow>
     e \<in> set (pending rs) \<or> (\<exists>why stamp. (e, why, stamp) \<in> set (dead rs))"

lemma held_snoc: "still_held e rs \<Longrightarrow> r \<noteq> Done (entry_id e) \<Longrightarrow> still_held e (rs @ [r])"
  by (cases r) (auto simp: still_held_def pending_eq set_dead)

lemma held_append:
  "still_held e rs \<Longrightarrow> Done (entry_id e) \<notin> set ms \<Longrightarrow> still_held e (rs @ ms)"
proof (induction ms rule: rev_induct)
  case Nil
  then show ?case by simp
next
  case (snoc m ms)
  then show ?case using held_snoc [of e "rs @ ms" m] by auto
qed

lemma held_compact: "still_held e (compact_records rs) = still_held e rs"
  by (simp add: still_held_def pending_compact dead_compact)

text \<open>The log goes on: nothing held is lost but what a delivery of this step brought home.\<close>

definition log_goes_on ::
  "('w, 'k, 'dt, 'nd) app_env \<Rightarrow> log_record list \<Rightarrow> 'w attempt list \<Rightarrow> 'w app \<Rightarrow> bool" where
  "log_goes_on E rs tr A' \<longleftrightarrow>
     (\<exists>rs'. app_holds E rs' A' \<and>
       (\<forall>e. still_held e rs \<longrightarrow> still_held e rs' \<or> succeeded E (entry_id e) tr))"

lemma goes_on_same:
  assumes "app_holds E rs A" "app_files A' (journal_path (env_journal E)) = app_files A (journal_path (env_journal E))"
  shows "log_goes_on E rs tr A'"
  using assms by (auto simp: log_goes_on_def app_holds_def disk_holds_def file_text_def)

lemma goes_on_append:
  assumes "app_holds E (rs @ ms) A'"
    "\<And>i. Done i \<in> set ms \<Longrightarrow> succeeded E i tr"
  shows "log_goes_on E rs tr A'"
  unfolding log_goes_on_def using assms held_append by blast

lemma accept_log:
  assumes "app_codec E" "whole_writes E" "app_holds E rs A"
    "build_entry E src header body A = (e, A1)" "app_accept E e A1 = (r, A2)"
  shows "app_holds E (rs @ [EntryRec e]) A2 \<or> app_holds E rs A2"
proof -
  have "app_holds E rs A1"
    using assms(3) build_entry_fields(4) [OF assms(4)] by (simp add: app_holds_def)
  from app_append_holds [OF assms(1,2) this assms(5) [unfolded app_append_eqs]] show ?thesis by blast
qed

lemma goes_on_entry:
  assumes "app_holds E (rs @ [EntryRec e]) A' \<or> app_holds E rs A'"
  shows "log_goes_on E rs tr A'"
  using assms goes_on_append [of E rs "[EntryRec e]"] goes_on_append [of E rs "[]"] by auto

lemma ingest_log:
  assumes "app_codec E" "whole_writes E" "app_holds E rs A"
    "ingest E src who header body A = (r, A')"
  shows "log_goes_on E rs [] A'"
proof (cases "admit E A src who header body")
  case (Inl v)
  with assms(3,4) show ?thesis by (auto simp: ingest_def intro: goes_on_same)
next
  case (Inr p)
  obtain e A1 where b: "build_entry E (source_id p) header body A = (e, A1)" by fastforce
  obtain res A2 where acc: "app_accept E e A1 = (res, A2)" by fastforce
  have "app_files A' = app_files A2"
    using assms(4) by (auto simp: ingest_def Inr b acc split: sum.splits)
  with accept_log [OF assms(1-3) b acc] show ?thesis
    by (intro goes_on_entry [where e = e]) (simp add: app_holds_def)
qed

lemma sync_log:
  assumes "app_codec E" "whole_writes E" "app_holds E rs A"
    "ingest_sync E src who header body A = (r, A')"
  shows "log_goes_on E rs (sync_attempts E src who header body A) A'"
proof (cases "admit E A src who header body")
  case (Inl v)
  with assms(3,4) show ?thesis by (auto simp: ingest_sync_def intro: goes_on_same)
next
  case (Inr p)
  obtain e A1 where b: "build_entry E (source_id p) header body A = (e, A1)" by fastforce
  obtain res A2 where acc: "app_accept E e A1 = (res, A2)" by fastforce
  let ?B = "on_metrics count_accepted A2"
  obtain d A3 where d: "app_deliver E e p ?B = (d, A3)" by fastforce
  obtain m A4 where m: "app_mark_done E (entry_id e) A3 = (m, A4)" by fastforce
  note entry = accept_log [OF assms(1-3) b acc]
  have A3: "app_files A3 = app_files A2" using app_deliver_frame [OF d] by simp
  show ?thesis
  proof (cases "\<exists>u x. res = Inr u \<and> d = Ok x")
    case False
    then have "app_files A' = app_files A2"
      using assms(4) A3 by (auto simp: ingest_sync_def Inr b acc d split: sum.splits outcome.splits)
    with entry show ?thesis by (intro goes_on_entry [where e = e]) (simp add: app_holds_def)
  next
    case True
    then have A': "A' = A4" and att: "sync_attempts E src who header body A = [(e, p, ?B)]"
      using assms(4) by (auto simp: ingest_sync_def sync_attempts_def Inr b acc d m)
    have won: "succeeded E i [(e, p, ?B)]" if "i = entry_id e" for i
      using True that d by (auto simp: succeeded_def)
    have "app_holds E (rs @ [EntryRec e]) A3 \<or> app_holds E (rs @ []) A3"
      using entry A3 by (simp add: app_holds_def)
    then obtain xs where xs: "app_holds E (rs @ xs) A3" "xs = [EntryRec e] \<or> xs = []" by blast
    from app_append_holds [OF assms(1,2) xs(1) m [unfolded app_append_eqs]]
    obtain ys where ys: "app_holds E (rs @ xs @ ys) A'" "ys = [Done (entry_id e)] \<or> ys = []"
      by (metis A' append_Nil2 append_assoc)
    show ?thesis
      unfolding att by (rule goes_on_append [OF ys(1)]) (use xs(2) ys(2) won in auto)
  qed
qed

lemma compact_log:
  assumes "app_codec E" "compact_temp (journal_path (env_journal E)) \<noteq> journal_path (env_journal E)"
    "app_holds E rs A" "app_compact E A = (r, A')"
  shows "app_holds E rs A' \<or> app_holds E (compact_records rs) A'"
proof -
  obtain fault F where c: "journal_compact (env_encoder E) (env_decoder E) (env_journal E) fault F
      (app_files A) = (r, app_files A')"
    using assms(4) by (auto simp: app_compact_def dest!: ask_frame split: prod.splits)
  show ?thesis
  proof (cases r)
    case (Inl e)
    with compact_failure [OF c [unfolded Inl] assms(2)] assms(3) show ?thesis
      by (simp add: app_holds_def disk_holds_def file_text_def)
  next
    case (Inr n)
    with compact_success(1) [OF _ _ c [unfolded Inr]] assms(1,3) show ?thesis
      by (simp add: app_holds_def app_codec_def)
  qed
qed

lemma drained_success:
  assumes "app_pending E A = (Inr es, A1)" "(e, B) \<in> set (drain_visits E wh (app_profiles A) es A1 perm)"
    "marks_entry E (app_profiles A) e B (Done i)"
  shows "succeeded E i (drain_attempts E wh A perm)"
proof -
  obtain p d A2 where p: "app_profiles A (entry_source e) = Some p" "app_deliver E e p B = (Ok d, A2)"
    "i = entry_id e"
    using assms(3) by (auto simp: marks_entry_def)
  have "(e, p, B) \<in> set (drain_attempts E wh A perm)"
    using assms(2) p(1) by (force simp: drain_attempts_def assms(1) List.map_filter_def)
  with p show ?thesis by (auto simp: succeeded_def intro!: bexI [of _ "(e, p, B)"])
qed

lemma drain_goes_on:
  assumes "app_codec E" "whole_writes E" "app_holds E rs A"
    "drain_once_tracking E wh A perm = (r, A', perm')"
  shows "log_goes_on E rs (drain_attempts E wh A perm) A'"
proof (cases "fst (app_pending E A)")
  case (Inl err)
  then obtain A1 where p: "app_pending E A = (Inl err, A1)" by (metis prod.collapse)
  with assms(4) have "A' = A1" by (simp add: drain_once_tracking_def)
  with assms(3) pending_files [OF p] show ?thesis by (simp add: goes_on_same)
next
  case (Inr es)
  then obtain A1 where p: "app_pending E A = (Inr es, A1)" by (metis prod.collapse)
  have es: "es = pending rs" by (rule app_pending_holds(1) [OF assms(1,3) p])
  obtain ms where ms: "app_holds E (rs @ ms) A'"
    "\<forall>m \<in> set ms. \<exists>(e, B) \<in> set (drain_visits E wh (app_profiles A) es A1 perm).
       marks_entry E (app_profiles A) e B m"
    using drain_log [OF assms] unfolding es [symmetric] p snd_conv by blast
  show ?thesis
    by (rule goes_on_append [OF ms(1)]) (use ms(2) drained_success [OF p] in blast)
qed

lemma tick_log:
  assumes "app_codec E" "whole_writes E"
    "compact_temp (journal_path (env_journal E)) \<noteq> journal_path (env_journal E)"
    "app_holds E rs A" "worker_tick E wh A W = Some (A', W')"
  shows "log_goes_on E rs (drain_attempts E wh A (permanent_map W)) A'"
  using assms(5)
proof (rule tick_parts)
  fix s A1 perm A2 A3 since
  assume d: "drain_once_tracking E wh A (permanent_map W) = (Some s, A1, perm)"
    and A2: "A2 = A1 \<or> (\<exists>F. ask (env_append_faults E) A1 = (F, A2))"
    and A3: "A3 = A2 \<or> A3 = send_notice E wh JOURNAL_BACKLOG backlog_notice A2"
    and c: "maybe_compact E since A3 = (since_compaction W', A')"
  obtain rs' where rs': "app_holds E rs' A1"
    "\<forall>e. still_held e rs \<longrightarrow> still_held e rs' \<or> succeeded E (entry_id e) (drain_attempts E wh A (permanent_map W))"
    using drain_goes_on [OF assms(1,2,4) d] by (auto simp: log_goes_on_def)
  have "app_files A3 = app_files A1" using A2 A3 by (auto dest: ask_frame)
  then have "app_holds E rs' A3" using rs'(1) by (simp add: app_holds_def)
  moreover have "A' = A3 \<or> (\<exists>r. app_compact E A3 = (r, A'))"
    using c by (auto simp: maybe_compact_def split: if_splits prod.splits sum.splits)
  ultimately have "app_holds E rs' A' \<or> app_holds E (compact_records rs') A'"
    using compact_log [OF assms(1,3)] by blast
  then show ?thesis
  proof
    assume "app_holds E (compact_records rs') A'"
    with rs'(2) show ?thesis
      unfolding log_goes_on_def by (intro exI [of _ "compact_records rs'"]) (simp add: held_compact)
  qed (use rs'(2) in \<open>auto simp: log_goes_on_def\<close>)
qed

lemma quiet_log:
  assumes "app_files A' = app_files A" "app_holds E rs A"
  shows "log_goes_on E rs tr A'"
  using assms by (auto intro: goes_on_same)

text \<open>
  The journal lies outside the profiles directory, and its name does not end in the extension of
  the temporary file that compaction writes.
\<close>

definition journal_apart :: "('w, 'k, 'dt, 'nd) app_env \<Rightarrow> string \<Rightarrow> bool" where
  "journal_apart E dir \<longleftrightarrow>
     \<not> in_dir dir (journal_path (env_journal E)) \<and>
     compact_temp (journal_path (env_journal E)) \<noteq> journal_path (env_journal E)"

lemma deleted_event_files: "delete_event E src ext who A = (r, A') \<Longrightarrow> app_files A' = app_files A"
  by (auto simp: delete_event_def Let_def split: sum.splits prod.splits option.splits)

lemma log_step:
  assumes "app_codec (site_env S)" "whole_writes (site_env S)"
    "journal_apart (site_env S) (app_profiles_dir A)" "app_holds (site_env S) rs A"
    "service_step S wh (A, W) tr (A', W')"
  shows "log_goes_on (site_env S) rs tr A'"
  using assms(5)
proof (rule service_step.cases, goal_cases)
  case (1 call B r B' V)
  then show ?case
    using ingest_log [OF assms(1,2,4)] sync_log [OF assms(1,2,4)] quiet_log [OF deleted_event_files assms(4)]
    by (cases call) (auto split: prod.splits)
next
  case (2 call B r B' V)
  then have "app_files A' = app_files A"
    by (cases call) (auto simp: debug_status_def Let_def dest: pending_files
        split: prod.splits option.splits)
  with assms(4) 2 show ?case by (simp add: quiet_log)
next
  case (9 B V)
  then show ?case using quiet_log [OF fill_files assms(4)] by simp
next
  case (10 B A1 V W1)
  then show ?case using tick_log [OF assms(1,2) _ assms(4)] assms(3) by (auto simp: journal_apart_def)
next
  case (3 page B r B' V)
  then show ?case
    using assms(3,4) by (auto simp: journal_apart_def intro!: goes_on_same page_files)
next
  case (4 src cal B r B' V)
  then show ?case
    using assms(3,4) by (auto simp: journal_apart_def intro!: goes_on_same source_files(1))
next
  case (5 src B r B' V)
  then show ?case
    using assms(3,4) by (auto simp: journal_apart_def intro!: goes_on_same source_files(2))
next
  case (11 fs B V)
  then show ?case using assms(4) by (auto intro!: goes_on_same)
qed (use assms(4) in \<open>auto simp: journal_check_def scrape_def journal_section_def Let_def
    intro!: quiet_log dest!: pending_files split: prod.splits sum.splits\<close>)

lemma goes_on_trans:
  assumes "app_holds E rs' B" "\<forall>e. still_held e rs \<longrightarrow> still_held e rs' \<or> succeeded E (entry_id e) tr"
    "log_goes_on E rs' tr' A'"
  shows "log_goes_on E rs (tr @ tr') A'"
proof -
  have "succeeded E i (tr @ tr') \<longleftrightarrow> succeeded E i tr \<or> succeeded E i tr'" for i
    by (simp add: succeeded_def bex_Un)
  with assms show ?thesis unfolding log_goes_on_def by blast
qed

lemma log_run:
  assumes "app_codec (site_env S)" "whole_writes (site_env S)"
  shows "service_reaches S wh X tr Y \<Longrightarrow> tidy S A0 (fst X) \<Longrightarrow>
    journal_apart (site_env S) (app_profiles_dir A0) \<Longrightarrow>
    app_holds (site_env S) rs (fst X) \<Longrightarrow> log_goes_on (site_env S) rs tr (fst Y)"
proof (induction rule: service_reaches.induct)
  case (idle X)
  then show ?case by (auto intro: quiet_log)
next
  case (move X tr Y tr' Z)
  obtain rs' where rs': "app_holds (site_env S) rs' (fst Y)"
    "\<forall>e. still_held e rs \<longrightarrow> still_held e rs' \<or> succeeded (site_env S) (entry_id e) tr"
    using move.IH [OF move.prems] by (auto simp: log_goes_on_def)
  have "app_profiles_dir (fst Y) = app_profiles_dir A0"
    using tidy_run [OF move.hyps(1) move.prems(1)] by (simp add: tidy_def)
  then have "log_goes_on (site_env S) rs' tr' (fst Z)"
    using log_step [OF assms _ rs'(1), of wh "snd Y" tr' "fst Z" "snd Z"] move.prems(2) move.hyps(2)
    by simp
  from goes_on_trans [OF rs' this] show ?case .
qed

section \<open>The pace\<close>

definition paced :: "worker \<Rightarrow> bool" where
  "paced W \<longleftrightarrow> POLL_INTERVAL_SECS \<le> period W \<and> period W \<le> last FAILURE_BACKOFF_SECS"

lemma pace_bounds:
  "POLL_INTERVAL_SECS \<le> wait_secs (fst (pace_after s f w)) \<and>
   wait_secs (fst (pace_after s f w)) \<le> last FAILURE_BACKOFF_SECS"
proof (cases "stalled s")
  case True
  have "\<forall>i \<in> {0..4}. 5 \<le> FAILURE_BACKOFF_SECS ! i \<and> FAILURE_BACKOFF_SECS ! i \<le> 1800"
    by code_simp
  moreover have "last FAILURE_BACKOFF_SECS = 1800" by (simp add: FAILURE_BACKOFF_SECS_def)
  ultimately show ?thesis
    using pace_stalled(1) [OF True, of f w] by (simp add: POLL_INTERVAL_SECS_def)
next
  case False
  then show ?thesis
    by (simp add: pace_moving FAILURE_BACKOFF_SECS_def POLL_INTERVAL_SECS_def)
qed

interpretation paced_runs: machine "moves S wh" "\<lambda>X. paced (snd X)" for S wh
proof
  fix X Z :: "'a app \<times> worker"
  assume "paced (snd X)" "moves S wh X Z"
  then obtain tr where "service_step S wh X tr Z" by blast
  then show "paced (snd Z)"
  proof (cases rule: service_step.cases)
    case (ticked A W A' W')
    then obtain s f where "period W' = wait_secs (fst (pace_after s f (pace W)))"
      by (metis tick_parts)
    with ticked pace_bounds show ?thesis by (simp add: paced_def)
  qed (use \<open>paced (snd X)\<close> in auto)
qed

lemma paced_run: "service_reaches S wh X tr Y \<Longrightarrow> paced (snd X) \<Longrightarrow> paced (snd Y)"
  by (rule paced_runs.run_keeps [OF reaches_moves])

end
