(* ===== verification/Delivery_Race.thy ===== *)
theory Delivery_Race
  imports Delivery Machines
begin

text \<open>
  Deliveries and deletions of several callers at once (src/shell/delivery.rs from the lock on, and
  \<open>delete_event\<close> of src/shell/ingest.rs): search and write are separate calls to Google, and any
  other caller may act in between. A step is one await of one task. The calendar is reduced to what
  the property is about, which events carry which key.

  A write is sent by the retry loop of src/shell/calendar_client.rs, so its answer can be lost after
  Google has carried it out, and then the loop sends it again or gives up.
\<close>

section \<open>Tasks\<close>

datatype goal = Upsert | Remove

text \<open>
  Where a task is: before \<open>for_key\<close>; with the lock in hand but not held; holding it; after the
  search, with what it found; done, the guard dropped.
\<close>

datatype stage =
    Start
  | Fetched nat
  | Holding nat
  | Looked nat "string option"
  | Over

text \<open>\<open>task_resends\<close> is how often the time left to the loop allows the write to be sent again.\<close>

record task =
  task_goal :: goal
  task_key :: string
  task_resends :: nat
  task_stage :: stage

text \<open>\<open>lost_answers\<close> has the key of every creation that Google carried out without its answer arriving.\<close>

record race =
  on_calendar :: "(string \<times> string) list"
  lost_answers :: "string list"
  race_locks :: key_locks
  held_locks :: "nat set"
  tasks :: "task list"

text \<open>What the search answers: the id of the first event that carries the key.\<close>

fun lookup_key :: "string \<Rightarrow> (string \<times> string) list \<Rightarrow> string option" where
  "lookup_key k [] = None"
| "lookup_key k ((i, k') # evs) = (if k' = k then Some i else lookup_key k evs)"

definition move :: "nat \<Rightarrow> stage \<Rightarrow> task list \<Rightarrow> task list" where
  "move n s ts = ts[n := (ts ! n)\<lparr>task_stage := s\<rparr>]"

abbreviation at_stage :: "race \<Rightarrow> nat \<Rightarrow> stage \<Rightarrow> bool" where
  "at_stage R n s \<equiv> n < length (tasks R) \<and> task_stage (tasks R ! n) = s"

abbreviation key_at :: "race \<Rightarrow> nat \<Rightarrow> string" where
  "key_at R n \<equiv> task_key (tasks R ! n)"

definition resend :: "nat \<Rightarrow> task list \<Rightarrow> task list" where
  "resend n ts = ts[n := (ts ! n)\<lparr>task_resends := task_resends (ts ! n) - 1\<rparr>]"

abbreviation may_resend :: "race \<Rightarrow> nat \<Rightarrow> bool" where
  "may_resend R n \<equiv> 0 < task_resends (tasks R ! n)"

definition add_event :: "string \<Rightarrow> string \<Rightarrow> race \<Rightarrow> race" where
  "add_event i k R = R\<lparr>on_calendar := on_calendar R @ [(i, k)]\<rparr>"

definition drop_event :: "string \<Rightarrow> race \<Rightarrow> race" where
  "drop_event i R = R\<lparr>on_calendar := filter (\<lambda>ev. fst ev \<noteq> i) (on_calendar R)\<rparr>"

definition lose_answer :: "string \<Rightarrow> race \<Rightarrow> race" where
  "lose_answer k R = R\<lparr>lost_answers := lost_answers R @ [k]\<rparr>"

definition send_again :: "nat \<Rightarrow> race \<Rightarrow> race" where
  "send_again n R = R\<lparr>tasks := resend n (tasks R)\<rparr>"

definition finish :: "nat \<Rightarrow> nat \<Rightarrow> race \<Rightarrow> race" where
  "finish n l R = R\<lparr>held_locks := held_locks R - {l}, tasks := move n Over (tasks R)\<rparr>"

inductive race_step :: "race \<Rightarrow> race \<Rightarrow> bool" where
  fetch:
    "at_stage R n Start \<Longrightarrow> for_key (key_at R n) (race_locks R) = (l, L) \<Longrightarrow>
     race_step R (R\<lparr>race_locks := L, tasks := move n (Fetched l) (tasks R)\<rparr>)"
| acquire:
    "at_stage R n (Fetched l) \<Longrightarrow> l \<notin> held_locks R \<Longrightarrow>
     race_step R (R\<lparr>held_locks := insert l (held_locks R), tasks := move n (Holding l) (tasks R)\<rparr>)"
| look:
    "at_stage R n (Holding l) \<Longrightarrow>
     race_step R (R\<lparr>tasks :=
       move n (Looked l (lookup_key (key_at R n) (on_calendar R))) (tasks R)\<rparr>)"
| look_fails: "at_stage R n (Holding l) \<Longrightarrow> race_step R (finish n l R)"
| create:
    "at_stage R n (Looked l None) \<Longrightarrow> task_goal (tasks R ! n) = Upsert \<Longrightarrow>
     i \<notin> fst ` set (on_calendar R) \<Longrightarrow>
     race_step R (finish n l (add_event i (key_at R n) R))"
| create_lost:
    "at_stage R n (Looked l None) \<Longrightarrow> task_goal (tasks R ! n) = Upsert \<Longrightarrow>
     i \<notin> fst ` set (on_calendar R) \<Longrightarrow>
     race_step R (finish n l (lose_answer (key_at R n) (add_event i (key_at R n) R)))"
| create_again:
    "at_stage R n (Looked l None) \<Longrightarrow> task_goal (tasks R ! n) = Upsert \<Longrightarrow>
     i \<notin> fst ` set (on_calendar R) \<Longrightarrow> may_resend R n \<Longrightarrow>
     race_step R (send_again n (lose_answer (key_at R n) (add_event i (key_at R n) R)))"
| update:
    "at_stage R n (Looked l (Some i)) \<Longrightarrow> task_goal (tasks R ! n) = Upsert \<Longrightarrow>
     race_step R (finish n l R)"
| remove:
    "at_stage R n (Looked l (Some i)) \<Longrightarrow> task_goal (tasks R ! n) = Remove \<Longrightarrow>
     race_step R (finish n l (drop_event i R))"
| remove_again:
    "at_stage R n (Looked l (Some i)) \<Longrightarrow> task_goal (tasks R ! n) = Remove \<Longrightarrow> may_resend R n \<Longrightarrow>
     race_step R (send_again n (drop_event i R))"
| not_found:
    "at_stage R n (Looked l None) \<Longrightarrow> task_goal (tasks R ! n) = Remove \<Longrightarrow>
     race_step R (finish n l R)"
| write_again:
    "at_stage R n (Looked l found) \<Longrightarrow> may_resend R n \<Longrightarrow> race_step R (send_again n R)"
| write_fails: "at_stage R n (Looked l found) \<Longrightarrow> race_step R (finish n l R)"

definition race_start :: "(string \<times> string) list \<Rightarrow> (goal \<times> string \<times> nat) list \<Rightarrow> race" where
  "race_start evs jobs =
     \<lparr>on_calendar = evs, lost_answers = [], race_locks = key_locks_new, held_locks = {},
      tasks = map (\<lambda>(g, k, m).
        \<lparr>task_goal = g, task_key = k, task_resends = m, task_stage = Start\<rparr>) jobs\<rparr>"

definition race_reachable :: "race \<Rightarrow> race \<Rightarrow> bool" where
  "race_reachable R R' \<longleftrightarrow> race_step\<^sup>*\<^sup>* R R'"

section \<open>The invariant\<close>

fun stage_lock :: "stage \<Rightarrow> nat option" where
  "stage_lock Start = None"
| "stage_lock (Fetched l) = Some l"
| "stage_lock (Holding l) = Some l"
| "stage_lock (Looked l found) = Some l"
| "stage_lock Over = None"

fun stage_holds :: "stage \<Rightarrow> nat option" where
  "stage_holds (Holding l) = Some l"
| "stage_holds (Looked l found) = Some l"
| "stage_holds s = None"

definition locks_right :: "race \<Rightarrow> bool" where
  "locks_right R \<longleftrightarrow> key_locks_wf (race_locks R) \<and>
     (\<forall>n < length (tasks R). \<forall>l. stage_lock (task_stage (tasks R ! n)) = Some l \<longrightarrow>
        lock_table (race_locks R) (key_at R n) = Some l)"

definition exclusive :: "race \<Rightarrow> bool" where
  "exclusive R \<longleftrightarrow>
     (\<forall>n < length (tasks R). \<forall>l. stage_holds (task_stage (tasks R ! n)) = Some l \<longrightarrow>
        l \<in> held_locks R) \<and>
     (\<forall>n < length (tasks R). \<forall>m < length (tasks R). \<forall>l.
        stage_holds (task_stage (tasks R ! n)) = Some l \<longrightarrow>
        stage_holds (task_stage (tasks R ! m)) = Some l \<longrightarrow> n = m)"

definition held_by_task :: "race \<Rightarrow> bool" where
  "held_by_task R \<longleftrightarrow>
     (\<forall>l \<in> held_locks R. \<exists>n < length (tasks R). stage_holds (task_stage (tasks R ! n)) = Some l)"

text \<open>
  A key is on at most one event more than answers were lost for it, and on no more than that while
  a task is about to create: the search found none, and since then only this task created any.
\<close>

abbreviation events_with :: "race \<Rightarrow> string \<Rightarrow> nat" where
  "events_with R k \<equiv> count_list (map snd (on_calendar R)) k"

definition searches_current :: "race \<Rightarrow> bool" where
  "searches_current R \<longleftrightarrow>
     (\<forall>n < length (tasks R). \<forall>l. task_stage (tasks R ! n) = Looked l None \<longrightarrow>
        events_with R (key_at R n) \<le> count_list (lost_answers R) (key_at R n))"

definition copies_lost :: "race \<Rightarrow> bool" where
  "copies_lost R \<longleftrightarrow> (\<forall>k. events_with R k \<le> Suc (count_list (lost_answers R) k))"

lemma lookup_None: "lookup_key k evs = None \<longleftrightarrow> k \<notin> snd ` set evs"
  by (induction k evs rule: lookup_key.induct) auto

lemma lookup_counts: "lookup_key k evs = None \<Longrightarrow> count_list (map snd evs) k = 0"
  by (simp add: lookup_None count_list_0_iff)

lemma count_list_filter_le:
  "count_list (map snd (filter P evs)) k \<le> count_list (map snd evs) k"
  by (induction evs) auto

lemma counts_distinct: "(\<And>k. count_list xs k \<le> 1) \<Longrightarrow> distinct xs"
proof (induction xs)
  case Nil
  then show ?case by simp
next
  case (Cons x xs)
  have "count_list xs x = 0" using Cons.prems [of x] by simp
  moreover have "count_list xs k \<le> 1" for k
    using Cons.prems [of k] by (simp split: if_splits)
  ultimately show ?case using Cons.IH by (simp add: count_list_0_iff)
qed

lemma distinct_counts: "distinct xs \<Longrightarrow> count_list xs k \<le> 1"
  by (induction xs) auto

lemma move_simps [simp]:
  "length (move n s ts) = length ts"
  "n < length ts \<Longrightarrow>
     task_stage (move n s ts ! m) = (if m = n then s else task_stage (ts ! m))"
  "n < length ts \<Longrightarrow> task_key (move n s ts ! m) = task_key (ts ! m)"
  "n < length ts \<Longrightarrow> task_goal (move n s ts ! m) = task_goal (ts ! m)"
  by (auto simp: move_def nth_list_update)

lemma resend_simps [simp]:
  "length (resend n ts) = length ts"
  "n < length ts \<Longrightarrow> task_stage (resend n ts ! m) = task_stage (ts ! m)"
  "n < length ts \<Longrightarrow> task_key (resend n ts ! m) = task_key (ts ! m)"
  "n < length ts \<Longrightarrow> task_goal (resend n ts ! m) = task_goal (ts ! m)"
  by (auto simp: resend_def nth_list_update)

lemma race_updates [simp]:
  "on_calendar (finish n l R) = on_calendar R" "lost_answers (finish n l R) = lost_answers R"
  "race_locks (finish n l R) = race_locks R" "held_locks (finish n l R) = held_locks R - {l}"
  "tasks (finish n l R) = move n Over (tasks R)"
  "on_calendar (send_again n R) = on_calendar R" "lost_answers (send_again n R) = lost_answers R"
  "race_locks (send_again n R) = race_locks R" "held_locks (send_again n R) = held_locks R"
  "tasks (send_again n R) = resend n (tasks R)"
  "on_calendar (add_event i k R) = on_calendar R @ [(i, k)]" "lost_answers (add_event i k R) = lost_answers R"
  "race_locks (add_event i k R) = race_locks R" "held_locks (add_event i k R) = held_locks R"
  "tasks (add_event i k R) = tasks R"
  "on_calendar (drop_event i R) = filter (\<lambda>ev. fst ev \<noteq> i) (on_calendar R)"
  "lost_answers (drop_event i R) = lost_answers R"
  "race_locks (drop_event i R) = race_locks R" "held_locks (drop_event i R) = held_locks R"
  "tasks (drop_event i R) = tasks R"
  "on_calendar (lose_answer k R) = on_calendar R" "lost_answers (lose_answer k R) = lost_answers R @ [k]"
  "race_locks (lose_answer k R) = race_locks R" "held_locks (lose_answer k R) = held_locks R"
  "tasks (lose_answer k R) = tasks R"
  by (simp_all add: finish_def send_again_def add_event_def drop_event_def lose_answer_def)

lemma step_locks_right: "race_step R R' \<Longrightarrow> locks_right R \<Longrightarrow> locks_right R'"
proof (induction rule: race_step.induct)
  case (fetch R n l L)
  then have wf: "key_locks_wf (race_locks R)" by (simp add: locks_right_def)
  note L = locks.get_wf [OF wf fetch.hyps(2)] locks.get_lock [OF wf fetch.hyps(2)]
    locks.get_keeps [OF wf fetch.hyps(2)]
  from fetch.prems fetch.hyps(1) L show ?case
    by (auto simp: locks_right_def split: if_splits)
qed (fastforce simp: locks_right_def split: if_splits)+

lemma step_exclusive: "race_step R R' \<Longrightarrow> exclusive R \<Longrightarrow> exclusive R'"
proof (induction rule: race_step.induct)
  case (acquire R n l)
  have "stage_holds (task_stage (tasks R ! m)) \<noteq> Some l" if "m < length (tasks R)" for m
    using acquire.prems that acquire.hyps(2) by (auto simp: exclusive_def)
  with acquire.prems acquire.hyps(1) show ?case
    by (auto simp: exclusive_def split: if_splits)
qed (fastforce simp: exclusive_def split: if_splits)+

lemma held_move:
  assumes "held_by_task R" "n < length (tasks R)" "tasks R' = move n s (tasks R)"
    "\<And>x. x \<in> held_locks R' \<Longrightarrow>
       stage_holds s = Some x \<or> x \<in> held_locks R \<and> stage_holds (task_stage (tasks R ! n)) \<noteq> Some x"
  shows "held_by_task R'"
  unfolding held_by_task_def
proof
  fix x assume "x \<in> held_locks R'"
  from assms(4) [OF this]
  show "\<exists>m < length (tasks R'). stage_holds (task_stage (tasks R' ! m)) = Some x"
  proof
    assume "stage_holds s = Some x"
    with assms(2,3) show ?thesis by auto
  next
    assume x: "x \<in> held_locks R \<and> stage_holds (task_stage (tasks R ! n)) \<noteq> Some x"
    then obtain m where "m < length (tasks R)" "stage_holds (task_stage (tasks R ! m)) = Some x"
      using assms(1) by (auto simp: held_by_task_def)
    with x assms(2,3) show ?thesis by (intro exI [of _ m]) auto
  qed
qed

lemma held_updates [simp]:
  "held_by_task (add_event i k R) = held_by_task R" "held_by_task (drop_event i R) = held_by_task R"
  "held_by_task (lose_answer k R) = held_by_task R"
  by (simp_all add: held_by_task_def)

lemma held_resend: "n < length (tasks R) \<Longrightarrow> held_by_task R \<Longrightarrow> held_by_task (send_again n R)"
  by (fastforce simp: held_by_task_def)

lemma held_over:
  "held_by_task R \<Longrightarrow> n < length (tasks R) \<Longrightarrow> stage_holds (task_stage (tasks R ! n)) = Some l \<Longrightarrow>
   held_by_task (finish n l R)"
  by (rule held_move [of R n _ Over]) auto

lemma step_held_by_task: "race_step R R' \<Longrightarrow> held_by_task R \<Longrightarrow> held_by_task R'"
proof (induction rule: race_step.induct)
  case (fetch R n l L)
  then show ?case by - (rule held_move [of R n _ "Fetched l"]; auto)
next
  case (acquire R n l)
  then show ?case by - (rule held_move [of R n _ "Holding l"]; auto)
next
  case (look R n l)
  then show ?case by - (rule held_move [of R n _ "Looked l (lookup_key (key_at R n) (on_calendar R))"]; auto)
qed (simp_all add: held_over held_resend)

lemma same_key_same_task:
  assumes "locks_right R" "exclusive R" "n < length (tasks R)" "m < length (tasks R)"
    "key_at R n = key_at R m"
    "stage_holds (task_stage (tasks R ! n)) = Some l"
    "stage_holds (task_stage (tasks R ! m)) = Some l'"
  shows "n = m"
proof -
  have lock: "stage_holds s = Some x \<Longrightarrow> stage_lock s = Some x" for s x
    by (cases s) auto
  have "l = l'"
    using assms lock unfolding locks_right_def by (metis option.inject)
  with assms show ?thesis unfolding exclusive_def by blast
qed

lemma searches_add:
  assumes "locks_right R" "exclusive R" "searches_current R" "at_stage R n (Looked l None)"
    "\<And>m. m < length (tasks R) \<Longrightarrow> m \<noteq> n \<Longrightarrow>
       task_key (tasks R' ! m) = key_at R m \<and> task_stage (tasks R' ! m) = task_stage (tasks R ! m)"
    "length (tasks R') = length (tasks R)" "on_calendar R' = on_calendar R @ [(i, key_at R n)]"
    "lost_answers R' = lost_answers R @ ks"
    "task_stage (tasks R' ! n) = Looked l None \<Longrightarrow> task_key (tasks R' ! n) = key_at R n \<and> ks = [key_at R n]"
    "task_stage (tasks R' ! n) = Looked l None \<or> task_stage (tasks R' ! n) = Over"
  shows "searches_current R'"
  unfolding searches_current_def
proof (intro allI impI)
  fix m l' assume m: "m < length (tasks R')" "task_stage (tasks R' ! m) = Looked l' None"
  show "events_with R' (key_at R' m) \<le> count_list (lost_answers R') (key_at R' m)"
  proof (cases "m = n")
    case True
    with m assms(9,10) have "key_at R' m = key_at R n" "ks = [key_at R n]" by auto
    with assms(3,4,7,8) show ?thesis by (auto simp: searches_current_def)
  next
    case False
    with m assms(5,6) have same: "key_at R' m = key_at R m" "task_stage (tasks R ! m) = Looked l' None"
      "m < length (tasks R)"
      by auto
    have "key_at R m \<noteq> key_at R n"
      using same_key_same_task [OF assms(1,2), of m n l' l] assms(4) same False by auto
    moreover have "events_with R (key_at R m) \<le> count_list (lost_answers R) (key_at R m)"
      using assms(3) same by (auto simp: searches_current_def)
    ultimately show ?thesis using same(1) assms(7,8) by simp
  qed
qed

lemma searches_drop: "searches_current R \<Longrightarrow> searches_current (drop_event i R)"
  by (simp add: searches_current_def) (meson count_list_filter_le le_trans)

lemma searches_finish: "searches_current R \<Longrightarrow> n < length (tasks R) \<Longrightarrow> searches_current (finish n l R)"
  by (simp add: searches_current_def)

lemma searches_resend: "searches_current R \<Longrightarrow> n < length (tasks R) \<Longrightarrow> searches_current (send_again n R)"
  by (simp add: searches_current_def)

lemma step_searches_current:
  "race_step R R' \<Longrightarrow> locks_right R \<Longrightarrow> exclusive R \<Longrightarrow> searches_current R \<Longrightarrow>
   searches_current R'"
proof (induction rule: race_step.induct)
  case (look R n l)
  then show ?case
    by (auto simp: searches_current_def lookup_counts split: if_splits)
next
  case (create R n l i)
  then show ?case
    by - (rule searches_add [of R n l _ i "[]"]; simp)
next
  case (create_lost R n l i)
  then show ?case
    by - (rule searches_add [of R n l _ i "[key_at R n]"]; simp)
next
  case (create_again R n l i)
  then show ?case
    by - (rule searches_add [of R n l _ i "[key_at R n]"]; simp)
next
  case (fetch R n l L)
  then show ?case by (simp add: searches_current_def)
next
  case (acquire R n l)
  then show ?case by (simp add: searches_current_def)
qed (simp_all add: searches_drop searches_finish searches_resend)

lemma copies_drop:
  "copies_lost R \<Longrightarrow> copies_lost (finish n l (drop_event i R))"
  "copies_lost R \<Longrightarrow> copies_lost (send_again n (drop_event i R))"
  by (simp_all add: copies_lost_def) (meson count_list_filter_le le_trans)+

lemma step_copies_lost:
  "race_step R R' \<Longrightarrow> searches_current R \<Longrightarrow> copies_lost R \<Longrightarrow> copies_lost R'"
proof (induction rule: race_step.induct)
  case (create R n l i)
  then show ?case by (auto simp: copies_lost_def searches_current_def)
next
  case (remove R n l i)
  then show ?case by (simp add: copies_drop)
next
  case (remove_again R n l i)
  then show ?case by (simp add: copies_drop)
qed (auto simp: copies_lost_def)

definition race_inv :: "race \<Rightarrow> bool" where
  "race_inv R \<longleftrightarrow>
     locks_right R \<and> exclusive R \<and> held_by_task R \<and> searches_current R \<and> copies_lost R"

lemma start_inv: "distinct (map snd evs) \<Longrightarrow> race_inv (race_start evs jobs)"
  using distinct_counts [of "map snd evs"]
  by (auto simp: race_inv_def race_start_def locks_right_def exclusive_def held_by_task_def
      searches_current_def copies_lost_def key_locks_wf_def key_locks_new_def
      split: prod.splits)

lemma step_inv: "race_step R R' \<Longrightarrow> race_inv R \<Longrightarrow> race_inv R'"
  unfolding race_inv_def
  using step_locks_right step_exclusive step_held_by_task step_searches_current step_copies_lost
  by blast

section \<open>Progress\<close>

definition all_over :: "race \<Rightarrow> bool" where
  "all_over R \<longleftrightarrow> (\<forall>t \<in> set (tasks R). task_stage t = Over)"

fun stage_rank :: "stage \<Rightarrow> nat" where
  "stage_rank Start = 4"
| "stage_rank (Fetched l) = 3"
| "stage_rank (Holding l) = 2"
| "stage_rank (Looked l found) = 1"
| "stage_rank Over = 0"

definition race_rank :: "race \<Rightarrow> nat" where
  "race_rank R = sum_list (map (\<lambda>t. stage_rank (task_stage t) + task_resends t) (tasks R))"

lemma sum_list_update_less:
  "n < length xs \<Longrightarrow> f y < (f (xs ! n) :: nat) \<Longrightarrow>
   sum_list (map f (xs[n := y])) < sum_list (map f xs)"
proof (induction xs arbitrary: n)
  case Nil
  then show ?case by simp
next
  case (Cons x xs)
  then show ?case by (cases n) auto
qed

lemma step_rank: "race_step R R' \<Longrightarrow> race_rank R' < race_rank R"
  by (induction rule: race_step.induct)
    (simp_all add: race_rank_def move_def resend_def sum_list_update_less)

lemma holder_can_step:
  assumes "n < length (tasks R)" "stage_holds (task_stage (tasks R ! n)) = Some l"
  shows "\<exists>R'. race_step R R'"
  using assms
  by (cases "task_stage (tasks R ! n)") (auto intro: race_step.look race_step.write_fails)

lemma step_exists:
  assumes "race_inv R" "\<not> all_over R"
  shows "\<exists>R'. race_step R R'"
proof -
  from assms(2) obtain n where n: "n < length (tasks R)" "task_stage (tasks R ! n) \<noteq> Over"
    by (auto simp: all_over_def in_set_conv_nth)
  show ?thesis
  proof (cases "task_stage (tasks R ! n)")
    case Start
    then show ?thesis
      using n race_step.fetch [where R = R and n = n]
      by (cases "for_key (key_at R n) (race_locks R)") blast
  next
    case (Fetched l)
    show ?thesis
    proof (cases "l \<in> held_locks R")
      case True
      with assms(1) holder_can_step show ?thesis
        by (auto simp: race_inv_def held_by_task_def)
    next
      case False
      with n Fetched show ?thesis by (blast intro: race_step.acquire)
    qed
  qed (use n holder_can_step [of n R] in auto)
qed

text \<open>All of it at once: what holds at the start holds throughout, and the tasks get done.\<close>

interpretation race: finishing_machine race_step race_inv race_rank all_over
  by unfold_locales (auto intro: step_inv step_rank step_exists)

lemma reachable_inv: "race_reachable R R' \<Longrightarrow> race_inv R \<Longrightarrow> race_inv R'"
  unfolding race_reachable_def by (rule race.run_keeps)

end
