(* ===== verification/Request_Properties.thy ===== *)
theory Request_Properties
  imports Request
begin

text \<open>
  What a source's payload and a profile file turn into, over the mapping (Request), the calendar
  model (Calendar_Model) and the profiles (Profile), with a concrete instance of the crates.
\<close>

section \<open>A concrete instance of the crates\<close>

text \<open>
  Times are numbers: a timestamp is a text that begins with T and denotes its length, a date is a
  text that begins with D; addition fails from ten thousand on.
\<close>

definition demo_read :: "char \<Rightarrow> string \<Rightarrow> int option" where
  "demo_read c s = (if s \<noteq> [] \<and> hd s = c then Some (int (length s)) else None)"

definition demo_add :: "int \<Rightarrow> int \<Rightarrow> int option" where
  "demo_add t n = (if t + n < 10000 then Some (t + n) else None)"

definition demo_crates :: "(int, int) crates" where
  "demo_crates =
     \<lparr>parse_rfc3339 = (\<lambda>s. case demo_read CHR ''T'' s of Some t \<Rightarrow> Inr t | None \<Rightarrow> Inl ''no time''),
      dt_le = (\<lambda>a b. a \<le> b), dt_plus_minutes = demo_add, dt_to_rfc3339 = show_int,
      dt_date_naive = id, parse_ymd = demo_read CHR ''D'', nd_plus_days = demo_add,
      nd_format_ymd = show_int, tz_known = (\<lambda>z. z = ''Europe/Brussels''),
      request_from_value = (\<lambda>v. case event_request_of_json v of
        Some r \<Rightarrow> Inr r | None \<Rightarrow> Inl ''invalid'')\<rparr>"

lemma demo_chrono: "chrono_ok demo_crates"
  by (auto simp: chrono_ok_def demo_crates_def demo_add_def split: if_splits)

lemma demo_serde: "serde_reads_request demo_crates"
  by (auto simp: serde_reads_request_def demo_crates_def split: option.split)

definition demo_profile :: profile where
  "demo_profile = \<lparr>schema_version = 2, source_id = ''s'', target_calendar_id = ''cal'',
     timezone = ''Europe/Brussels'', default_duration_minutes = Some 60\<rparr>"

definition demo_payload :: json where
  "demo_payload = JObj [(''title'', JStr ''x''), (''start'', JStr ''T''),
                        (''external_id'', JStr ''7'')]"

definition demo_request :: event_request where
  "demo_request = \<lparr>req_title = ''x'', req_start = ''T'', req_external_id = Some ''7'',
     req_description = None, req_location = None, req_end = None, req_duration_minutes = None,
     req_all_day = False, req_duration_days = None, req_busy = None, req_color = None,
     req_status = None, req_reminders = None, req_timezone = None\<rparr>"

definition demo_event :: google_event where
  "demo_event = \<lparr>event_id = None, summary = ''x'', description = None, location = None,
     color_id = None, event_start = Timed ''1'' ''Europe/Brussels'',
     event_end = Timed ''61'' ''Europe/Brussels'', transparency = None, event_status = None,
     event_reminders = None,
     event_properties = Some \<lparr>private_props = [(UPSERT_PROPERTY, ''s:7'')]\<rparr>\<rparr>"

lemma not_blank_letters [simp]:
  "\<not> is_blank ''x''" "\<not> is_blank ''7''" "\<not> is_blank ''s''" "\<not> is_blank ''cal''"
  by code_simp+

lemma demo_reads: "event_request_of_json demo_payload = Some demo_request"
  by (simp add: demo_payload_def demo_request_def event_request_of_json_def known_only_def
      event_request_fields_def event_request_of_fields_def field_unfold field_or_def)

lemma demo_shows: "show_int 1 = ''1''" "show_int 61 = ''61''"
  by code_simp+

lemma demo_to_event: "to_google_event demo_crates demo_request demo_profile origin = Ok demo_event"
  by (simp add: to_google_event_def demo_request_def demo_profile_def demo_crates_def demo_event_def
      timed_window_def timed_end_def demo_read_def demo_add_def validate_timezone_def
      resolve_requested_color_def check_status_def requested_reminders_def source_key_def demo_shows Let_def)

lemma demo_maps: "map_payload demo_crates demo_payload demo_profile origin = Ok demo_event"
  by (simp add: map_payload_def event_request_parse_def demo_to_event)
    (simp add: demo_crates_def demo_reads demo_to_event [unfolded demo_crates_def])

section \<open>The mapping\<close>

text \<open>The reminders of an event, each with its method and its minutes.\<close>

definition reminder_list :: "reminders \<Rightarrow> (string \<times> int) list" where
  "reminder_list rs = map (\<lambda>x. (reminder_method x, int (reminder_minutes x))) (overrides rs)"

definition asked_list :: "reminder_request \<Rightarrow> (string \<times> int) list" where
  "asked_list q = map (Pair ''popup'') (popup_minutes_before q) @ map (Pair ''email'') (email_minutes_before q)"

lemma to_reminders_list:
  assumes "to_reminders q origin = Inr rs"
  shows "\<not> use_default rs" "reminder_list rs = asked_list q" "silent q \<Longrightarrow> reminder_list rs = []"
proof -
  note q = assms [unfolded to_reminders_Inr]
  have "map ((\<lambda>x. (reminder_method x, int (reminder_minutes x))) \<circ> override_of how) ms = map (Pair how) ms"
    if "list_all (\<lambda>m. \<not> reminder_out_of_range m) ms" for how ms
    using that override_minutes by (induction ms) (simp_all add: override_of_def)
  with q show "\<not> use_default rs" "reminder_list rs = asked_list q" "silent q \<Longrightarrow> reminder_list rs = []"
    by (auto simp: reminder_list_def asked_list_def)
qed

text \<open>
  C13: An accepted payload becomes the event it describes. The payload is a request of the documented
  shape; title, description, location and status are those of the request, and the event is shown as
  free exactly when the request says it is not busy; the colour is one of Google's ids for the name
  given; the reminders are those asked for, each with its method and its minutes, pop-ups first,
  none when silence was asked for, within Google's limits, and the block is left out exactly when the
  request leaves it out; both boundaries are timed or both all-day as requested, the timed ones in
  the time zone of the request or else of the profile; and the event carries the key made of source
  and external id exactly when there is an external id.
\<close>

theorem accepted_event_faithful:
  assumes "serde_reads_request K" "map_payload K v p origin = Ok ev"
  shows "\<exists>r. event_request_of_json v = Some r \<and>
    \<not> is_blank (req_title r) \<and> summary ev = req_title r \<and> description ev = req_description r \<and>
    location ev = req_location r \<and> event_status ev = req_status r \<and> event_id ev = None \<and>
    transparency ev = (if req_busy r = Some False then Some ''transparent'' else None) \<and>
    color_id ev = Option.bind (req_color r) color_resolve \<and>
    (color_id ev = None \<longleftrightarrow> req_color r = None) \<and>
    (case event_reminders ev of
       None \<Rightarrow> req_reminders r = None
     | Some rs \<Rightarrow> \<exists>q. req_reminders r = Some q \<and> \<not> use_default rs \<and> reminders_legal rs \<and>
         reminder_list rs = asked_list q \<and> (silent q \<longrightarrow> reminder_list rs = [])) \<and>
    (case (event_start ev, event_end ev) of
       (Timed _ tz, Timed _ tz') \<Rightarrow> \<not> req_all_day r \<and> tz' = tz \<and>
         tz = (case req_timezone r of Some z \<Rightarrow> z | None \<Rightarrow> timezone p)
     | (AllDay _, AllDay _) \<Rightarrow> req_all_day r | _ \<Rightarrow> False) \<and>
    private_property UPSERT_PROPERTY ev =
      map_option (source_key (source_id p)) (req_external_id r)"
proof -
  obtain r where r: "event_request_of_json v = Some r" "to_google_event K r p origin = Ok ev"
    using assms serde_reads_requestD
    by (auto simp: map_payload_def outcome_simps event_request_parse_def split: sum.splits)
  from r(2) obtain tz where
    g: "\<not> is_blank (req_title r)" "summary ev = req_title r" "description ev = req_description r"
    "location ev = req_location r" "event_status ev = req_status r" "event_id ev = None"
    "transparency ev = (if req_busy r = Some False then Some ''transparent'' else None)"
    and zone: "tz = (case req_timezone r of Some z \<Rightarrow> z | None \<Rightarrow> timezone p)"
    and win: "(if req_all_day r then all_day_window K r origin else timed_window K r p tz origin)
       = Ok (event_start ev, event_end ev)"
    and col: "resolve_requested_color r origin = Inr (color_id ev)"
    and rem: "requested_reminders r origin = Inr (event_reminders ev)"
    by (rule to_google_event_OkE)
  have c1: "color_id ev = Option.bind (req_color r) color_resolve"
    and c2: "color_id ev = None \<longleftrightarrow> req_color r = None"
    using col by (auto simp: resolve_requested_color_Inr split: option.splits)
  have c3: "case event_reminders ev of
      None \<Rightarrow> req_reminders r = None
    | Some rs \<Rightarrow> \<exists>q. req_reminders r = Some q \<and> \<not> use_default rs \<and> reminders_legal rs \<and>
         reminder_list rs = asked_list q \<and> (silent q \<longrightarrow> reminder_list rs = [])"
    using rem to_reminders_legal to_reminders_list
    by (auto simp: requested_reminders_Inr split: option.splits)
  have c4: "case (event_start ev, event_end ev) of
       (Timed _ tz, Timed _ tz') \<Rightarrow> \<not> req_all_day r \<and> tz' = tz \<and>
         tz = (case req_timezone r of Some z \<Rightarrow> z | None \<Rightarrow> timezone p)
     | (AllDay _, AllDay _) \<Rightarrow> req_all_day r | _ \<Rightarrow> False"
    using win zone by (auto simp: all_day_window_Ok timed_window_Ok split: if_splits)
  show ?thesis
    by (intro exI [of _ r] conjI r(1) g c1 c2 c3 c4 to_google_event_key [OF r(2)])
qed

lemma accepted_event_faithful_witness:
  "\<exists>r. event_request_of_json demo_payload = Some r \<and> summary demo_event = req_title r \<and>
     private_property UPSERT_PROPERTY demo_event = map_option (source_key ''s'') (req_external_id r)"
  using accepted_event_faithful [OF demo_serde demo_maps [of "[]"]]
  by (auto simp: demo_profile_def)

text \<open>
  C14: No accepted event is inverted or empty. A timed event ends strictly after it starts, whether
  the end was given, computed from the duration in the request, or from the profile's or the
  built-in default; an all-day event covers a positive number of days and its end is the start plus
  that number.
\<close>

theorem accepted_event_forward:
  assumes "chrono_ok K" "to_google_event K r p origin = Ok ev"
  shows "if req_all_day r then
      \<exists>start stop days. all_day_start K (req_start r) = Inr start \<and> 0 < days \<and>
        days = (case req_duration_days r of Some d \<Rightarrow> d | None \<Rightarrow> 1) \<and>
        nd_plus_days K start days = Some stop \<and>
        event_start ev = AllDay (nd_format_ymd K start) \<and> event_end ev = AllDay (nd_format_ymd K stop)
    else
      \<exists>start stop tz. parse_rfc3339 K (req_start r) = Inr start \<and> \<not> dt_le K stop start \<and>
        tz_known K tz \<and> event_start ev = Timed (dt_to_rfc3339 K start) tz \<and>
        event_end ev = Timed (dt_to_rfc3339 K stop) tz"
proof -
  from assms(2) obtain tz where tz: "tz_known K tz"
    and win: "(if req_all_day r then all_day_window K r origin else timed_window K r p tz origin)
       = Ok (event_start ev, event_end ev)"
    by (rule to_google_event_OkE)
  show ?thesis
  proof (cases "req_all_day r")
    case True
    with win show ?thesis by (auto simp: all_day_window_Ok)
  next
    case False
    with win obtain start stop where "parse_rfc3339 K (req_start r) = Inr start"
      "timed_end K r p start origin = Ok stop"
      "event_start ev = Timed (dt_to_rfc3339 K start) tz"
      "event_end ev = Timed (dt_to_rfc3339 K stop) tz"
      by (auto simp: timed_window_Ok)
    moreover from this(2) have "\<not> dt_le K stop start"
      by (rule timed_end_after_start [OF assms(1)])
    ultimately show ?thesis using False tz by auto
  qed
qed

lemma accepted_event_forward_witness:
  "\<exists>start stop tz. parse_rfc3339 demo_crates ''T'' = Inr start \<and> \<not> dt_le demo_crates stop start \<and>
     event_end demo_event = Timed (dt_to_rfc3339 demo_crates stop) tz"
  using accepted_event_forward [OF demo_chrono demo_to_event [of "[]"]]
  by (auto simp: demo_request_def)

lemma mapped_event_in_range:
  assumes "map_payload K v p origin = Ok ev"
  shows "event_in_range ev"
proof -
  obtain r where "to_google_event K r p origin = Ok ev"
    using assms by (auto simp: map_payload_def outcome_simps)
  then have "requested_reminders r origin = Inr (event_reminders ev)"
    by (rule to_google_event_OkE)
  then have "reminders_legal rs" if "event_reminders ev = Some rs" for rs
    using that to_reminders_legal by (auto simp: requested_reminders_Inr split: option.splits)
  then show ?thesis
    by (force simp: event_in_range_def reminders_in_range_def reminders_legal_def
        MAX_REMINDER_MINUTES_def split: option.splits)
qed

text \<open>
  Every event the mapping accepts survives the wire: the JSON written for it is read back as
  the same event, with the optional fields that were not set left out.
\<close>

theorem accepted_event_roundtrip:
  assumes "map_payload K v p origin = Ok ev"
  shows "event_of_json (event_to_json ev) = Some ev"
  by (rule event_json_roundtrip [OF mapped_event_in_range [OF assms]])

lemma accepted_event_roundtrip_witness: "event_of_json (event_to_json demo_event) = Some demo_event"
  by (rule accepted_event_roundtrip [OF demo_maps [of "[]"]])

text \<open>
  Refusing a payload is final: every error of the mapping is a validation error and permanent,
  so neither the retry loop nor the worker treats it as passing.
\<close>

theorem mapping_errors_permanent:
  assumes "map_payload K v p origin = Err e"
  shows "is_ProfileValidation e \<and> \<not> error_is_transient e"
  using assms profile_validation_permanent
  by (auto simp: map_payload_def outcome_simps event_request_parse_def
      dest: mapping_error_kind split: sum.splits)

lemma mapping_errors_permanent_witness:
  "\<exists>e. map_payload demo_crates JNull demo_profile [] = Err e \<and> \<not> error_is_transient e"
proof -
  obtain e where e: "map_payload demo_crates JNull demo_profile [] = Err e"
    by (simp add: map_payload_def event_request_parse_def demo_crates_def event_request_of_json_def)
  with mapping_errors_permanent [OF e] show ?thesis by blast
qed

text \<open>
  Keys of different sources never meet. The separator cannot occur in a source id that a
  profile may have, so two keys are equal only for the same source and the same external id, and a
  source that knows another's ids can still reach only its own events.
\<close>

theorem keys_separate_sources:
  assumes "profile_wf tz p" "profile_wf tz' q"
  shows "source_key (source_id p) x = source_key (source_id q) y \<longleftrightarrow>
    source_id p = source_id q \<and> x = y"
  using assms source_key_inject by (simp add: profile_wf_def)

lemma demo_profile_wf: "profile_wf (tz_known demo_crates) demo_profile"
  by (simp add: profile_wf_def demo_profile_def demo_crates_def source_id_is_safe_def
      source_id_char_def is_ascii_alphanumeric_def byte_def)

lemma keys_separate_sources_witness:
  "source_key (source_id demo_profile) ''7'' \<noteq> source_key (source_id demo_profile) ''8''"
  using keys_separate_sources [OF demo_profile_wf demo_profile_wf, of "''7''" "''8''"] by simp

section \<open>Profiles\<close>

text \<open>
  Parsing a profile file accepts exactly the well-formed profiles of the version this build
  reads: the source id fit for a URL and a file name, a calendar named, the timezone known, a
  default length positive. A file that declares another version is refused as that, whatever the
  rest of it holds.
\<close>

theorem profile_parse_exact:
  "profile_parse T tz s origin = Inr p \<longleftrightarrow>
     toml_profile T s = Inr p \<and> profile_wf tz p \<and>
     declared_version T s \<in> {None, Some (int SUPPORTED_SCHEMA_VERSION)}"
  by (cases "declared_version T s") (auto simp: profile_parse_inv)

text \<open>
  A set of profiles is accepted exactly when no two share a source id, the identity that
  upserts and deletions rest on.
\<close>

theorem unique_source_ids:
  "validate_unique_source_ids ps = Inr () \<longleftrightarrow> distinct (map source_id ps)"
  by (rule validate_unique_iff)

end
