(* ===== verification/Google_Properties.thy ===== *)
theory Google_Properties
  imports Delivery_Race Request_Properties
begin

text \<open>
  What the calls to Google guarantee: the token, the retry loop, the client and a delivery, with a
  scripted outside to apply them to; and what concurrent deliveries can and cannot do.
\<close>

section \<open>A scripted outside\<close>

text \<open>The answers are a list, consumed one per request; the clock stands still.\<close>

definition demo_json :: "string \<Rightarrow> string + json" where
  "demo_json t =
     (let ev = JObj [(''id'', JStr ''g1''), (''summary'', JStr ''x''),
                     (''start'', JObj [(''date'', JStr ''d'')]), (''end'', JObj [(''date'', JStr ''e'')])]
      in if t = ''event'' then Inr ev
         else if t = ''events'' then Inr (JObj [(''items'', JArr [ev])])
         else if t = ''none'' then Inr (JObj [])
         else if t = ''calendars'' then
           Inr (JObj [(''items'', JArr [JObj [(''id'', JStr ''c1''), (''summary'', JStr ''b'')],
                                        JObj [(''id'', JStr ''c2''), (''summary'', JStr ''a'')]])])
         else Inl ''not JSON'')"

definition scripted :: "((string + http_response) list, unit) services" where
  "scripted =
     \<lparr>send_http = (\<lambda>req w. case w of [] \<Rightarrow> (Inl ''no answer'', []) | r # rs \<Rightarrow> (r, rs)),
      unix_clock = (\<lambda>w. (Inr 1000, w)), key_from_pem = (\<lambda>s. Inr ()),
      jwt_encode = (\<lambda>k c. Inr ''jwt''), read_json = demo_json, shape_error = (\<lambda>v. ''shape''),
      read_error_body = (\<lambda>s. None), status_text = show_nat\<rparr>"

text \<open>At most \<open>n\<close> retries.\<close>

fun retry_up_to :: "nat \<Rightarrow> 'w retrier" where
  "retry_up_to 0 op h =
     (case op h of
        (Success resp, h1) \<Rightarrow> (Inr resp, h1)
      | (Fatal e, h1) \<Rightarrow> (Inl e, h1)
      | (Retryable e, h1) \<Rightarrow> (Inl e, h1))"
| "retry_up_to (Suc n) op h =
     (case op h of
        (Success resp, h1) \<Rightarrow> (Inr resp, h1)
      | (Fatal e, h1) \<Rightarrow> (Inl e, h1)
      | (Retryable e, h1) \<Rightarrow> retry_up_to n op h1)"

lemma retry_up_to_run:
  "retry_run op h (fst (retry_up_to n op h)) (snd (retry_up_to n op h))"
proof (induction n arbitrary: h)
  case 0
  obtain a h1 where "op h = (a, h1)" by fastforce
  then show ?case by (cases a) (auto intro: retry_run.intros)
next
  case (Suc n)
  obtain a h1 where op: "op h = (a, h1)" by fastforce
  show ?case
  proof (cases a)
    case (Retryable e)
    have "h1\<lparr>outside := outside h1\<rparr> = h1" by simp
    with Suc.IH [of h1] op Retryable show ?thesis
      by (auto intro: retry_run.again [of op h e h1 "outside h1"])
  qed (use op in \<open>auto intro: retry_run.intros\<close>)
qed

lemma retry_up_to_ok: "retry_ok (retry_up_to n)"
  by (simp add: retry_ok_def retry_up_to_run)

lemma retry_up_to_time: "(\<And>w. pause w w) \<Longrightarrow> n \<le> m \<Longrightarrow> has_time pause n (retry_up_to m) op h"
proof (induction m arbitrary: n h)
  case (0 n h)
  obtain a h1 where op: "op h = (a, h1)" by fastforce
  then have "retry_up_to 0 op h = (attempt_result a, h1)" by (cases a) auto
  with op 0 show ?case
    unfolding has_time_def
    by (intro exI [of _ 0] exI [of _ a] exI [of _ h1]) (auto intro: attempts.intros)
next
  case (Suc m n h)
  obtain a h1 where op: "op h = (a, h1)" by fastforce
  show ?case
  proof (cases a)
    case (Retryable e)
    have same: "h1\<lparr>outside := outside h1\<rparr> = h1" by simp
    obtain k b h' where k: "attempts pause op k h1 b h'" "retry_up_to m op h1 = (attempt_result b, h')"
      "(\<exists>e. b = Retryable e) \<longrightarrow> n - 1 \<le> k"
    proof -
      have "n - 1 \<le> m" using Suc.prems(2) by simp
      with Suc.IH [of "n - 1" h1] Suc.prems(1) show ?thesis
        using that unfolding has_time_def by blast
    qed
    have "attempts pause op (Suc k) h b h'"
      using attempts.one_more [of op h e h1 pause "outside h1" k b h'] op Retryable k(1) Suc.prems(1) same
      by simp
    with k(2,3) op Retryable show ?thesis
      unfolding has_time_def by (intro exI [of _ "Suc k"]) auto
  next
    case (Success resp)
    with op show ?thesis
      unfolding has_time_def by (intro exI [of _ 0] exI [of _ a]) (auto intro: attempts.intros)
  next
    case (Fatal e)
    with op show ?thesis
      unfolding has_time_def by (intro exI [of _ 0] exI [of _ a]) (auto intro: attempts.intros)
  qed
qed

definition demo_credentials :: credentials where
  "demo_credentials = \<lparr>client_email = ''m'', private_key = ''k'', token_url = ''t''\<rparr>"

definition demo_google :: "((string + http_response) list, unit) google_env" where
  "demo_google = \<lparr>env_services = scripted, env_retry = retry_up_to 2,
     env_credentials = demo_credentials, env_client = client_new\<rparr>"

definition demo_hub_at :: "metrics \<Rightarrow> 'w \<Rightarrow> 'w hub" where
  "demo_hub_at m w =
     \<lparr>outside = w, token_cache = Some \<lparr>access_token = ''tok'', expires_at_secs = 5000\<rparr>,
      hub_metrics = m\<rparr>"

abbreviation demo_hub :: "'w \<Rightarrow> 'w hub" where
  "demo_hub \<equiv> demo_hub_at metrics_zero"

abbreviation answer :: "nat \<Rightarrow> string \<Rightarrow> string + http_response" where
  "answer status text \<equiv> Inr \<lparr>resp_status = status, resp_body = Inr text\<rparr>"

section \<open>Failures and retries\<close>

text \<open>
  The classification of a failed response. It is transient exactly for 429, for the 5xx range
  and for a 403 whose first reason is one of the three quota reasons; everything else, a 403 with
  no readable reason included, is permanent.
\<close>

theorem transient_exactly:
  "response_is_transient S resp \<longleftrightarrow>
     resp_status resp = 429 \<or> resp_status resp \<in> {500..599} \<or>
     resp_status resp = 403 \<and>
       extract_reason (read_error_body S) (response_text resp) \<in>
         Some ` {''rateLimitExceeded'', ''userRateLimitExceeded'', ''quotaExceeded''}"
  by (simp add: response_is_transient_def retry_is_transient_iff)

text \<open>
  C19: What the retry loop returns. A response comes out only with a success status, and was
  obtained with the token that is in the cache afterwards; an error is that of the last attempt,
  and is transient exactly when that attempt asked to be retried. A first attempt that succeeds or
  fails permanently is the only one.
\<close>

theorem send_with_retry_result:
  assumes "retry_ok retry" "send_with_retry S retry creds build h = (r, h')"
  shows "(case r of
      Inr resp \<Rightarrow> is_success resp \<and>
        (\<exists>h1 h2 tok st. get_token S creds h1 = (Inr tok, h2) \<and>
           hub_send S (build tok) h2 = (Inr resp, h') \<and>
           token_cache h' = Some st \<and> access_token st = tok)
    | Inl e \<Rightarrow>
        (\<exists>h1. client_attempt S creds build h1 =
           (if error_is_transient e then Retryable e else Fatal e, h'))) \<and>
    (\<forall>e h1. client_attempt S creds build h = (Fatal e, h1) \<longrightarrow> r = Inl e \<and> h' = h1) \<and>
    (\<forall>resp h1. client_attempt S creds build h = (Success resp, h1) \<longrightarrow> r = Inr resp \<and> h' = h1)"
proof -
  have 1: "case r of
      Inr resp \<Rightarrow> is_success resp \<and>
        (\<exists>h1 h2 tok st. get_token S creds h1 = (Inr tok, h2) \<and>
           hub_send S (build tok) h2 = (Inr resp, h') \<and>
           token_cache h' = Some st \<and> access_token st = tok)
    | Inl e \<Rightarrow> \<exists>h1. client_attempt S creds build h1 =
           (if error_is_transient e then Retryable e else Fatal e, h')"
    using send_Inr [OF assms(1), of S creds build h _ h'] send_Inl [OF assms(1), of S creds build h _ h']
      assms(2)
    by (cases r) (simp_all only: sum.case)
  have 2: "r = Inl e \<and> h' = h1" if "client_attempt S creds build h = (Fatal e, h1)" for e h1
    using send_fatal_once [OF assms(1) that] assms(2) by auto
  have 3: "r = Inr resp \<and> h' = h1" if "client_attempt S creds build h = (Success resp, h1)" for resp h1
    using send_success_once [OF assms(1) that] assms(2) by auto
  from 1 2 3 show ?thesis by blast
qed

lemma demo_token:
  "get_token scripted demo_credentials (demo_hub_at m w) = (Inr ''tok'', demo_hub_at m w)"
  by (simp add: get_token_def needs_refresh_def now_secs_def demo_hub_at_def scripted_def
      REFRESH_MARGIN_SECS_def)

lemma demo_attempt:
  "client_attempt scripted demo_credentials build (demo_hub_at m (answer 200 body # w))
   = (Success \<lparr>resp_status = 200, resp_body = Inr body\<rparr>, demo_hub_at m w)"
  by (simp add: client_attempt_def demo_token)
    (simp add: hub_send_def scripted_def demo_hub_at_def is_success_def)

lemma send_with_retry_result_witness:
  "send_with_retry scripted (retry_up_to 2) demo_credentials (api_request ''GET'' ''u'' NoBody)
     (demo_hub [answer 200 ''event'']) =
   (Inr \<lparr>resp_status = 200, resp_body = Inr ''event''\<rparr>, demo_hub [])"
proof -
  obtain r h' where s: "send_with_retry scripted (retry_up_to 2) demo_credentials
      (api_request ''GET'' ''u'' NoBody) (demo_hub [answer 200 ''event'']) = (r, h')"
    by fastforce
  from send_with_retry_result [OF retry_up_to_ok s] demo_attempt [where body = "''event''" and w = "[]"] s
  show ?thesis by simp
qed

text \<open>
  The token. A cached token is used again without a request exactly as long as it outlives the
  refresh margin at the moment of the call; otherwise a new one is fetched. What a call returns is
  what is cached afterwards, and a call that fails leaves the cache and the counters as they were.
\<close>

theorem token_reuse:
  assumes "token_cache h = Some st" "unix_clock S (outside h) = (Inr now, w)"
    "get_token S creds h = (r, h')"
  shows "(if now + REFRESH_MARGIN_SECS < expires_at_secs st
      then r = Inr (access_token st) \<and> h' = h\<lparr>outside := w\<rparr>
      else r = map_sum id fst (fst (fetch_token S creds (h\<lparr>outside := w\<rparr>)))) \<and>
    (case r of
       Inr tok \<Rightarrow> \<exists>st'. token_cache h' = Some st' \<and> access_token st' = tok
     | Inl e \<Rightarrow> token_cache h' = token_cache h \<and> hub_metrics h' = hub_metrics h)"
proof (cases "now + REFRESH_MARGIN_SECS < expires_at_secs st")
  case True
  from cached_token [OF assms(1,2) this] assms(1,3) True show ?thesis by auto
next
  case False
  then have "expires_at_secs st \<le> now + REFRESH_MARGIN_SECS"
    by (simp only: not_less)
  from stale_token_refetched [OF assms(1,2) this, of creds] assms(3) False
  have "r = map_sum id fst (fst (fetch_token S creds (h\<lparr>outside := w\<rparr>)))"
    by simp
  moreover have "case r of
       Inr tok \<Rightarrow> \<exists>st'. token_cache h' = Some st' \<and> access_token st' = tok
     | Inl e \<Rightarrow> token_cache h' = token_cache h \<and> hub_metrics h' = hub_metrics h"
  proof (cases r)
    case (Inl e)
    from get_token_err [OF assms(3) [unfolded Inl]] Inl show ?thesis by simp
  next
    case (Inr tok)
    from get_token_ok [OF assms(3) [unfolded Inr]] Inr show ?thesis by simp
  qed
  ultimately show ?thesis using False by simp
qed

lemma token_reuse_witness:
  "fst (get_token scripted demo_credentials (demo_hub [])) = Inr ''tok''"
  using token_reuse [of "demo_hub []" _ scripted 1000 "[]" demo_credentials, OF _ _ surjective_pairing]
  by (simp add: demo_hub_at_def scripted_def REFRESH_MARGIN_SECS_def)

section \<open>Calendars\<close>

text \<open>
  Finding before creating. When Google lists a calendar of that name, its id is returned and
  no further request is made; only when none is listed is one created, and then it is shared with
  the owner before its id is returned.
\<close>

theorem ensure_calendar_creates_last:
  assumes "list_calendars G h = (Inr cals, h1)"
  shows "if name \<in> snd ` set cals
    then \<exists>c. ensure_calendar G name owner h = (Inr (c, False), h1) \<and> (c, name) \<in> set cals
    else (case ensure_calendar G name owner h of
        (Inr (c, made), h') \<Rightarrow> made \<and> (\<exists>h2. share_calendar G c owner h2 = (Inr (), h'))
      | (Inl e, h') \<Rightarrow> create_calendar G name owner h1 = (Inl e, h'))"
proof (cases "name \<in> snd ` set cals")
  case True
  then obtain c where "(c, name) \<in> set cals" by auto
  from ensure_existing [OF assms this] True show ?thesis by simp
next
  case False
  have "\<exists>h2. share_calendar G c owner h2 = (Inr (), h')"
    if "create_calendar G name owner h1 = (Inr c, h')" for c h'
    using that by (auto simp: create_calendar_def split: prod.splits sum.splits)
  with False ensure_missing [OF assms False] show ?thesis
    by (auto split: prod.split sum.split)
qed

lemma demo_call:
  "call_google demo_google build (demo_hub_at m (answer 200 text # w))
   = (Inr \<lparr>resp_status = 200, resp_body = Inr text\<rparr>, demo_hub_at m w)"
  unfolding call_google_def demo_google_def google_env.simps
  by (rule send_success_once [OF retry_up_to_ok demo_attempt])

lemma demo_answer:
  "demo_json text = Inr v \<Longrightarrow> f v = Some a \<Longrightarrow>
   parse_response demo_google f what (call_google demo_google build (demo_hub_at m (answer 200 text # w)))
   = (Inr a, demo_hub_at m w)"
  by (simp add: demo_call parse_response_def response_json_def)
    (simp add: demo_google_def scripted_def)

lemma demo_calendars:
  "list_calendars demo_google (demo_hub_at m (answer 200 ''calendars'' # w)) =
     (Inr [(''c2'', ''a''), (''c1'', ''b'')], demo_hub_at m w)"
  unfolding list_calendars_def
  by (subst demo_answer)
    (auto simp: demo_json_def calendars_of_json_def calendar_pair_def sort_named_def
      List.map_filter_def byte_def)

lemma ensure_calendar_creates_last_witness:
  "\<exists>c. ensure_calendar demo_google ''a'' ''me'' (demo_hub [answer 200 ''calendars''])
     = (Inr (c, False), demo_hub [])"
  using ensure_calendar_creates_last [OF demo_calendars, of "''a''" "''me''"] by auto

text \<open>
  An outside that loses answers. \<open>at l m h\<close>: in the state \<open>h\<close> Google has carried out the request \<open>m\<close>
  times, and of the next answers to it \<open>l\<close> are lost. Google carries the request out every time it
  arrives, which is what it documents of inserting an event; a pause of the loop changes neither.
\<close>

definition answers_lost ::
  "('w, 'k) google_env \<Rightarrow> (string \<Rightarrow> http_request) \<Rightarrow> (json \<Rightarrow> 'a option) \<Rightarrow> ('w \<Rightarrow> 'w \<Rightarrow> bool) \<Rightarrow>
     (nat \<Rightarrow> nat \<Rightarrow> 'w hub \<Rightarrow> bool) \<Rightarrow> bool" where
  "answers_lost G build of_json pause at \<longleftrightarrow>
     (\<forall>l m h. at l m h \<longrightarrow>
        (\<exists>tok h1 r h2. get_token (env_services G) (env_credentials G) h = (Inr tok, h1) \<and>
           hub_send (env_services G) (build tok) h1 = (r, h2) \<and>
           (case l of
              Suc l' \<Rightarrow> (\<exists>e. r = Inl e) \<and>
                (\<forall>w. pause (outside h2) w \<longrightarrow> at l' (Suc m) (h2\<lparr>outside := w\<rparr>))
            | 0 \<Rightarrow> (\<exists>resp a. r = Inr resp \<and> is_success resp \<and>
                response_json (env_services G) of_json resp = Inr a) \<and> at 0 (Suc m) h2)))"

abbreviation creation :: "('w, 'k) google_env \<Rightarrow> string \<Rightarrow> google_event \<Rightarrow> string \<Rightarrow> http_request" where
  "creation G cal ev \<equiv> api_request ''POST'' (events_url G cal) (JsonBody (event_to_json ev))"

text \<open>
  C39: A lost answer creates the event again. The loop repeats a request whose connection fails, the
  creating POST included, with nothing in it that lets Google recognise the repetition: when the
  answers to the first \<open>n\<close> requests of a creation are lost and the schedule leaves time for \<open>n\<close>
  retries, the call reports one event and Google has carried out the creation \<open>n + 1\<close> times.
\<close>

theorem lost_answers_duplicate:
  assumes "answers_lost G (creation G cal ev) event_of_json pause at" "at n m h"
    "has_time pause n (env_retry G)
       (client_attempt (env_services G) (env_credentials G) (creation G cal ev)) h"
  shows "\<exists>created h'. create_event G cal ev h = (Inr created, h') \<and> at 0 (m + n + 1) h'"
proof -
  let ?op = "client_attempt (env_services G) (env_credentials G) (creation G cal ev)"
  let ?P = "\<lambda>l h. at l (m + n - l) h \<and> l \<le> n"
  have lost: "\<exists>e h1. ?op h = (Retryable e, h1) \<and> (\<forall>w. pause (outside h1) w \<longrightarrow> ?P l (h1\<lparr>outside := w\<rparr>))"
    if "?P (Suc l) h" for l h
  proof -
    have "Suc l \<le> n" using that by simp
    then have "m + n - l = Suc (m + n - Suc l)" by arith
    with assms(1) that show ?thesis
      unfolding answers_lost_def by (fastforce simp: client_attempt_def)
  qed
  have answered: "\<exists>resp h1. ?op h = (Success resp, h1) \<and> at 0 (m + n + 1) h1 \<and>
      (\<exists>a. response_json (env_services G) event_of_json resp = Inr a)" if "?P 0 h" for h
    using assms(1) that unfolding answers_lost_def by (fastforce simp: client_attempt_def)
  obtain h0 resp h' where "?P 0 h0" "?op h0 = (Success resp, h')" "env_retry G ?op h = (Inr resp, h')"
    using time_enough [of pause n "env_retry G" ?op h ?P] assms(2,3) lost answered by fastforce
  moreover from answered [OF this(1)] this(2) obtain a where
    "at 0 (m + n + 1) h'" "response_json (env_services G) event_of_json resp = Inr a"
    by auto
  ultimately show ?thesis
    by (simp add: create_event_def call_google_def send_with_retry_def parse_response_def)
qed

definition found_event :: google_event where
  "found_event = \<lparr>event_id = Some ''g1'', summary = ''x'', description = None, location = None,
     color_id = None, event_start = AllDay ''d'', event_end = AllDay ''e'', transparency = None,
     event_status = None, event_reminders = None, event_properties = None\<rparr>"

text \<open>An outside that counts the POSTs and loses as many answers as it is told to.\<close>

definition lossy :: "(nat \<times> nat, unit) services" where
  "lossy =
     \<lparr>send_http = (\<lambda>req (made, lose).
        if 0 < lose then (Inl ''connection reset'', (Suc made, lose - 1))
        else (answer 200 ''event'', (Suc made, 0))),
      unix_clock = (\<lambda>w. (Inr 1000, w)), key_from_pem = (\<lambda>s. Inr ()),
      jwt_encode = (\<lambda>k c. Inr ''jwt''), read_json = demo_json, shape_error = (\<lambda>v. ''shape''),
      read_error_body = (\<lambda>s. None), status_text = show_nat\<rparr>"

definition lossy_google :: "(nat \<times> nat, unit) google_env" where
  "lossy_google = \<lparr>env_services = lossy, env_retry = retry_up_to 2,
     env_credentials = demo_credentials, env_client = client_new\<rparr>"

lemma demo_event_json: "\<exists>ev. demo_json ''event'' = Inr ev \<and> (\<exists>g. event_of_json ev = Some g)"
  by (simp add: demo_json_def event_of_fields_def field_unfold field_or_def boundary_of_json_def)

lemma lossy_answers:
  "answers_lost lossy_google build event_of_json (=) (\<lambda>l m h. h = demo_hub (m, l))"
proof -
  have token: "get_token lossy demo_credentials (demo_hub w) = (Inr ''tok'', demo_hub w)" for w
    by (simp add: get_token_def needs_refresh_def now_secs_def demo_hub_at_def lossy_def
        REFRESH_MARGIN_SECS_def)
  have lost: "hub_send lossy req (demo_hub (m, Suc l)) = (Inl ''connection reset'', demo_hub (Suc m, l))"
    and sent: "hub_send lossy req (demo_hub (m, 0)) =
       (Inr \<lparr>resp_status = 200, resp_body = Inr ''event''\<rparr>, demo_hub (Suc m, 0))" for req m l
    by (simp_all add: hub_send_def lossy_def demo_hub_at_def)
  have reads: "\<exists>a. response_json lossy event_of_json \<lparr>resp_status = 200, resp_body = Inr ''event''\<rparr> = Inr a"
    using demo_event_json by (auto simp: response_json_def lossy_def)
  have same: "(demo_hub w)\<lparr>outside := outside (demo_hub w)\<rparr> = demo_hub w" for w :: "nat \<times> nat"
    by simp
  have env: "env_services lossy_google = lossy" "env_credentials lossy_google = demo_credentials"
    by (simp_all add: lossy_google_def)
  show ?thesis
    unfolding answers_lost_def env
  proof (intro allI impI)
    fix l m and h :: "(nat \<times> nat) hub"
    assume h: "h = demo_hub (m, l)"
    show "\<exists>tok h1 r h2. get_token lossy demo_credentials h = (Inr tok, h1) \<and>
        hub_send lossy (build tok) h1 = (r, h2) \<and>
        (case l of
           Suc l' \<Rightarrow> (\<exists>e. r = Inl e) \<and>
             (\<forall>w. outside h2 = w \<longrightarrow> h2\<lparr>outside := w\<rparr> = demo_hub (Suc m, l'))
         | 0 \<Rightarrow> (\<exists>resp a. r = Inr resp \<and> is_success resp \<and>
             response_json lossy event_of_json resp = Inr a) \<and> h2 = demo_hub (Suc m, 0))"
      unfolding h using token lost sent reads same
      by (cases l) (fastforce simp: is_success_def)+
  qed
qed

lemma lost_answers_duplicate_witness:
  "\<exists>created. create_event lossy_google ''cal'' found_event (demo_hub (0, 2)) =
     (Inr created, demo_hub (3, 0))"
proof -
  have "has_time (=) 2 (env_retry lossy_google) op h" for op h
    using retry_up_to_time [of "(=)" 2 2] by (simp add: lossy_google_def)
  from lost_answers_duplicate [OF lossy_answers _ this, where m = 0 and h = "demo_hub (0, 2)"] show ?thesis
    by (simp add: numeral_3_eq_3)
qed

section \<open>Deliveries\<close>

text \<open>
  C12: A delivery under a key converges. It searches for the key; when the search found an event with
  an id, that very event is replaced, and otherwise one is created, each time with the mapped event
  tagged with the key, which is where the next search looks for it; the id it reports is the one
  Google answered, or, when the answer has none, the one found or the empty one. The key is a function
  of the entry and its profile, so a redelivery searches for the same one.
\<close>

theorem delivery_converges:
  assumes "map_payload K (payload e) p (''profile '' @ source_id p) = Ok ev"
    "upsert_key e ev = Some k" "deliver K G e p h = (Ok d, h')"
  shows "del_key d = Some k \<and> private_property UPSERT_PROPERTY (tag_event (Some k) ev) = Some k \<and>
    (\<exists>found h1.
       find_event_by_property G (target_calendar_id p) UPSERT_PROPERTY k h = (Inr found, h1) \<and>
       (case Option.bind found event_id of
          None \<Rightarrow> \<exists>created. del_created d \<and> del_event_id d = unwrap_or [] (event_id created) \<and>
            create_event G (target_calendar_id p) (tag_event (Some k) ev) h1 = (Inr created, h')
        | Some i \<Rightarrow> \<exists>ev'. \<not> del_created d \<and> del_event_id d = unwrap_or i (event_id ev') \<and>
            update_event G (target_calendar_id p) i (tag_event (Some k) ev) h1 = (Inr ev', h')))"
proof -
  have "deliver_keyed G (target_calendar_id p) (tag_event (Some k) ev) k h = (Ok d, h')"
    using assms by (simp add: deliver_def Let_def)
  from deliver_keyed_Ok [OF this] tagged_with_key [OF assms(1,2)] show ?thesis by blast
qed

definition demo_item :: entry where
  "demo_item = \<lparr>entry_id = ''u'', entry_source = ''s'', received_at = ''now'',
     payload = demo_payload, idempotency_key = None\<rparr>"

lemma demo_item_key: "upsert_key demo_item demo_event = Some ''s:7''"
  by (simp add: upsert_key_def demo_event_def)

lemma demo_item_maps:
  "map_payload demo_crates (payload demo_item) demo_profile origin = Ok demo_event"
  by (simp add: demo_item_def demo_maps)

lemma demo_delivers:
  "deliver demo_crates demo_google demo_item demo_profile
     (demo_hub_at m [answer 200 ''events'', answer 200 ''event'']) =
   (Ok \<lparr>del_event_id = ''g1'', del_created = False, del_key = Some ''s:7''\<rparr>, demo_hub_at m [])"
proof -
  have ev: "event_of_json (JObj [(''id'', JStr ''g1''), (''summary'', JStr ''x''),
      (''start'', JObj [(''date'', JStr ''d'')]), (''end'', JObj [(''date'', JStr ''e'')])])
      = Some found_event"
    by (simp add: event_of_fields_def field_unfold field_or_def boundary_of_json_def found_event_def)
  have "find_event_by_property demo_google cal UPSERT_PROPERTY k
      (demo_hub_at m [answer 200 ''events'', answer 200 ''event'']) =
      (Inr (Some found_event), demo_hub_at m [answer 200 ''event''])" for cal k
    unfolding find_event_by_property_def list_events_by_property_def
    by (subst demo_answer [where a = "Some [found_event]"])
      (auto simp: demo_json_def field_or_def event_list_items_def ev simp del: event_of_json.simps)
  moreover have "update_event demo_google cal i g (demo_hub_at m [answer 200 ''event'']) =
      (Inr found_event, demo_hub_at m [])" for cal i g
    unfolding update_event_def
    by (subst demo_answer [where a = found_event])
      (auto simp: demo_json_def ev simp del: event_of_json.simps)
  ultimately show ?thesis
    by (simp add: deliver_def demo_item_maps demo_item_key deliver_keyed_def Let_def
        found_event_def unwrap_or_def)
qed

lemma delivery_converges_witness:
  "\<exists>found h1. find_event_by_property demo_google ''cal'' UPSERT_PROPERTY ''s:7''
      (demo_hub [answer 200 ''events'', answer 200 ''event'']) = (Inr found, h1) \<and>
    Option.bind found event_id \<noteq> None"
  using delivery_converges [OF demo_item_maps demo_item_key demo_delivers [of metrics_zero]]
  by (auto simp: demo_profile_def split: option.splits)

text \<open>
  C3: However many deliveries and deletions run at once, however their searches and writes
  interleave, and whichever answers of Google are lost and sent for again, a key is on at most one
  event more than there were creations under it whose answer was lost; when no answer is lost, no key
  is ever on two events. It starts from a calendar without duplicates, and a search sees every event
  created before it. The lock per key is what this rests on.
\<close>

theorem duplicates_only_from_lost_answers:
  assumes "distinct (map snd evs)" "race_reachable (race_start evs jobs) R"
  shows "count_list (map snd (on_calendar R)) k \<le> 1 + count_list (lost_answers R) k \<and>
    (lost_answers R = [] \<longrightarrow> distinct (map snd (on_calendar R)))"
proof -
  have "events_with R k \<le> 1 + count_list (lost_answers R) k" for k
    using reachable_inv [OF assms(2) start_inv [OF assms(1)]]
    by (simp add: race_inv_def copies_lost_def)
  then show ?thesis by (auto intro: counts_distinct)
qed

text \<open>One delivery whose first creation is answered into the void, and which sends it again.\<close>

lemma race_lost_answer:
  "\<exists>R. race_reachable (race_start [] [(Upsert, ''k'', 1)]) R \<and>
     on_calendar R = [(''1'', ''k''), (''2'', ''k'')] \<and> lost_answers R = [''k'']"
proof -
  let ?R = "\<lambda>evs ks held m s. \<lparr>on_calendar = evs, lost_answers = ks,
      race_locks = \<lparr>lock_table = [''k'' \<mapsto> 0], next_lock = 1\<rparr>, held_locks = held,
      tasks = [\<lparr>task_goal = Upsert, task_key = ''k'', task_resends = m, task_stage = s\<rparr>]\<rparr>"
  note defs = move_def resend_def finish_def add_event_def send_again_def lose_answer_def
  have 1: "race_step (race_start [] [(Upsert, ''k'', 1)]) (?R [] [] {} 1 (Fetched 0))"
    using race_step.fetch [where n = 0 and l = 0 and R = "race_start [] [(Upsert, ''k'', 1)]"
        and L = "\<lparr>lock_table = [''k'' \<mapsto> 0], next_lock = 1\<rparr>"]
    by (simp add: race_start_def for_key_def key_locks_new_def defs)
  have 2: "race_step (?R [] [] {} 1 (Fetched 0)) (?R [] [] {0} 1 (Holding 0))"
    using race_step.acquire [where R = "?R [] [] {} 1 (Fetched 0)" and n = 0 and l = 0] by (simp add: defs)
  have 3: "race_step (?R [] [] {0} 1 (Holding 0)) (?R [] [] {0} 1 (Looked 0 None))"
    using race_step.look [where R = "?R [] [] {0} 1 (Holding 0)" and n = 0 and l = 0] by (simp add: defs)
  have 4: "race_step (?R [] [] {0} 1 (Looked 0 None)) (?R [(''1'', ''k'')] [''k''] {0} 0 (Looked 0 None))"
    using race_step.create_again [where R = "?R [] [] {0} 1 (Looked 0 None)" and n = 0 and l = 0 and i = "''1''"] by (simp add: defs)
  have 5: "race_step (?R [(''1'', ''k'')] [''k''] {0} 0 (Looked 0 None))
      (?R [(''1'', ''k''), (''2'', ''k'')] [''k''] {} 0 Over)"
    using race_step.create [where R = "?R [(''1'', ''k'')] [''k''] {0} 0 (Looked 0 None)" and n = 0 and l = 0 and i = "''2''"]
    by (simp add: defs)
  have "race_step\<^sup>*\<^sup>* (race_start [] [(Upsert, ''k'', 1)]) (?R [(''1'', ''k''), (''2'', ''k'')] [''k''] {} 0 Over)"
    using 1 2 3 4 5 by (meson rtranclp.rtrancl_into_rtrancl rtranclp.rtrancl_refl)
  then show ?thesis
    by (intro exI [of _ "?R [(''1'', ''k''), (''2'', ''k'')] [''k''] {} 0 Over"])
      (simp add: race_reachable_def)
qed

lemma duplicates_only_from_lost_answers_witness:
  "\<exists>R. race_reachable (race_start [] [(Upsert, ''k'', 1)]) R \<and>
     on_calendar R = [(''1'', ''k''), (''2'', ''k'')] \<and>
     count_list (map snd (on_calendar R)) ''k'' \<le> 1 + count_list (lost_answers R) ''k''"
  using duplicates_only_from_lost_answers [where evs = "[]"] race_lost_answer by (metis distinct.simps(1) list.simps(8))

text \<open>
  The locks never block for good. Every run of the tasks is finite, at most four steps for each and
  one for every time a write is sent again, and a state in which nothing can step is one in which
  every task has finished.
\<close>

theorem races_finish:
  assumes "distinct (map snd evs)" "(race_step ^^ n) (race_start evs jobs) R"
  shows "n \<le> sum_list (map (\<lambda>(g, k, m). 4 + m) jobs) \<and> (all_over R \<or> (\<exists>R'. race_step R R'))"
proof -
  have "n + race_rank R \<le> race_rank (race_start evs jobs)"
    by (rule race.run_bounded [OF assms(2) start_inv [OF assms(1)]])
  moreover have "race_rank (race_start evs jobs) = sum_list (map (\<lambda>(g, k, m). 4 + m) jobs)"
    by (induction jobs) (auto simp: race_rank_def race_start_def)
  moreover have "race_inv R"
    by (rule race.counted_run_keeps [OF assms(2) start_inv [OF assms(1)]])
  ultimately show ?thesis
    using race.goes_on by force
qed

lemma races_finish_witness:
  "\<exists>R. race_step (race_start [] [(Upsert, ''k'', 1)]) R"
  using races_finish [of "[]" 0 "[(Upsert, ''k'', 1)]" "race_start [] [(Upsert, ''k'', 1)]"]
  by (auto simp: all_over_def race_start_def)

text \<open>
  One lock per key. Two tasks that ask for the same key get the same lock, and two that ask for
  different keys never do, whatever was asked for before.
\<close>

theorem one_lock_per_key:
  assumes "key_locks_wf L" "for_key k L = (l, L1)" "for_key k' L1 = (l', L2)"
  shows "(l = l' \<longleftrightarrow> k = k') \<and> key_locks_wf L2"
proof -
  have "locks.get_all [k, k'] L = ([l, l'], L2)"
    using assms(2,3) by simp
  from locks.same_lock_iff [OF assms(1) this, of 0 1] locks.get_all_locks [OF assms(1) this]
  show ?thesis by simp
qed

lemma one_lock_per_key_witness:
  "fst (for_key ''b'' (snd (for_key ''a'' key_locks_new))) \<noteq> fst (for_key ''a'' key_locks_new)"
proof -
  have "key_locks_wf key_locks_new"
    by (simp add: key_locks_wf_def key_locks_new_def)
  from one_lock_per_key [OF this surjective_pairing surjective_pairing, of "''a''" "''b''"]
  show ?thesis by simp
qed

end
