(* ===== verification/Service_Properties.thy ===== *)
theory Service_Properties
  imports Ingest Worker Google_Properties Journal_Properties
begin

text \<open>
  What the service guarantees as a whole: from the request at the door to the journal, and from the
  journal to Google and back. Every guarantee is applied to a service with the demo journal and the
  scripted outside.
\<close>

section \<open>A concrete service\<close>

definition demo_env :: "((string + http_response) list, unit, int, int) app_env" where
  "demo_env = \<lparr>env_crates = demo_crates, env_google = demo_google, env_journal = demo_journal,
     env_encoder = demo_enc, env_decoder = demo_dec,
     env_append_faults = (\<lambda>w. (no_append_faults, w)), env_read_fault = (\<lambda>w. (None, w)),
     env_rewrite_faults = (\<lambda>w. (no_rewrite_faults, w)), env_now = (\<lambda>w. (''now'', w)),
     env_uuid = (\<lambda>w. (''u'', w)), env_version = ''1''\<rparr>"

definition demo_app :: "log_record list \<Rightarrow> 'w \<Rightarrow> 'w app" where
  "demo_app rs w = (app_new [''s'' \<mapsto> demo_profile] (demo_disk rs) w)\<lparr>app_hub := demo_hub w\<rparr>"

lemma demo_app_codec: "app_codec demo_env"
  by (simp add: app_codec_def demo_env_def demo_codec)

lemma demo_whole_writes: "whole_writes demo_env"
  by (simp add: whole_writes_def demo_env_def no_append_faults_def)

lemma demo_app_holds: "app_holds demo_env rs (demo_app rs w)"
  using demo_holds by (simp add: app_holds_def demo_env_def demo_app_def app_new_def)

lemma demo_authenticate: "authenticate (demo_app rs w) ''s'' (Client ''s'') = Inr demo_profile"
  by (simp add: authenticate_def demo_app_def app_new_def)

section \<open>At the door\<close>

text \<open>
  C15: Who may post as a source. The admin, and the client whose name is the source id, for a source
  that has a profile; every other caller gets one and the same answer, which does not tell an
  unknown source from a foreign token.
\<close>

theorem only_the_source_itself:
  "case authenticate A src who of
     Inr p \<Rightarrow> app_profiles A src = Some p \<and> who \<in> {Admin, Client src}
   | Inl r \<Rightarrow> r = unauthorized \<and> \<not> (app_profiles A src \<noteq> None \<and> who \<in> {Admin, Client src})"
  by (auto simp: authenticate_def split: option.split caller.split)

lemma app_append_Inr:
  assumes "app_codec E" "app_holds E rs A" "app_append E r A = (Inr u, A')"
  shows "app_holds E (rs @ [r]) A'"
proof -
  obtain w where "journal_append (env_encoder E) (env_journal E) (fst (env_append_faults E w)) r
      (app_files A) = (Inr u, app_files A')"
    using app_append_step [OF assms(3)] by blast
  from append_holds [OF _ _ this] assms(1,2) show ?thesis
    by (simp add: app_codec_def app_holds_def)
qed

lemma accepted_facts:
  assumes "app_codec E" "serde_reads_request (env_crates E)" "app_holds E rs A"
    "ingest E src who header body A = (Some (202, reply), A')"
  shows "\<exists>e p. app_holds E (rs @ [EntryRec e]) A' \<and>
    app_profiles A src = Some p \<and> who \<in> {Admin, Client src} \<and>
    entry_source e = source_id p \<and> payload e = body \<and>
    json_get reply ''entry_id'' = Some (JStr (entry_id e)) \<and>
    (\<exists>ev. map_payload (env_crates E) (payload e) p (''profile '' @ source_id p) = Ok ev \<and>
       upsert_key e ev \<noteq> None) \<and>
    hub_metrics (app_hub A') = count_accepted (hub_metrics (app_hub A)) \<and>
    idempotency_key e =
      (case header of Some s \<Rightarrow> if is_blank s then None else Some (trim s) | None \<Rightarrow> None)"
proof -
  obtain p where adm: "admit E A src who header body = Inr p"
    using assms(4)
    by (auto simp: ingest_def admit_def error_reply_def refuse_with_def unauthorized_def
        requires_an_id_def must_be_mappable_def Let_def authenticate_def
        split: sum.splits verdict.splits option.splits outcome.splits caller.splits if_splits)
  obtain e A1 where b: "build_entry E (source_id p) header body A = (e, A1)" by fastforce
  obtain u A2 where acc: "app_append E (EntryRec e) A1 = (Inr u, A2)"
    and fin: "reply = JObj [(''status'', JStr ''accepted''), (''entry_id'', JStr (entry_id e))]"
      "A' = on_metrics count_accepted A2"
    using assms(4) adm b
    by (auto simp: ingest_def app_append_eqs refuse_with_def error_reply_def split: prod.splits sum.splits)
  note e = build_entry_fields [OF b]
  have "app_holds E rs A1"
    using assms(3) e(4) by (simp add: app_holds_def)
  from app_append_Inr [OF assms(1) this acc] have "app_holds E (rs @ [EntryRec e]) A'"
    by (simp add: fin(2) app_holds_def)
  moreover obtain ev where "map_payload (env_crates E) (payload e) p (''profile '' @ source_id p) = Ok ev"
    using admit_Inr(4) [OF adm] e(2) by auto
  moreover from this have "upsert_key e ev \<noteq> None"
    by (rule admitted_has_key [OF assms(2) adm b])
  moreover have "hub_metrics (app_hub A') = count_accepted (hub_metrics (app_hub A))"
    using app_append_frame [OF acc] e(6) by (simp add: fin(2) on_metrics_def)
  ultimately show ?thesis
    using admit_Inr(1,2) [OF adm] e(1,2,3) fin(1) by auto
qed

text \<open>
  C6: What 202 means. When a post is answered 202, the caller was entitled to the source, and the
  journal on disk is the one before with one entry added: the payload as sent, under the id in the
  reply, of a shape that maps to an event and with a key under which the delivery will find that
  event again; the accepted counter went up by one.
\<close>

theorem accepted_is_durable:
  assumes "app_codec E" "serde_reads_request (env_crates E)" "app_holds E rs A"
    "ingest E src who header body A = (Some (202, reply), A')"
  shows "\<exists>e p. app_holds E (rs @ [EntryRec e]) A' \<and>
    app_profiles A src = Some p \<and> who \<in> {Admin, Client src} \<and>
    entry_source e = source_id p \<and> payload e = body \<and>
    json_get reply ''entry_id'' = Some (JStr (entry_id e)) \<and>
    (\<exists>ev. map_payload (env_crates E) (payload e) p (''profile '' @ source_id p) = Ok ev \<and>
       upsert_key e ev \<noteq> None) \<and>
    hub_metrics (app_hub A') = count_accepted (hub_metrics (app_hub A))"
  using accepted_facts [OF assms] by blast

lemma demo_admits:
  "admit demo_env (demo_app rs w) ''s'' (Client ''s'') None demo_payload = Inr demo_profile"
proof -
  have "requires_an_id demo_payload None = None"
    by (simp add: requires_an_id_def demo_payload_def)
  then show ?thesis
    by (simp add: admit_def demo_authenticate must_be_mappable_def demo_env_def demo_maps)
qed

lemma demo_build:
  "build_entry demo_env ''s'' None demo_payload (demo_app rs w) = (demo_item, demo_app rs w)"
  by (simp add: build_entry_def ask_def demo_env_def demo_item_def demo_app_def demo_hub_at_def app_new_def)

lemma demo_item_length: "length (encoded demo_enc (EntryRec demo_item)) < 20000"
  by (simp add: demo_encoded demo_item_def demo_payload_def entry_fields_def byte_def)

lemma demo_item_append:
  "app_append demo_env (EntryRec demo_item) (demo_app [] w) =
   (Inr (), demo_app [EntryRec demo_item] w)"
proof -
  have "journal_append demo_enc demo_journal no_append_faults (EntryRec demo_item) (demo_disk []) =
      (Inr (), demo_disk [EntryRec demo_item])"
    using demo_append [of "demo_disk []" "EntryRec demo_item"] demo_item_length
    by (simp add: demo_disk_def file_text_def image_of_def)
  then show ?thesis
    by (simp add: app_append_def ask_def demo_env_def demo_app_def app_new_def demo_hub_at_def)
qed

lemma demo_ingest:
  "ingest demo_env ''s'' (Client ''s'') None demo_payload (demo_app [] w) =
   (Some (202, JObj [(''status'', JStr ''accepted''), (''entry_id'', JStr ''u'')]),
    on_metrics count_accepted (demo_app [EntryRec demo_item] w))"
proof -
  have "source_id demo_profile = ''s''" by (simp add: demo_profile_def)
  moreover have "entry_id demo_item = ''u''"
    by (simp add: demo_item_def)
  ultimately show ?thesis
    by (simp add: ingest_def demo_admits demo_build app_append_eqs demo_item_append)
qed

lemma accepted_is_durable_witness:
  "\<exists>e. app_holds demo_env ([] @ [EntryRec e])
     (on_metrics count_accepted (demo_app [EntryRec demo_item] [])) \<and> payload e = demo_payload"
  using accepted_is_durable [OF demo_app_codec _ demo_app_holds demo_ingest] demo_serde
  by (auto simp: demo_env_def)

text \<open>
  A refused post leaves no trace. When the answer is 401 or 422, or the handler panics before
  the journal, the state is the one before, the journal file included.
\<close>

theorem refused_leaves_no_trace:
  assumes "ingest E src who header body A = (reply, A')"
    "reply = None \<or> (\<exists>status j. reply = Some (status, j) \<and> status \<in> {401, 422})"
  shows "A' = A"
  using assms
  by (auto simp: ingest_def refuse_with_def error_reply_def split: sum.splits prod.splits)

lemma refused_leaves_no_trace_witness:
  "snd (ingest demo_env ''other'' Admin None demo_payload (demo_app [] [])) = demo_app [] []"
proof -
  have "ingest demo_env ''other'' Admin None demo_payload (demo_app [] []) =
      (Some unauthorized, demo_app [] [])"
    by (simp add: ingest_def admit_def authenticate_def demo_app_def app_new_def)
  from refused_leaves_no_trace [OF this] this show ?thesis
    by (simp add: unauthorized_def error_reply_def)
qed

text \<open>
  A synchronous post that Google fails is not lost. Answered 502, its entry is in the journal
  as one still to deliver; answered 200, it is there too, marked done unless the marker itself
  could not be written.
\<close>

theorem sync_keeps_the_entry:
  assumes "app_codec E" "whole_writes E" "app_holds E rs A"
    "ingest_sync E src who header body A = (Some (status, reply), A')" "status \<in> {200, 502}"
  shows "\<exists>e. payload e = body \<and>
    (if status = 502 then app_holds E (rs @ [EntryRec e]) A'
     else app_holds E (rs @ [EntryRec e]) A' \<or>
          app_holds E (rs @ [EntryRec e, Done (entry_id e)]) A')"
proof -
  obtain p where adm: "admit E A src who header body = Inr p"
    using assms(4,5)
    by (auto simp: ingest_sync_def admit_def error_reply_def refuse_with_def unauthorized_def
        requires_an_id_def must_be_mappable_def Let_def authenticate_def
        split: sum.splits verdict.splits option.splits outcome.splits caller.splits if_splits)
  obtain e A1 where b: "build_entry E (source_id p) header body A = (e, A1)" by fastforce
  obtain r A2 where acc: "app_append E (EntryRec e) A1 = (r, A2)" by fastforce
  obtain d A3 where del: "app_deliver E e p (on_metrics count_accepted A2) = (d, A3)" by fastforce
  obtain m A4 where mark: "app_append E (Done (entry_id e)) A3 = (m, A4)" by fastforce
  note e = build_entry_fields [OF b]
  have "\<exists>u. r = Inr u"
    using assms(4,5) adm b acc
    by (auto simp: ingest_sync_def app_append_eqs refuse_with_def error_reply_def split: sum.splits)
  then obtain u where r: "r = Inr u" by blast
  have "app_holds E rs A1"
    using assms(3) e(4) by (simp add: app_holds_def)
  from app_append_Inr [OF assms(1) this acc [unfolded r]] have h3: "app_holds E (rs @ [EntryRec e]) A3"
    using app_deliver_frame [OF del] by (simp add: app_holds_def)
  have "status = 502 \<and> A' = A3 \<or> status = 200 \<and> A' = A4"
    using assms(4) adm b acc del mark r
    by (auto simp: ingest_sync_def app_append_eqs refuse_with_def error_reply_def split: outcome.splits)
  with h3 app_append_holds [OF assms(1,2) h3 mark] e(2) show ?thesis by auto
qed

lemma demo_no_answer:
  "client_attempt scripted demo_credentials build (demo_hub_at m []) =
     (Retryable (GoogleApi (''request to the Calendar API failed: '' @ ''no answer'')
        (''transient network failure '' @ em_dash @ '' retrying automatically'') True),
      demo_hub_at m [])"
  by (simp add: client_attempt_def demo_token) (simp add: hub_send_def scripted_def demo_hub_at_def)

lemma demo_undelivered:
  "\<exists>e. deliver demo_crates demo_google demo_item demo_profile (demo_hub_at m []) =
     (Err e, demo_hub_at m []) \<and> error_is_transient e"
proof -
  have "call_google demo_google build (demo_hub_at m []) =
      (Inl (GoogleApi (''request to the Calendar API failed: '' @ ''no answer'')
        (''transient network failure '' @ em_dash @ '' retrying automatically'') True),
       demo_hub_at m [])" for build
    by (simp add: call_google_def demo_google_def send_with_retry_def numeral_2_eq_2 demo_no_answer)
  then show ?thesis
    by (simp add: deliver_def demo_item_maps demo_item_key Let_def deliver_keyed_def
        find_event_by_property_def list_events_by_property_def parse_response_def)
qed

lemma demo_sync:
  "\<exists>e A'. ingest_sync demo_env ''s'' (Client ''s'') None demo_payload (demo_app [] []) =
     (Some (refuse_with 502 e), A')"
proof -
  have src: "source_id demo_profile = ''s''" by (simp add: demo_profile_def)
  have hub: "app_hub (on_metrics count_accepted (demo_app [EntryRec demo_item] [])) =
      demo_hub_at (count_accepted metrics_zero) []"
    by (simp add: on_metrics_def demo_app_def app_new_def demo_hub_at_def)
  obtain e where "deliver demo_crates demo_google demo_item demo_profile
      (demo_hub_at (count_accepted metrics_zero) []) =
      (Err e, demo_hub_at (count_accepted metrics_zero) [])"
    using demo_undelivered by blast
  then have "\<exists>A'. app_deliver demo_env demo_item demo_profile
      (on_metrics count_accepted (demo_app [EntryRec demo_item] [])) = (Err e, A')"
    unfolding app_deliver_def hub by (simp add: demo_env_def)
  then show ?thesis
    by (auto simp: ingest_sync_def demo_admits demo_build src app_append_eqs demo_item_append)
qed

lemma sync_keeps_the_entry_witness:
  "\<exists>e A'. app_holds demo_env ([] @ [EntryRec e]) A' \<and> payload e = demo_payload"
proof -
  obtain err A' where "ingest_sync demo_env ''s'' (Client ''s'') None demo_payload (demo_app [] []) =
      (Some (502, snd (refuse_with 502 err)), A')"
    using demo_sync by (auto simp: refuse_with_def error_reply_def)
  from sync_keeps_the_entry [OF demo_app_codec demo_whole_writes demo_app_holds this] show ?thesis
    by auto
qed

text \<open>
  C16: A deletion removes the event its caller named and no other. Answered 200, the caller was
  entitled to the source, the event deleted is the one found on that source's calendar under the
  source's own key, and the lookup ran before the deletion, on the lock of that key.
\<close>

theorem delete_only_own_event:
  assumes "delete_event E src ext who A = ((200, reply), A')"
  shows "\<exists>p ev i h1. app_profiles A src = Some p \<and> who \<in> {Admin, Client src} \<and>
    find_event_by_property (env_google E) (target_calendar_id p) UPSERT_PROPERTY
      (source_key (source_id p) ext) (app_hub A) = (Inr (Some ev), h1) \<and>
    event_id ev = Some i \<and>
    client_delete_event (env_google E) (target_calendar_id p) i h1 = (Inr (), app_hub A') \<and>
    app_locks A' = snd (for_key (source_key (source_id p) ext) (app_locks A)) \<and>
    app_files A' = app_files A"
proof -
  obtain p where p: "authenticate A src who = Inr p"
    using assms by (auto simp: delete_event_def unauthorized_def error_reply_def
        dest: authenticate_Inl split: sum.splits)
  show ?thesis
    using assms p
    by (auto simp: delete_event_def authenticate_Inr Let_def refuse_with_def error_reply_def
        split: prod.splits sum.splits option.splits)
qed

lemma demo_found:
  "find_event_by_property demo_google cal UPSERT_PROPERTY k (demo_hub (answer 200 ''events'' # w)) =
     (Inr (Some found_event), demo_hub w)"
proof -
  have "event_of_json (JObj [(''id'', JStr ''g1''), (''summary'', JStr ''x''),
      (''start'', JObj [(''date'', JStr ''d'')]), (''end'', JObj [(''date'', JStr ''e'')])])
      = Some found_event"
    by (simp add: event_of_fields_def field_unfold field_or_def boundary_of_json_def found_event_def)
  then show ?thesis
    unfolding find_event_by_property_def list_events_by_property_def
    by (subst demo_answer [where a = "Some [found_event]"])
      (auto simp: demo_json_def field_or_def event_list_items_def simp del: event_of_json.simps)
qed

lemma demo_app_hub:
  "app_hub ((demo_app rs w)\<lparr>app_locks := L\<rparr>) = demo_hub w"
  by (simp add: demo_app_def app_new_def)

lemma demo_deleted:
  "delete_event demo_env ''s'' ''7'' (Client ''s'') (demo_app [] [answer 200 ''events'', answer 204 []]) =
     ((200, JObj [(''status'', JStr ''deleted''), (''event_id'', JStr ''g1'')]),
      (demo_app [] [])\<lparr>app_locks := snd (for_key ''s:7'' key_locks_new)\<rparr>)"
proof -
  have att: "client_attempt scripted demo_credentials build (demo_hub [answer 204 []]) =
      (Success \<lparr>resp_status = 204, resp_body = Inr []\<rparr>, demo_hub [])" for build
    by (simp add: client_attempt_def demo_token)
      (simp add: hub_send_def scripted_def demo_hub_at_def is_success_def)
  have gone: "client_delete_event demo_google cal i (demo_hub [answer 204 []]) = (Inr (), demo_hub [])"
    for cal i
    unfolding client_delete_event_def call_google_def demo_google_def google_env.simps
    by (simp add: send_success_once [OF retry_up_to_ok att] unit_response_def)
  have env: "env_google demo_env = demo_google" by (simp add: demo_env_def)
  have prof: "source_key (source_id demo_profile) ''7'' = ''s:7''"
    by (simp add: source_key_def demo_profile_def)
  have "event_id found_event = Some ''g1''" by (simp add: found_event_def)
  then show ?thesis
    unfolding delete_event_def demo_authenticate sum.case Let_def env prof
    by (simp add: demo_app_hub demo_found gone) (simp add: demo_app_def app_new_def)
qed

lemma delete_only_own_event_witness:
  "\<exists>h1. client_delete_event demo_google ''cal'' ''g1'' h1 = (Inr (), demo_hub [])"
  using delete_only_own_event [OF demo_deleted]
  by (auto simp: demo_env_def demo_app_def app_new_def demo_profile_def demo_found found_event_def)

text \<open>
  C40: A payload can take a handler down. An entitled caller that sends an otherwise valid request
  whose duration takes the start out of the range of the date library gets no answer: the sum
  panics inside the check that is meant to answer 422, for the asynchronous and the synchronous
  post alike.
\<close>

theorem oversized_duration_panics:
  assumes "authenticate A src who = Inr p" "requires_an_id body header = None"
    "request_from_value (env_crates E) body = Inr r"
    "\<not> is_blank (req_title r)" "\<not> (\<exists>x. req_external_id r = Some x \<and> is_blank x)"
    "req_timezone r = None" "tz_known (env_crates E) (timezone p)"
    "\<not> req_all_day r" "parse_rfc3339 (env_crates E) (req_start r) = Inr start"
    "req_end r = None" "req_duration_minutes r = Some m" "0 < m"
    "dt_plus_minutes (env_crates E) start m = None"
  shows "ingest E src who header body A = (None, A) \<and> ingest_sync E src who header body A = (None, A)"
proof -
  have "map_payload (env_crates E) body p origin = Panic" for origin
    using assms
    by (auto simp: map_payload_def event_request_parse_def to_google_event_def validate_timezone_def
        timed_window_def timed_end_def Let_def split: option.split)
  then have "admit E A src who header body = Inl Crash"
    using assms(1,2) by (simp add: admit_def must_be_mappable_def)
  then show ?thesis by (simp add: ingest_def ingest_sync_def)
qed

definition long_payload :: json where
  "long_payload = JObj [(''title'', JStr ''x''), (''start'', JStr ''T''),
     (''external_id'', JStr ''7''), (''duration_minutes'', JInt 100000)]"

lemma oversized_duration_panics_witness:
  "fst (ingest demo_env ''s'' (Client ''s'') None long_payload (demo_app [] [])) = None"
proof -
  let ?r = "demo_request\<lparr>req_duration_minutes := Some 100000\<rparr>"
  have req: "request_from_value (env_crates demo_env) long_payload = Inr ?r"
    by (simp add: demo_env_def demo_crates_def long_payload_def demo_request_def
        event_request_of_json_def known_only_def event_request_fields_def event_request_of_fields_def
        field_unfold field_or_def i64_min_def i64_max_def)
  have "requires_an_id long_payload None = None"
    by (simp add: requires_an_id_def long_payload_def)
  from oversized_duration_panics [OF demo_authenticate this req, where start = 1 and m = 100000]
  show ?thesis
    by (simp add: demo_request_def demo_env_def demo_crates_def demo_profile_def demo_read_def
        demo_add_def)
qed

section \<open>The worker\<close>

text \<open>
  C8: A pass over the queue loses nothing. Whatever happens to the deliveries and to the markers,
  an entry that was waiting before the pass is afterwards still waiting, or set aside with a
  reason, or its delivery succeeded when its turn came in this pass. Ids are distinct among the waiting entries, and no write
  is cut short.
\<close>

theorem drain_loses_nothing:
  assumes "app_codec E" "whole_writes E" "app_holds E rs A"
    "distinct (map entry_id (pending rs))" "e \<in> set (pending rs)"
    "drain_once_tracking E webhook A perm = (res, A', perm')"
  shows "\<exists>rs'. app_holds E rs' A' \<and>
    (e \<in> set (pending rs') \<or> (\<exists>why stamp. (e, why, stamp) \<in> set (dead rs')) \<or>
     (\<exists>B p d. (e, B) \<in> set (drain_visits E webhook (app_profiles A) (pending rs)
                              (snd (app_pending E A)) perm) \<and>
        app_profiles A (entry_source e) = Some p \<and> fst (app_deliver E e p B) = Ok d))"
proof -
  obtain ms where ms: "app_holds E (rs @ ms) A'"
    "\<forall>m \<in> set ms.
       \<exists>(e, B) \<in> set (drain_visits E webhook (app_profiles A) (pending rs) (snd (app_pending E A)) perm).
         marks_entry E (app_profiles A) e B m"
    using drain_log [OF assms(1-3,6)] by blast
  have same: "e' = e" if "e' \<in> set (pending rs)" "entry_id e' = entry_id e" for e'
    using assms(4,5) that by (auto simp: distinct_map inj_on_def)
  show ?thesis
  proof (cases "Done (entry_id e) \<in> set ms")
    case True
    with ms(2) obtain e' B where v:
      "(e', B) \<in> set (drain_visits E webhook (app_profiles A) (pending rs) (snd (app_pending E A)) perm)"
      "marks_entry E (app_profiles A) e' B (Done (entry_id e))"
      by blast
    then have "e' = e"
      using same [OF drain_visits_entries [OF v(1)]] by (auto simp: marks_entry_def)
    with v ms(1) show ?thesis by (fastforce simp: marks_entry_def)
  next
    case False
    have "\<forall>m \<in> set ms. marker_id m \<noteq> None"
      using ms(2) by (fastforce simp: marks_entry_def)
    from markers_keep_held [OF this False] assms(5) ms(1) show ?thesis by blast
  qed
qed

lemma drain_loses_nothing_witness:
  "\<exists>rs'. app_holds demo_env rs'
     (fst (snd (drain_once_tracking demo_env None (demo_app [EntryRec demo_item] []) Map.empty)))"
proof -
  have "pending [EntryRec demo_item] = [demo_item]"
    by (simp add: pending_eq)
  then have "distinct (map entry_id (pending [EntryRec demo_item]))"
    "demo_item \<in> set (pending [EntryRec demo_item])" by simp_all
  moreover obtain res A' perm' where "drain_once_tracking demo_env None
      (demo_app [EntryRec demo_item] []) Map.empty = (res, A', perm')"
    by (cases "drain_once_tracking demo_env None (demo_app [EntryRec demo_item] []) Map.empty") auto
  ultimately show ?thesis
    using drain_loses_nothing [OF demo_app_codec demo_whole_writes demo_app_holds] by fastforce
qed

text \<open>
  One pass handles every waiting entry exactly once: what it reports as delivered and as failed
  adds up to the number of entries that were waiting. An unreadable journal counts as one failure,
  so the loop slows down.
\<close>

theorem drain_counts_every_entry:
  assumes "drain_once_tracking E webhook A perm = (Some s, A', perm')"
  shows "case fst (app_pending E A) of
      Inr es \<Rightarrow> sum_delivered s + sum_failed s = length es
    | Inl _ \<Rightarrow> stalled s \<and> sum_failed s = 1 \<and> perm' = perm"
proof -
  obtain r A1 where p: "app_pending E A = (r, A1)" by fastforce
  show ?thesis
  proof (cases r)
    case (Inl e)
    with assms p show ?thesis by (auto simp: drain_once_tracking_def stalled_def)
  next
    case (Inr es)
    show ?thesis
    proof (cases es)
      case Nil
      with assms p Inr show ?thesis by (auto simp: drain_once_tracking_def)
    next
      case (Cons e es')
      obtain r2 A2 perm2 where d: "drain_all E webhook (app_profiles A1) (e # es') 0 0 A1 perm
          = (r2, A2, perm2)"
        by (cases "drain_all E webhook (app_profiles A1) (e # es') 0 0 A1 perm") auto
      have "r2 = Some s"
        using assms p Inr Cons d by (cases r2) (auto simp: drain_once_tracking_def)
      with drain_all_count [of E webhook "app_profiles A1" "e # es'" 0 0 A1 perm s A2 perm2] d
      show ?thesis by (simp add: p Inr Cons)
    qed
  qed
qed

lemma demo_pending: "app_pending demo_env (demo_app rs w) = (Inr (pending rs), demo_app rs w)"
proof -
  have "read_records demo_dec demo_journal None (demo_disk rs) = Inr rs"
    by (rule holds_read [OF demo_codec demo_holds])
  then show ?thesis
    by (simp add: app_pending_def ask_def demo_env_def demo_app_def app_new_def demo_hub_at_def
        journal_pending_def)
qed

lemma drain_counts_every_entry_witness:
  "drain_once_tracking demo_env None (demo_app [] []) Map.empty =
     (Some \<lparr>sum_delivered = 0, sum_failed = 0\<rparr>, demo_app [] [], Map.empty) \<and>
   (0 :: nat) + 0 = length (pending [])"
proof -
  have run: "drain_once_tracking demo_env None (demo_app [] []) Map.empty =
     (Some \<lparr>sum_delivered = 0, sum_failed = 0\<rparr>, demo_app [] [], Map.empty)"
    by (simp add: drain_once_tracking_def demo_pending pending_eq)
  from drain_counts_every_entry [OF run] run show ?thesis
    by (simp add: demo_pending)
qed

text \<open>
  C17: When an entry is given up on. Failing permanently counts one up, the third time in a row sets
  the entry aside with the error and its remedy as the reason, provided the marker can be written,
  and forgets the count; failing transiently forgets the count and does not touch the journal.
  Until the third failure the journal is left alone.
\<close>

theorem set_aside_on_the_third:
  assumes "profiles (entry_source e) = Some p" "app_deliver E e p A = (Err err, A1)"
    "drain_one E webhook profiles e A perm = (res, A', perm')"
  shows "res = Some False \<and>
    (if error_is_transient err then perm' (entry_id e) = None \<and> app_files A' = app_files A
     else if failures_seen perm (entry_id e) + 1 < 3
     then perm' (entry_id e) = Some (failures_seen perm (entry_id e) + 1) \<and> app_files A' = app_files A
     else \<exists>now A2 A3 r. app_files A2 = app_files A \<and>
       app_mark_dead E (entry_id e) (set_aside_reason err) now A2 = (r, A3) \<and>
       app_files A' = app_files A3 \<and>
       (case r of Inr _ \<Rightarrow> perm' (entry_id e) = None
        | Inl _ \<Rightarrow> perm' (entry_id e) = Some (failures_seen perm (entry_id e) + 1)))"
proof -
  have A1: "app_files A1 = app_files A"
    using app_deliver_frame [OF assms(2)] by simp
  show ?thesis
  proof (cases "error_is_transient err")
    case True
    with assms A1 show ?thesis by (auto simp: drain_one_def record_route_frame)
  next
    case False
    with assms have r: "res = Some False" and pf:
      "permanent_failure E webhook e err (record_route E e (Inl err) A1) perm = (A', perm')"
      by (auto simp: drain_one_def)
    show ?thesis
    proof (cases "failures_seen perm (entry_id e) + 1 < 3")
      case True
      with pf r False A1 show ?thesis
        by (auto simp: permanent_failure_def PERMANENT_FAILURES_BEFORE_DEAD_def record_route_frame)
    next
      case third: False
      obtain now A2 where now: "ask (env_now E) (record_route E e (Inl err) A1) = (now, A2)"
        by fastforce
      obtain m A3 where m: "app_mark_dead E (entry_id e) (set_aside_reason err) now A2 = (m, A3)"
        by fastforce
      have A2: "app_files A2 = app_files A"
        using ask_frame [OF now] A1 by (simp add: record_route_frame)
      have "app_files A' = app_files A3 \<and>
        (case m of Inr _ \<Rightarrow> perm' (entry_id e) = None
         | Inl _ \<Rightarrow> perm' (entry_id e) = Some (failures_seen perm (entry_id e) + 1))"
        using pf third now m
        by (cases m) (auto simp: permanent_failure_def PERMANENT_FAILURES_BEFORE_DEAD_def Let_def)
      with r False third A2 m show ?thesis by auto
    qed
  qed
qed

lemma set_aside_on_the_third_witness:
  "fst (drain_one demo_env None [''s'' \<mapsto> demo_profile] demo_item (demo_app [] []) [''u'' \<mapsto> 1])
   = Some False"
proof -
  obtain err A1 where "app_deliver demo_env demo_item demo_profile (demo_app [] []) = (Err err, A1)"
    using demo_undelivered [of metrics_zero]
    by (auto simp: app_deliver_def demo_env_def demo_app_def)
  from set_aside_on_the_third [OF _ this, of "[''s'' \<mapsto> demo_profile]" None "[''u'' \<mapsto> 1]"]
  show ?thesis
    by (cases "drain_one demo_env None [''s'' \<mapsto> demo_profile] demo_item (demo_app [] []) [''u'' \<mapsto> 1]")
      (auto simp: demo_item_def)
qed

section \<open>Pacing\<close>

text \<open>
  An outage of any length is told once and slows the worker down as configured: over a run of
  passes that achieve nothing, the waits are the ladder from where it stood, its last step
  repeating, and a filling journal is reported exactly once, if at all.
\<close>

theorem outage_paced_and_reported_once:
  assumes "\<forall>(s, filling) \<in> set passes. stalled s"
  shows "map wait_secs (paces passes w) =
      map (\<lambda>i. FAILURE_BACKOFF_SECS ! min (consecutive_failures w + i) 4) [0..<length passes] \<and>
    reports (paces passes w) =
      (if \<not> backlog_reported w \<and> (\<exists>(s, filling) \<in> set passes. filling) then 1 else 0)"
  using stalled_waits [OF assms] stalled_reports [OF assms] by blast

lemma outage_paced_and_reported_once_witness:
  "map wait_secs (paces (replicate 7 (\<lparr>sum_delivered = 0, sum_failed = 1\<rparr>, True)) pacer_new) =
     [15, 60, 300, 900, 1800, 1800, 1800] \<and>
   reports (paces (replicate 7 (\<lparr>sum_delivered = 0, sum_failed = 1\<rparr>, True)) pacer_new) = 1"
proof -
  have "\<forall>(s, filling) \<in> set (replicate 7 (\<lparr>sum_delivered = 0, sum_failed = 1\<rparr>, True)). stalled s"
    by (simp add: stalled_def)
  from outage_paced_and_reported_once [OF this, of pacer_new] show ?thesis
    by (simp add: pacer_new_def FAILURE_BACKOFF_SECS_def numeral_eq_Suc)
qed

text \<open>
  Anything that gets through ends the slow lane: a pass that delivered something, or had
  nothing to deliver, is followed by the normal interval, says that deliveries recovered exactly
  when they had been failing, and re-arms the report for the next outage.
\<close>

theorem recovery_resets_the_pace:
  "if stalled s
   then wait_secs (fst (pace_after s filling w)) \<ge> 15 \<and> \<not> recovered (fst (pace_after s filling w))
   else wait_secs (fst (pace_after s filling w)) = POLL_INTERVAL_SECS \<and>
    (recovered (fst (pace_after s filling w)) \<longleftrightarrow> 0 < consecutive_failures w) \<and>
    \<not> report_backlog (fst (pace_after s filling w)) \<and>
    snd (pace_after s filling w) = pacer_new"
proof (cases "stalled s")
  case True
  have "min (consecutive_failures w) 4 \<in> {0, 1, 2, 3, 4}" by auto
  with True pace_stalled(1,3) [OF True] show ?thesis
    by (auto simp: FAILURE_BACKOFF_SECS_def)
qed (simp add: pace_moving)

end
