(* ===== verification/Startup_Properties.thy ===== *)
theory Startup_Properties
  imports Startup Service_Properties
begin

text \<open>
  What the start promises: the knobs and paths it derives, that it leaves the journal alone and
  takes up its queue, that two processes never share a data directory, and that an outage of Google
  is waited out.
\<close>

section \<open>Waiting for Google\<close>

fun auth_state ::
  "('w, 'k) services \<Rightarrow> credentials \<Rightarrow> (nat \<Rightarrow> 'w \<Rightarrow> 'w) \<Rightarrow> nat \<Rightarrow> nat \<Rightarrow> 'w hub \<Rightarrow> 'w hub" where
  "auth_state S creds sleep a 0 h = h"
| "auth_state S creds sleep a (Suc n) h =
     (case get_token S creds h of (r, h1) \<Rightarrow>
        auth_state S creds sleep (a + 1) n
          (h1\<lparr>outside := sleep (startup_wait (a + 1)) (outside h1)\<rparr>))"

definition fails_for_now :: "('w, 'k) services \<Rightarrow> credentials \<Rightarrow> 'w hub \<Rightarrow> bool" where
  "fails_for_now S creds h \<longleftrightarrow> (\<exists>e h1. get_token S creds h = (Inl e, h1) \<and> error_is_transient e)"

definition answers ::
  "('w, 'k) services \<Rightarrow> credentials \<Rightarrow> 'w hub \<Rightarrow> almanac_error option \<Rightarrow> 'w hub \<Rightarrow> bool" where
  "answers S creds h r h' \<longleftrightarrow>
     (\<exists>tok. get_token S creds h = (Inr tok, h') \<and> r = None) \<or>
     (\<exists>e. get_token S creds h = (Inl e, h') \<and> \<not> error_is_transient e \<and> r = Some e)"

lemma startup_auth_stop:
  "answers S creds h r h' \<Longrightarrow> startup_auth S creds sleep a h = Some (r, [], h')"
  by (auto simp: answers_def startup_auth.simps)

lemma startup_auth_again:
  assumes "get_token S creds h = (Inl e, h1)" "error_is_transient e"
  shows "startup_auth S creds sleep a h =
    Option.bind (startup_auth S creds sleep (a + 1)
        (h1\<lparr>outside := sleep (startup_wait (a + 1)) (outside h1)\<rparr>))
      (\<lambda>(r, ws, h2). Some (r, startup_wait (a + 1) # ws, h2))"
  using assms by (subst startup_auth.simps) simp

lemma upt_step: "[a + 1..<a + Suc n + 1] = (a + 1) # [a + 2..<a + n + 2]"
  by (simp add: upt_conv_Cons)

lemma startup_auth_runs:
  assumes "\<forall>i < n. fails_for_now S creds (auth_state S creds sleep a i h)"
    and "answers S creds (auth_state S creds sleep a n h) r h'"
  shows "startup_auth S creds sleep a h = Some (r, map startup_wait [a + 1..<a + n + 1], h')"
  using assms
proof (induction n arbitrary: a h)
  case 0
  then show ?case by (simp add: startup_auth_stop)
next
  case (Suc n)
  from Suc.prems(1) obtain e h1 where g: "get_token S creds h = (Inl e, h1)" "error_is_transient e"
    by (force simp: fails_for_now_def)
  let ?h = "h1\<lparr>outside := sleep (startup_wait (a + 1)) (outside h1)\<rparr>"
  have "\<forall>i < n. fails_for_now S creds (auth_state S creds sleep (a + 1) i ?h)"
  proof (intro allI impI)
    fix i assume "i < n"
    with Suc.prems(1) have "fails_for_now S creds (auth_state S creds sleep a (Suc i) h)" by blast
    with g show "fails_for_now S creds (auth_state S creds sleep (a + 1) i ?h)" by simp
  qed
  moreover have "answers S creds (auth_state S creds sleep (a + 1) n ?h) r h'"
    using Suc.prems(2) g by simp
  ultimately have "startup_auth S creds sleep (a + 1) ?h
      = Some (r, map startup_wait [a + 2..<a + n + 2], h')"
    using Suc.IH by simp
  then show ?case
    unfolding startup_auth_again [OF g] upt_step by (simp only: bind.simps prod.case list.map)
qed

lemma startup_auth_ends:
  assumes "startup_auth S creds sleep a h = Some y"
  shows "\<exists>n r h'. y = (r, map startup_wait [a + 1..<a + n + 1], h') \<and>
    (\<forall>i < n. fails_for_now S creds (auth_state S creds sleep a i h)) \<and>
    answers S creds (auth_state S creds sleep a n h) r h'"
  using assms
proof (induction rule: startup_auth.raw_induct [rotated 1, consumes 1])
  case (1 auth S creds sleep a h y)
  obtain t h1 where g: "get_token S creds h = (t, h1)" by fastforce
  show ?case
  proof (cases "fails_for_now S creds h")
    case False
    with 1(2) g have "y = (case t of Inr tok \<Rightarrow> None | Inl e \<Rightarrow> Some e, [], h1)" "answers S creds h (fst y) h1"
      by (auto simp: fails_for_now_def answers_def split: sum.splits if_splits)
    then show ?thesis by (intro exI [of _ 0]) auto
  next
    case True
    with g obtain e where t: "t = Inl e" "error_is_transient e" by (auto simp: fails_for_now_def)
    let ?h = "h1\<lparr>outside := sleep (startup_wait (a + 1)) (outside h1)\<rparr>"
    from 1(2) g t obtain r ws h2 where rec: "auth S creds sleep (a + 1) ?h = Some (r, ws, h2)"
      and y: "y = (r, startup_wait (a + 1) # ws, h2)"
      by (auto simp: bind_eq_Some_conv)
    from 1(1) [OF rec] obtain n where ws: "ws = map startup_wait [a + 2..<a + n + 2]"
      and f: "\<forall>i < n. fails_for_now S creds (auth_state S creds sleep (a + 1) i ?h)"
      and s: "answers S creds (auth_state S creds sleep (a + 1) n ?h) r h2"
      by auto
    have "\<forall>i < Suc n. fails_for_now S creds (auth_state S creds sleep a i h)"
    proof (intro allI impI)
      fix i assume "i < Suc n"
      then show "fails_for_now S creds (auth_state S creds sleep a i h)"
        using True f g by (cases i) simp_all
    qed
    moreover have "answers S creds (auth_state S creds sleep a (Suc n) h) r h2" using s g by simp
    moreover have "y = (r, map startup_wait [a + 1..<a + Suc n + 1], h2)"
      by (simp only: y ws upt_step list.map)
    ultimately show ?thesis by blast
  qed
qed

lemma startup_wait_bounds: "2 \<le> startup_wait k \<and> startup_wait k \<le> 300"
proof -
  have "min (k - 1) 4 \<in> {0, 1, 2, 3, 4 :: nat}" by auto
  then show ?thesis unfolding startup_wait_def STARTUP_RETRY_WAITS_def by auto
qed

text \<open>
  C28: The start waits out an outage of Google: the loop returns exactly when, after some number n of
  failures that pass, Google answers or refuses for good. It has then waited n times, 2, 5, 15 and 60
  seconds and then every 300, and ends with the worker's start or with the error that makes the
  process exit; it never gives up while the failures are transient.
\<close>

theorem startup_waits_out_an_outage:
  "startup_auth S creds sleep 0 h = Some (r, ws, h') \<longleftrightarrow>
     (\<exists>n. (\<forall>i < n. fails_for_now S creds (auth_state S creds sleep 0 i h)) \<and>
        answers S creds (auth_state S creds sleep 0 n h) r h' \<and>
        ws = map (\<lambda>k. [2, 5, 15, 60, 300] ! min k 4) [0..<n])"
proof -
  have waits: "map startup_wait [0 + 1..<0 + n + 1] = map (\<lambda>k. [2, 5, 15, 60, 300] ! min k 4) [0..<n]" for n
  proof -
    have "[0 + 1..<0 + n + 1] = map Suc [0..<n]" by (simp add: map_Suc_upt)
    then show ?thesis
      by (simp add: comp_def startup_wait_def STARTUP_RETRY_WAITS_def eval_nat_numeral)
  qed
  show ?thesis
    using startup_auth_ends [of S creds sleep 0 h "(r, ws, h')"] startup_auth_runs [of _ S creds sleep 0 h r h']
    unfolding waits by blast
qed

section \<open>Starting\<close>

text \<open>What the kit documents of its client store: it writes its own file and no other.\<close>

definition kit_frame :: "('key, 'st) kit_clients \<Rightarrow> bool" where
  "kit_frame K \<longleftrightarrow>
     (\<forall>p k fs st cs gs r gs'. kc_open K p k fs = Inr st \<longrightarrow> kc_extend K st cs gs = (r, gs') \<longrightarrow>
        (\<forall>q. q \<noteq> p \<longrightarrow> gs' q = gs q))"

lemma import_frame:
  assumes "import_source_tokens C J K fault dir store_path key_hex fs = (r, fs')" "kit_frame K"
    "q \<noteq> clients_file dir"
  shows "fs' q = fs q"
proof -
  have ext: "gs' q = gs q" if "kc_open K (clients_file dir) k gs0 = Inr st"
    "kc_extend K st cs gs = (r', gs')" for k gs0 st cs gs r' gs'
    using assms(2,3) that unfolding kit_frame_def by blast
  show ?thesis
    using assms(1) ext
    by (auto simp: import_source_tokens_def split: if_splits sum.splits list.splits prod.splits)
qed

lemma acquire_lock_ok:
  "acquire_lock F dir fs = (Inr u, fs') \<Longrightarrow>
     fs' = fs(lock_path dir \<mapsto> []) \<and> lock_taken F (lock_path dir) = None"
  by (auto simp: acquire_lock_def split: option.splits)

lemma acquire_lock_frame:
  "acquire_lock F dir fs = (r, fs') \<Longrightarrow> q \<noteq> lock_path dir \<Longrightarrow> fs' q = fs q"
  by (auto simp: acquire_lock_def split: option.splits)

lemma boot_ready:
  assumes "main_boot S C J K F from_args env0 fs w = Ready A env P creds n ws"
  obtains kit where
    "from_args (fst (compat env0)) = Inr kit" "env = fst (compat env0)"
    "kit_needs_config kit" "\<not> kit_checking kit" "\<not> is_set env BOOTSTRAP_TOKEN_ENV"
    "load_credentials env0 = Inr creds"
    "boot_start S C J K F kit env ws creds
       (load_all (profiles_at S (fst (site_read_faults S w))) (profiles_dir (boot_paths kit env)) fs)
       fs (snd (site_read_faults S w)) = Ready A env P creds n ws"
proof -
  obtain env1 cw where c: "compat env0 = (env1, cw)" by fastforce
  obtain faults w1 where f: "site_read_faults S w = (faults, w1)" by fastforce
  from assms obtain kit where kit: "from_args env1 = Inr kit" "kit_needs_config kit"
    "\<not> is_set env1 BOOTSTRAP_TOKEN_ENV"
    by (auto simp: main_boot_def c split: sum.splits if_splits)
  with assms obtain cr where cr: "load_credentials env0 = Inr cr" "\<not> kit_checking kit"
    by (auto simp: main_boot_def c f Let_def split: sum.splits if_splits)
  let ?ws = "cw @ (if is_set env1 CAPTURE_TOKEN_ENV then [capture_warning] else [])"
  have start: "boot_start S C J K F kit env1 ?ws cr
      (load_all (profiles_at S faults) (profiles_dir (boot_paths kit env1)) fs) fs w1
      = Ready A env P creds n ws"
    using assms kit cr by (simp add: main_boot_def c f Let_def)
  then have "env = env1 \<and> creds = cr \<and> ws = ?ws"
    by (auto simp: boot_start_def Let_def split: prod.splits sum.splits)
  with start that [of kit] c f kit cr show thesis by simp
qed

lemma boot_start_ready:
  assumes "boot_start S C J K F kit env ws creds l fs w = Ready A env' P creds' n ws'"
  obtains A1 es m where
    "P = boot_paths kit env" "lock_taken (boot_lock F) (lock_path (data_dir P)) = None"
    "app_pending (site_env (boot_site S P creds))
       (with_calendar_owner (owner_from env) (with_profiles_dir (profiles_dir P)
          (app_new (loaded_map l) (fs(lock_path (data_dir P) \<mapsto> [])) w))) = (Inr es, A1)"
    "import_source_tokens C J K (boot_store_read F) (kit_state_dir kit) (token_file P)
       (or_else (env ''ALMANAC_SECRET_KEY'') []) (app_files A1) = (Inr m, app_files A)"
    "A = A1\<lparr>app_files := app_files A\<rparr>" "n = length es"
proof -
  let ?P = "boot_paths kit env"
  obtain u fs1 where lock: "acquire_lock (boot_lock F) (data_dir ?P) fs = (Inr u, fs1)"
    using assms by (auto simp: boot_start_def Let_def split: prod.splits sum.splits)
  note taken = acquire_lock_ok [OF lock]
  let ?A = "with_calendar_owner (owner_from env) (with_profiles_dir (profiles_dir ?P)
      (app_new (loaded_map l) fs1 w))"
  obtain es A1 where p: "app_pending (site_env (boot_site S ?P creds)) ?A = (Inr es, A1)"
    using assms lock by (auto simp: boot_start_def Let_def split: prod.splits sum.splits)
  obtain m fs2 where i: "import_source_tokens C J K (boot_store_read F) (kit_state_dir kit)
      (token_file ?P) (or_else (env ''ALMANAC_SECRET_KEY'') []) (app_files A1) = (Inr m, fs2)"
    using assms lock p by (auto simp: boot_start_def Let_def split: prod.splits sum.splits)
  from assms have "A = A1\<lparr>app_files := fs2\<rparr>" "P = ?P" "n = length es"
    using lock p i by (auto simp: boot_start_def Let_def)
  with that [of es A1 m] taken p i show thesis by simp
qed

text \<open>A start that gets through: what it read, and the files it left alone.\<close>

lemma boot_ready_state:
  assumes "main_boot S C J K F from_args env0 fs w = Ready A env P creds n ws"
    and "from_args (fst (compat env0)) = Inr kit" "kit_frame K"
  shows "\<And>q. q \<noteq> lock_path (data_dir P) \<Longrightarrow> q \<noteq> clients_file (kit_state_dir kit) \<Longrightarrow>
      app_files A q = fs q"
    and "app_profiles A = loaded_map
      (load_all (profiles_at S (fst (site_read_faults S w))) (profiles_dir P) fs)"
    and "lock_taken (boot_lock F) (lock_path (data_dir P)) = None"
    and "\<exists>fault es. journal_pending (env_decoder (site_env S))
       \<lparr>journal_path = journal_file P, max_bytes = DEFAULT_MAX_BYTES\<rparr> fault
       (fs(lock_path (data_dir P) \<mapsto> [])) = Inr es \<and> n = length es"
proof -
  let ?l = "load_all (profiles_at S (fst (site_read_faults S w))) (profiles_dir (boot_paths kit env)) fs"
  from assms(1) have start: "boot_start S C J K F kit env ws creds ?l fs (snd (site_read_faults S w))
      = Ready A env P creds n ws"
    by (rule boot_ready) (use assms(2) in simp)
  from start obtain A1 es m where P: "P = boot_paths kit env" and taken: "lock_taken (boot_lock F) (lock_path (data_dir P)) = None"
    and p: "app_pending (site_env (boot_site S P creds))
      (with_calendar_owner (owner_from env) (with_profiles_dir (profiles_dir P)
         (app_new (loaded_map ?l) (fs(lock_path (data_dir P) \<mapsto> [])) (snd (site_read_faults S w)))))
      = (Inr es, A1)"
    and i: "import_source_tokens C J K (boot_store_read F) (kit_state_dir kit) (token_file P)
      (or_else (env ''ALMANAC_SECRET_KEY'') []) (app_files A1) = (Inr m, app_files A)"
    and A: "A = A1\<lparr>app_files := app_files A\<rparr>" and n: "n = length es"
    by (rule boot_start_ready)
  obtain fault where j: "journal_pending (env_decoder (site_env S))
      \<lparr>journal_path = journal_file P, max_bytes = DEFAULT_MAX_BYTES\<rparr> fault
      (fs(lock_path (data_dir P) \<mapsto> [])) = Inr es"
    and A1: "app_files A1 = fs(lock_path (data_dir P) \<mapsto> [])" "app_profiles A1 = loaded_map ?l"
    using p by (auto simp: app_pending_def boot_site_def with_calendar_owner_def
        with_profiles_dir_def app_new_def dest!: ask_frame split: prod.splits)
  show "app_files A q = fs q" if "q \<noteq> lock_path (data_dir P)" "q \<noteq> clients_file (kit_state_dir kit)" for q
    using import_frame [OF i assms(3) that(2)] that(1) by (simp add: A1)
  show "app_profiles A = loaded_map
      (load_all (profiles_at S (fst (site_read_faults S w))) (profiles_dir P) fs)"
    using A1(2) P by (subst A) simp
  show "lock_taken (boot_lock F) (lock_path (data_dir P)) = None" by (rule taken)
  show "\<exists>fault es. journal_pending (env_decoder (site_env S))
       \<lparr>journal_path = journal_file P, max_bytes = DEFAULT_MAX_BYTES\<rparr> fault
       (fs(lock_path (data_dir P) \<mapsto> [])) = Inr es \<and> n = length es"
    using j n by blast
qed

section \<open>A concrete start\<close>

definition start_site :: "((string + http_response) list, unit, int, int) site" where
  "start_site =
     \<lparr>site_env = demo_env,
      site_toml = \<lparr>toml_table = (\<lambda>s. None), toml_profile = (\<lambda>s. Inl ''no profile'')\<rparr>,
      site_read_dir = (\<lambda>d fs. Inr []), site_read_faults = (\<lambda>w. (\<lambda>p. None, w)),
      site_mkdir_fault = (\<lambda>w. (None, w)), site_remove_fault = (\<lambda>w. (None, w)),
      site_map_order = (\<lambda>m. [])\<rparr>"

definition start_env :: environment where
  "start_env =
     [''CLIENT_EMAIL'' \<mapsto> ''c'', ''PRIVATE_KEY'' \<mapsto> ''k'', ''TOKEN_URI'' \<mapsto> ''u'',
      ''ALMANAC_JOURNAL'' \<mapsto> ''j.jsonl'']"

definition start_kit :: "environment \<Rightarrow> string + kit_app" where
  "start_kit env =
     Inr \<lparr>kit_needs_config = True, kit_checking = False, kit_state_dir = ''state''\<rparr>"

definition free_lock :: boot_faults where
  "free_lock =
     \<lparr>boot_lock = \<lparr>lock_mkdir = None, lock_open = None, lock_taken = (\<lambda>p. None)\<rparr>, boot_store_read = None\<rparr>"

definition start_paths :: state_paths where
  "start_paths =
     \<lparr>root_dir = ''state'', profiles_dir = ''state/profiles'', data_dir = ''state/data'',
      journal_file = ''j.jsonl'', token_file = ''state/data/tokens.json''\<rparr>"

lemma trimmed: "trim ''state'' = ''state''" "trim ''j.jsonl'' = ''j.jsonl''"
  by code_simp+

lemma not_here: "is_current_dir ''state'' = False"
  by code_simp

lemma start_compat: "compat start_env = (start_env, [])"
  by (simp add: compat_def compat_listen_def compat_update_mode_def compat_update_url_def
      compat_log_def start_env_def)

lemma start_paths: "paths_resolve (start_env(STATE_DIR_ENV \<mapsto> ''state'')) = start_paths"
  by (simp add: paths_resolve_def env_value_def start_env_def STATE_DIR_ENV_def PROFILES_DIR_ENV_def
      DATA_DIR_ENV_def JOURNAL_ENV_def TOKEN_STORE_ENV_def or_else_def join_root_def trimmed not_here
      path_join_def start_paths_def)

lemma start_lock: "lock_path ''state/data'' = ''state/data/.lock''"
  by (simp add: lock_path_def path_join_def)

lemma start_credentials:
  "load_credentials start_env =
     Inr \<lparr>client_email = ''c'', private_key = ''k'', token_url = ''u''\<rparr>"
  by (simp add: load_credentials_def validate_credentials_def start_env_def)

lemma start_pending:
  "journal_pending demo_dec \<lparr>journal_path = ''j.jsonl'', max_bytes = DEFAULT_MAX_BYTES\<rparr> None
     (fs(''state/data/.lock'' \<mapsto> [])) = Inr (pending rs)"
  if "fs ''j.jsonl'' = demo_disk rs ''j.jsonl''"
proof -
  have "disk_holds demo_enc \<lparr>journal_path = ''j.jsonl'', max_bytes = DEFAULT_MAX_BYTES\<rparr> rs
      (fs(''state/data/.lock'' \<mapsto> []))"
    using that by (simp add: disk_holds_def file_text_def demo_disk_def)
  from holds_read [OF demo_codec this] show ?thesis by (simp add: journal_pending_def)
qed

text \<open>The site may read any profiles, and the disk hold any other files.\<close>

lemma start_ready_at:
  assumes "fs ''j.jsonl'' = demo_disk rs ''j.jsonl''" "fs ''state/data/tokens.json'' = None"
  shows "\<exists>B ws. main_boot (start_site\<lparr>site_toml := T, site_read_dir := R\<rparr>) demo_crypto demo_json_text
     demo_kit free_lock start_kit start_env fs [] = Ready B start_env start_paths
       \<lparr>client_email = ''c'', private_key = ''k'', token_url = ''u''\<rparr> (length (pending rs)) ws"
proof -
  have off: "is_set start_env BOOTSTRAP_TOKEN_ENV = False"
    by (simp add: is_set_def start_env_def BOOTSTRAP_TOKEN_ENV_def)
  have none: "start_env ''ALMANAC_SECRET_KEY'' = None"
    by (simp add: start_env_def)
  have no_tokens: "(fs(''state/data/.lock'' \<mapsto> [])) ''state/data/tokens.json'' = None"
    using assms(2) by simp
  show ?thesis
    unfolding main_boot_def start_compat
    by (simp add: start_kit_def off start_credentials boot_start_def boot_paths_def start_paths
        Let_def start_paths_def acquire_lock_def free_lock_def start_lock app_pending_def boot_site_def
        start_site_def demo_env_def ask_def app_new_def with_calendar_owner_def with_profiles_dir_def
        start_pending [of fs rs, OF assms(1)] import_source_tokens_def no_tokens del: fun_upd_apply)
qed

lemma start_ready:
  "\<exists>B ws. main_boot start_site demo_crypto demo_json_text demo_kit free_lock start_kit start_env
     (demo_disk rs) [] = Ready B start_env start_paths
       \<lparr>client_email = ''c'', private_key = ''k'', token_url = ''u''\<rparr> (length (pending rs)) ws"
  using start_ready_at [of "demo_disk rs" rs "site_read_dir start_site" "site_toml start_site"]
  by (simp add: demo_disk_def)

lemma demo_kit_frame: "kit_frame demo_kit"
  by (auto simp: kit_frame_def demo_kit_def)

section \<open>Across a restart\<close>

text \<open>
  C22: What 202 promises across a restart. When a post was answered 202 and the process that starts next
  on the same files gets through its start, the event is among the undelivered entries the new process
  counts and hands to its worker: the journal is untouched by the start, which counts exactly the
  entries that were pending.
\<close>

theorem accepted_event_survives_restart:
  assumes "ingest E src who header body A = (Some (202, reply), A')"
    and "app_codec E" "serde_reads_request (env_crates E)" "app_holds E rs A"
    and "\<forall>i \<in> marked rs. json_get reply ''entry_id'' \<noteq> Some (JStr i)"
    and "main_boot S C J K F from_args env0 (app_files A') w = Ready B env P creds n ws"
    and "from_args (fst (compat env0)) = Inr kit" "kit_frame K"
    and "env_encoder (site_env S) = env_encoder E" "env_decoder (site_env S) = env_decoder E"
    and "journal_file P = journal_path (env_journal E)"
    and "journal_file P \<notin> {lock_path (data_dir P), clients_file (kit_state_dir kit)}"
  shows "\<exists>e. payload e = body \<and> json_get reply ''entry_id'' = Some (JStr (entry_id e)) \<and>
    app_holds (site_env (boot_site S P creds)) (rs @ [EntryRec e]) B \<and>
    pending (rs @ [EntryRec e]) = pending rs @ [e] \<and> n = length (pending rs) + 1"
proof -
  obtain e where e: "app_holds E (rs @ [EntryRec e]) A'" "payload e = body"
    "json_get reply ''entry_id'' = Some (JStr (entry_id e))"
    using accepted_facts [OF assms(2,3,4,1)] by blast
  have fresh: "entry_id e \<notin> marked rs" using assms(5) e(3) by auto
  then have pend: "pending (rs @ [EntryRec e]) = pending rs @ [e]"
    using log.pending_accept [of e rs] by (simp add: append_entry_def)
  let ?j = "\<lparr>journal_path = journal_file P, max_bytes = DEFAULT_MAX_BYTES\<rparr>"
  let ?rs = "rs @ [EntryRec e]"
  note boot = boot_ready_state [OF assms(6,7,8)]
  have same: "app_files B (journal_file P) = app_files A' (journal_file P)"
    using boot(1) assms(12) by simp
  have held: "file_text (app_files A') (journal_file P) = image_of (env_encoder E) ?rs"
    using e(1) assms(11) by (simp add: app_holds_def disk_holds_def)
  have B: "app_holds (site_env (boot_site S P creds)) ?rs B"
    using held same assms(9) by (simp add: app_holds_def disk_holds_def boot_site_def file_text_def)
  obtain fault es where j: "journal_pending (env_decoder E) ?j fault
      ((app_files A')(lock_path (data_dir P) \<mapsto> [])) = Inr es" "n = length es"
    using boot(4) assms(10) by auto
  have "disk_holds (env_encoder E) ?j ?rs ((app_files A')(lock_path (data_dir P) \<mapsto> []))"
    using held assms(12) by (simp add: disk_holds_def file_text_def)
  with assms(2) have "read_records (env_decoder E) ?j None
      ((app_files A')(lock_path (data_dir P) \<mapsto> [])) = Inr ?rs"
    by (intro holds_read) (simp_all add: app_codec_def)
  with j(1) have "es = pending ?rs"
    by (auto simp: journal_pending_def outcome_simps read_records_def split: option.splits)
  with e(2,3) B pend j(2) show ?thesis by (intro exI [of _ e]) simp
qed

lemma accepted_event_survives_restart_witness:
  "\<exists>B ws e. main_boot start_site demo_crypto demo_json_text demo_kit free_lock start_kit start_env
     (demo_disk [EntryRec demo_item]) [] = Ready B start_env start_paths
       \<lparr>client_email = ''c'', private_key = ''k'', token_url = ''u''\<rparr> 1 ws \<and>
     payload e = demo_payload \<and> pending [EntryRec e] = [e]"
proof -
  let ?creds = "\<lparr>client_email = ''c'', private_key = ''k'', token_url = ''u''\<rparr>"
  let ?A = "on_metrics count_accepted (demo_app [EntryRec demo_item] ([] :: (string + http_response) list))"
  have one: "length (pending [EntryRec demo_item]) = 1" by (simp add: pending_eq)
  have files: "app_files ?A = demo_disk [EntryRec demo_item]" by (simp add: demo_app_def app_new_def)
  obtain B ws where boot: "main_boot start_site demo_crypto demo_json_text demo_kit free_lock
      start_kit start_env (app_files ?A) [] = Ready B start_env start_paths ?creds 1 ws"
    using start_ready [of "[EntryRec demo_item]"] unfolding files one by blast
  have "\<exists>e. payload e = demo_payload \<and>
      json_get (JObj [(''status'', JStr ''accepted''), (''entry_id'', JStr ''u'')]) ''entry_id''
        = Some (JStr (entry_id e)) \<and>
      app_holds (site_env (boot_site start_site start_paths ?creds)) ([] @ [EntryRec e]) B \<and>
      pending ([] @ [EntryRec e]) = pending [] @ [e] \<and> 1 = length (pending []) + 1"
    by (rule accepted_event_survives_restart [OF demo_ingest demo_app_codec _ demo_app_holds _ boot _
          demo_kit_frame])
      (simp_all add: demo_serde demo_env_def start_compat start_kit_def start_site_def start_paths_def
        demo_journal_def start_lock clients_file_def path_join_def)
  then obtain e where "payload e = demo_payload" "pending [EntryRec e] = [e]"
    by (auto simp: pending_eq)
  with boot files show ?thesis by auto
qed

text \<open>
  C32: Two processes never share a data directory. A start on a data directory whose lock file another
  process has locked never gets to serve; and when nothing else is wrong before that, it ends with the
  error that names the lock file, having touched no file but that one: whatever the journal holds,
  readable or not, and whatever tokens there are to import, neither has been looked at.
\<close>

theorem second_process_is_refused:
  assumes "from_args (fst (compat env0)) = Inr kit"
    and "dir = data_dir (boot_paths kit (fst (compat env0)))"
    and "lock_taken (boot_lock F) (lock_path dir) = Some e"
  shows "(\<forall>A env P creds n ws. main_boot S C J K F from_args env0 fs w \<noteq> Ready A env P creds n ws) \<and>
    (kit_needs_config kit \<and> \<not> kit_checking kit \<and> \<not> is_set (fst (compat env0)) BOOTSTRAP_TOKEN_ENV \<and>
     (\<exists>creds. load_credentials env0 = Inr creds) \<and>
     lock_mkdir (boot_lock F) = None \<and> lock_open (boot_lock F) = None \<longrightarrow>
     main_boot S C J K F from_args env0 fs w =
       Died (error_display (lock_held_error dir e)) (fs(lock_path dir \<mapsto> [])))"
proof (intro conjI allI impI)
  fix A env P creds n ws
  show "main_boot S C J K F from_args env0 fs w \<noteq> Ready A env P creds n ws"
  proof
    assume "main_boot S C J K F from_args env0 fs w = Ready A env P creds n ws"
    then obtain l w1 where "boot_start S C J K F kit env ws creds l fs w1 = Ready A env P creds n ws"
      "env = fst (compat env0)"
      by (rule boot_ready) (use assms(1) in simp)
    then show False
      using assms(2,3) by (auto elim!: boot_start_ready)
  qed
next
  assume ok: "kit_needs_config kit \<and> \<not> kit_checking kit \<and> \<not> is_set (fst (compat env0)) BOOTSTRAP_TOKEN_ENV \<and>
     (\<exists>creds. load_credentials env0 = Inr creds) \<and>
     lock_mkdir (boot_lock F) = None \<and> lock_open (boot_lock F) = None"
  have "acquire_lock (boot_lock F) dir fs = (Inl (lock_held_error dir e), fs(lock_path dir \<mapsto> []))"
    using ok assms(3) by (simp add: acquire_lock_def)
  with ok assms(1,2) show "main_boot S C J K F from_args env0 fs w =
      Died (error_display (lock_held_error dir e)) (fs(lock_path dir \<mapsto> []))"
    by (auto simp: main_boot_def boot_start_def Let_def split: prod.split)
qed

definition locked_out :: boot_faults where
  "locked_out = free_lock\<lparr>boot_lock := (boot_lock free_lock)
     \<lparr>lock_taken := [lock_path ''state/data'' \<mapsto> ''EWOULDBLOCK'']\<rparr>\<rparr>"

lemma second_process_is_refused_witness:
  "main_boot start_site demo_crypto demo_json_text demo_kit locked_out start_kit start_env
     [''j.jsonl'' \<mapsto> ''not a journal''] [] =
   Died (error_display (lock_held_error ''state/data'' ''EWOULDBLOCK''))
     [''j.jsonl'' \<mapsto> ''not a journal'', lock_path ''state/data'' \<mapsto> []]"
proof -
  let ?kit = "\<lparr>kit_needs_config = True, kit_checking = False, kit_state_dir = ''state''\<rparr>"
  have kit: "start_kit (fst (compat start_env)) = Inr ?kit" by (simp add: start_kit_def)
  have dir: "''state/data'' = data_dir (boot_paths ?kit (fst (compat start_env)))"
    by (simp add: start_compat boot_paths_def start_paths) (simp add: start_paths_def)
  have held: "lock_taken (boot_lock locked_out) (lock_path ''state/data'') = Some ''EWOULDBLOCK''"
    by (simp add: locked_out_def)
  have free: "lock_mkdir (boot_lock locked_out) = None" "lock_open (boot_lock locked_out) = None"
    by (simp_all add: locked_out_def free_lock_def)
  have env: "\<not> is_set (fst (compat start_env)) BOOTSTRAP_TOKEN_ENV"
    "\<exists>creds. load_credentials start_env = Inr creds"
    unfolding start_compat start_credentials
    by (simp_all add: is_set_def start_env_def BOOTSTRAP_TOKEN_ENV_def)
  from second_process_is_refused [where from_args = start_kit and ?env0.0 = start_env
      and S = start_site and C = demo_crypto and J = demo_json_text and K = demo_kit and w = "[]"
      and fs = "[''j.jsonl'' \<mapsto> ''not a journal'']", OF kit dir held] free env
  show ?thesis by (simp del: fun_upd_apply)
qed

section \<open>Knobs and paths\<close>

lemma digit_value: "d < 10 \<Longrightarrow> byte (digit_char d) = 48 + d"
  by (simp add: digit_char_def byte_def)

lemma parse_digits_snoc:
  "parse_digits s = Some n \<Longrightarrow> d < 10 \<Longrightarrow> parse_digits (s @ [digit_char d]) = Some (10 * n + d)"
  by (auto simp: parse_digits_def digit_value split: if_splits)

lemma parse_digits_show: "parse_digits (show_nat n) = Some n"
proof (induction n rule: less_induct)
  case (less n)
  show ?case
  proof (cases "n < 10")
    case True
    then show ?thesis by (subst show_nat.simps) (simp add: parse_digits_def digit_value)
  next
    case False
    then have "parse_digits (show_nat (n div 10)) = Some (n div 10)" by (intro less) simp
    from parse_digits_snoc [OF this, of "n mod 10"] False show ?thesis
      by (subst show_nat.simps) simp
  qed
qed

lemma show_nat_starts: "show_nat n \<noteq> [] \<and> hd (show_nat n) \<noteq> CHR ''+''"
proof -
  have "show_nat n \<noteq> [] \<and> list_all (\<lambda>c. 48 \<le> byte c \<and> byte c \<le> 57) (show_nat n)"
    using parse_digits_show [of n] by (auto simp: parse_digits_def split: if_splits)
  then show ?thesis by (cases "show_nat n") (auto simp: byte_def)
qed

text \<open>What is written in decimal is read back, with or without a plus sign, up to 64 bits.\<close>

lemma parse_u64_show: "n < 2 ^ 64 \<Longrightarrow> parse_u64 (show_nat n) = Some n"
  using show_nat_starts [of n] by (simp add: parse_u64_def parse_digits_show)

lemma parse_u64_plus: "n < 2 ^ 64 \<Longrightarrow> parse_u64 (CHR ''+'' # show_nat n) = Some n"
  by (simp add: parse_u64_def parse_digits_show)

lemma parse_u64_bound: "parse_u64 s = Some n \<Longrightarrow> n < 2 ^ 64"
  by (auto simp: parse_u64_def split: option.splits if_splits)

text \<open>Only a written zero silences the heartbeat, and an interval is never zero.\<close>

lemma heartbeat_silenced:
  "interval_from env = None \<longleftrightarrow> (\<exists>raw. env INTERVAL_ENV = Some raw \<and> parse_u64 (trim raw) = Some 0)"
  by (auto simp: interval_from_def split: option.splits)

lemma heartbeat_interval: "interval_from env = Some n \<Longrightarrow> 0 < n \<and> n < 2 ^ 64"
  by (auto simp: interval_from_def DEFAULT_INTERVAL_def dest: parse_u64_bound
      split: option.splits if_splits)

lemma blank_is_unset: "env key = Some v \<Longrightarrow> is_blank v \<Longrightarrow> env_value env key = None"
  by (simp add: env_value_def is_blank_def)

text \<open>Without overrides every path is under the root, and the journal beside the lock that guards it.\<close>

lemma paths_under_root:
  assumes "env_value env STATE_DIR_ENV = Some base" "\<not> is_current_dir base"
    "env_value env PROFILES_DIR_ENV = None" "env_value env DATA_DIR_ENV = None"
    "env_value env JOURNAL_ENV = None" "env_value env TOKEN_STORE_ENV = None"
  shows "profiles_dir (paths_resolve env) = path_join base ''profiles''"
    "data_dir (paths_resolve env) = path_join base ''data''"
    "journal_file (paths_resolve env) = path_join (path_join base ''data'') ''journal.jsonl''"
    "token_file (paths_resolve env) = path_join (path_join base ''data'') ''tokens.json''"
  using assms by (simp_all add: paths_resolve_def or_else_def join_root_def Let_def)

lemma paths_default:
  assumes "\<And>key. env_value env key = None"
  shows "paths_resolve env =
    \<lparr>root_dir = ''.'', profiles_dir = ''profiles'', data_dir = ''data'',
     journal_file = ''data/journal.jsonl'', token_file = ''data/tokens.json''\<rparr>"
proof -
  have "is_current_dir ''.''" by code_simp
  then show ?thesis
    using assms by (simp add: paths_resolve_def or_else_def join_root_def Let_def path_join_def)
qed

lemma lock_beside_journal:
  assumes "env_value env JOURNAL_ENV = None"
  shows "journal_file (paths_resolve env) = path_join (data_dir (paths_resolve env)) ''journal.jsonl''"
    "journal_file (paths_resolve env) \<noteq> lock_path (data_dir (paths_resolve env))"
  using assms by (simp_all add: paths_resolve_def or_else_def Let_def lock_path_def path_join_def)

definition knob_names :: "string set" where
  "knob_names = {''ALMANAC_LISTEN'', ''ALMANAC_UPDATE_MODE'', ''ALMANAC_LOG''}"

lemma trim_end_slashes_last: "s \<noteq> [] \<Longrightarrow> last s \<noteq> CHR ''/'' \<Longrightarrow> trim_end_slashes s = s"
  by (cases s rule: rev_cases) (simp_all add: trim_end_slashes_def)

lemma fixed_url_stays: "compat_update_url (fst (compat_update_url env)) = (fst (compat_update_url env), [])"
proof -
  have keep: "trim_end_slashes (t @ ''/latest/download'') = t @ ''/latest/download''" for t
    by (rule trim_end_slashes_last) simp_all
  have "\<not> suffix ''/releases'' (t @ ''/latest/download'')" for t
  proof
    assume "suffix ''/releases'' (t @ ''/latest/download'')"
    then have "last (t @ ''/latest/download'') = last ''/releases''"
      by (auto simp: suffix_def dest: arg_cong [of _ _ last])
    then show False by simp
  qed
  with keep show ?thesis
    by (auto simp: compat_update_url_def Let_def split: option.splits)
qed

lemma compat_listen_facts:
  "k \<noteq> ''ALMANAC_LISTEN'' \<Longrightarrow> fst (compat_listen env) k = env k"
  "env ''ALMANAC_LISTEN'' = Some v \<Longrightarrow> compat_listen env = (env, [])"
  "E ''ALMANAC_LISTEN'' = fst (compat_listen env) ''ALMANAC_LISTEN'' \<Longrightarrow>
     E ''ALMANAC_BIND'' = env ''ALMANAC_BIND'' \<Longrightarrow> compat_listen E = (E, [])"
  by (auto simp: compat_listen_def split: option.splits)

lemma compat_mode_facts:
  "k \<noteq> ''ALMANAC_UPDATE_MODE'' \<Longrightarrow> fst (compat_update_mode env) k = env k"
  "env ''ALMANAC_UPDATE_MODE'' = Some v \<Longrightarrow> compat_update_mode env = (env, [])"
  "E ''ALMANAC_UPDATE_MODE'' = fst (compat_update_mode env) ''ALMANAC_UPDATE_MODE'' \<Longrightarrow>
     E ''ALMANAC_SELF_UPDATE'' = env ''ALMANAC_SELF_UPDATE'' \<Longrightarrow> compat_update_mode E = (E, [])"
  by (auto simp: compat_update_mode_def split: option.splits)

lemma compat_url_facts:
  "k \<noteq> ''ALMANAC_UPDATE_URL'' \<Longrightarrow> fst (compat_update_url env) k = env k"
  "env ''ALMANAC_UPDATE_URL'' = env' ''ALMANAC_UPDATE_URL'' \<Longrightarrow>
     snd (compat_update_url env) = snd (compat_update_url env') \<and>
     fst (compat_update_url env) ''ALMANAC_UPDATE_URL'' = fst (compat_update_url env') ''ALMANAC_UPDATE_URL''"
  by (auto simp: compat_update_url_def Let_def split: option.splits)

lemma compat_log_facts:
  "k \<noteq> ''ALMANAC_LOG'' \<Longrightarrow> compat_log env k = env k"
  "env ''ALMANAC_LOG'' = Some v \<Longrightarrow> compat_log env = env"
  "E ''ALMANAC_LOG'' = compat_log env ''ALMANAC_LOG'' \<Longrightarrow> E ''RUST_LOG'' = env ''RUST_LOG'' \<Longrightarrow>
     compat_log E = E"
  by (auto simp: compat_log_def split: option.splits)

lemma compat_fst:
  "fst (compat env) =
     compat_log (fst (compat_update_url (fst (compat_update_mode (fst (compat_listen env))))))"
  by (simp add: compat_def split: prod.split)

lemma compat_settled:
  assumes "compat_listen env = (env, [])" "compat_update_mode env = (env, [])"
    "compat_update_url env = (env, [])" "compat_log env = env"
  shows "compat env = (env, [])"
  using assms by (simp add: compat_def)

lemma url_settled:
  assumes "env ''ALMANAC_UPDATE_URL'' = fst (compat_update_url env') ''ALMANAC_UPDATE_URL''"
  shows "compat_update_url env = (env, [])"
proof -
  have "snd (compat_update_url env) = []"
    using compat_url_facts(2) [of env "fst (compat_update_url env')"] assms fixed_url_stays [of env']
    by simp
  then show ?thesis by (auto simp: compat_update_url_def Let_def split: option.splits if_splits)
qed

text \<open>
  The old names of the knobs never override a new one that is set, touch no other variable, and
  rewriting an environment that was rewritten changes nothing and warns of nothing.
\<close>

theorem old_knobs_yield_to_new:
  "compat (fst (compat env)) = (fst (compat env), []) \<and>
   (\<forall>k \<in> knob_names. \<forall>v. env k = Some v \<longrightarrow> fst (compat env) k = Some v) \<and>
   (\<forall>k. k \<notin> insert ''ALMANAC_UPDATE_URL'' knob_names \<longrightarrow> fst (compat env) k = env k)"
proof (intro conjI)
  let ?e1 = "fst (compat_listen env)" and ?E = "fst (compat env)"
  let ?e2 = "fst (compat_update_mode ?e1)"
  let ?e3 = "fst (compat_update_url ?e2)"
  note other = compat_listen_facts(1) compat_mode_facts(1) compat_url_facts(1) compat_log_facts(1)
  have E: "?E = compat_log ?e3" by (rule compat_fst)
  show "compat ?E = (?E, [])"
  proof (rule compat_settled)
    show "compat_listen ?E = (?E, [])"
      by (rule compat_listen_facts(3) [where env = env]) (simp_all add: E other)
    show "compat_update_mode ?E = (?E, [])"
      by (rule compat_mode_facts(3) [where env = ?e1]) (simp_all add: E other)
    show "compat_update_url ?E = (?E, [])"
      by (rule url_settled [where env' = ?e2]) (simp add: E other)
    show "compat_log ?E = ?E"
      by (rule compat_log_facts(3) [where env = ?e3]) (simp_all add: E other)
  qed
  show "\<forall>k \<in> knob_names. \<forall>v. env k = Some v \<longrightarrow> ?E k = Some v"
  proof (intro ballI allI impI)
    fix k v
    assume "k \<in> knob_names" and v: "env k = Some v"
    then consider "k = ''ALMANAC_LISTEN''" | "k = ''ALMANAC_UPDATE_MODE''" | "k = ''ALMANAC_LOG''"
      unfolding knob_names_def by blast
    then show "?E k = Some v"
    proof cases
      case 1
      with v show ?thesis by (simp add: E other compat_listen_facts(2))
    next
      case 2
      with v have "?e1 k = Some v" by (simp add: other)
      with 2 show ?thesis by (simp add: E other compat_mode_facts(2))
    next
      case 3
      with v have "?e3 k = Some v" by (simp add: other)
      with 3 show ?thesis by (simp add: E compat_log_facts(2))
    qed
  qed
  show "\<forall>k. k \<notin> insert ''ALMANAC_UPDATE_URL'' knob_names \<longrightarrow> ?E k = env k"
    by (simp add: E other knob_names_def)
qed

lemma old_knobs_yield_to_new_witness:
  "fst (compat [''ALMANAC_LISTEN'' \<mapsto> ''new'', ''ALMANAC_BIND'' \<mapsto> ''old'']) ''ALMANAC_LISTEN'' = Some ''new''"
  using old_knobs_yield_to_new [of "[''ALMANAC_LISTEN'' \<mapsto> ''new'', ''ALMANAC_BIND'' \<mapsto> ''old'']"]
  by (simp add: knob_names_def)

text \<open>Google is unreachable for the first two requests.\<close>

definition flaky_services :: "(nat, unit) services" where
  "flaky_services =
     \<lparr>send_http = (\<lambda>req w. (if w < 2 then Inl ''down'' else Inr \<lparr>resp_status = 200, resp_body = Inr ''t''\<rparr>, Suc w)),
      unix_clock = (\<lambda>w. (Inr 0, w)), key_from_pem = (\<lambda>s. Inr ()), jwt_encode = (\<lambda>k c. Inr ''jwt''),
      read_json = (\<lambda>s. Inr (JObj [(''access_token'', JStr s), (''expires_in'', JInt 3600)])),
      shape_error = (\<lambda>v. ''shape''), read_error_body = (\<lambda>s. None), status_text = show_nat\<rparr>"

definition cold_hub :: "nat \<Rightarrow> nat hub" where
  "cold_hub w = \<lparr>outside = w, token_cache = None, hub_metrics = metrics_zero\<rparr>"

lemma flaky_token:
  "get_token flaky_services demo_credentials (cold_hub w) =
     (if w < 2 then
        (Inl (Auth (''token request to '' @ token_url demo_credentials @ '' failed: down'')
           (''transient network failure '' @ em_dash @ '' retrying automatically'') True), cold_hub (Suc w))
      else (Inr ''t'', snd (get_token flaky_services demo_credentials (cold_hub w))))"
  by (simp add: get_token_def needs_refresh_def cold_hub_def fetch_token_def now_secs_def
      flaky_services_def sign_assertion_def hub_send_def Let_def is_success_def response_json_def
      token_of_json_def field_unfold de_u64.simps)

lemma startup_waits_out_an_outage_witness:
  "\<exists>h'. startup_auth flaky_services demo_credentials (\<lambda>s w. w) 0 (cold_hub 0) = Some (None, [2, 5], h')"
proof -
  let ?h = "\<lambda>n. auth_state flaky_services demo_credentials (\<lambda>s w. w) 0 n (cold_hub 0)"
  have same: "(cold_hub w)\<lparr>outside := outside (cold_hub w)\<rparr> = cold_hub w" for w
    by (simp add: cold_hub_def)
  have h: "?h 0 = cold_hub 0" "?h 1 = cold_hub 1" "?h 2 = cold_hub 2"
    by (simp_all add: flaky_token same eval_nat_numeral)
  have f: "fails_for_now flaky_services demo_credentials (?h i)" if "i < 2" for i
  proof -
    from that consider "i = 0" | "i = 1" by linarith
    then have "?h i = cold_hub i" using h(1,2) by cases (simp_all only:)
    with that show ?thesis by (simp add: fails_for_now_def flaky_token [of i])
  qed
  have a: "answers flaky_services demo_credentials (?h 2) None
      (snd (get_token flaky_services demo_credentials (cold_hub 2)))"
    unfolding h(3) answers_def by (subst flaky_token) simp
  have l: "[2, 5] = map (\<lambda>k. [2, 5, 15, 60, 300 :: nat] ! min k 4) [0..<2]"
    by (simp add: eval_nat_numeral)
  show ?thesis
  proof (intro exI, rule iffD2 [OF startup_waits_out_an_outage], intro exI conjI)
    show "\<forall>i < 2. fails_for_now flaky_services demo_credentials (?h i)" using f by blast
  qed (rule a, rule l)
qed

end
