(* ===== verification/Machine_Properties.thy ===== *)
theory Machine_Properties
  imports Service_Machine Startup_Properties
begin

text \<open>
  What holds in every state the running service can reach, from the start on: the invariants of
  Service_Machine tied to the state that a start of the process leaves behind.
\<close>

section \<open>The state after a start\<close>

lemma key_locks_new_wf: "key_locks_wf key_locks_new"
  by (simp add: key_locks_wf_def key_locks_new_def)

lemma tidy_self:
  "tidy S A A \<longleftrightarrow>
     served_well S A \<and> ring_capacity (app_routes A) = HISTORY_CAPACITY \<and>
     length (ring_items (app_routes A)) \<le> HISTORY_CAPACITY \<and> key_locks_wf (app_locks A) \<and>
     distinct (map fst (created_calendars A))"
  by (auto simp: tidy_def locks_grow_def)

lemma loaded_map_is_load_map: "loaded_map (load_all N dir fs) = load_map N dir fs"
  by (simp add: loaded_map_def load_map_def)

lemma boot_tidy:
  assumes "main_boot S C J K F from_args env0 fs w = Ready A env P creds n ws"
  shows "tidy (boot_site S P creds) A A" "app_profiles_dir A = profiles_dir P"
    "app_locks A = key_locks_new"
proof -
  from assms obtain kit where start: "boot_start S C J K F kit env ws creds
      (load_all (profiles_at S (fst (site_read_faults S w))) (profiles_dir (boot_paths kit env)) fs)
      fs (snd (site_read_faults S w)) = Ready A env P creds n ws"
    by (rule boot_ready)
  let ?l = "load_all (profiles_at S (fst (site_read_faults S w))) (profiles_dir (boot_paths kit env)) fs"
  from start obtain A1 es m where P: "P = boot_paths kit env"
    and p: "app_pending (site_env (boot_site S P creds))
      (with_calendar_owner (owner_from env) (with_profiles_dir (profiles_dir P)
         (app_new (loaded_map ?l) (fs(lock_path (data_dir P) \<mapsto> [])) (snd (site_read_faults S w)))))
      = (Inr es, A1)"
    and A: "A = A1\<lparr>app_files := app_files A\<rparr>"
    by (rule boot_start_ready)
  let ?A = "with_calendar_owner (owner_from env) (with_profiles_dir (profiles_dir P)
         (app_new (loaded_map ?l) (fs(lock_path (data_dir P) \<mapsto> [])) (snd (site_read_faults S w))))"
  have well: "served_well (boot_site S P creds) ?A"
    using loaded_well [of "profiles_at S (fst (site_read_faults S w))"]
    by (auto simp: served_well_def with_calendar_owner_def with_profiles_dir_def app_new_def
        loaded_map_is_load_map profiles_at_def boot_site_def)
  then have "tidy (boot_site S P creds) ?A ?A"
    by (simp add: tidy_self with_calendar_owner_def with_profiles_dir_def app_new_def ring_new_def
        HISTORY_CAPACITY_def key_locks_new_wf)
  from tidy_pending [OF p this] have "tidy (boot_site S P creds) ?A A1" .
  then have tidy: "tidy (boot_site S P creds) ?A A" by (subst A) simp
  then show "tidy (boot_site S P creds) A A"
    by (auto simp: tidy_def locks_grow_def)
  show "app_profiles_dir A = profiles_dir P"
    using tidy by (simp add: tidy_def with_calendar_owner_def with_profiles_dir_def)
  have "app_locks A1 = key_locks_new"
    using p by (auto simp: app_pending_def with_calendar_owner_def with_profiles_dir_def app_new_def
        dest!: ask_frame split: prod.splits)
  then show "app_locks A = key_locks_new" by (subst A) simp
qed

lemma reached_tidy:
  assumes "main_boot S C J K F from_args env0 fs w = Ready A env P creds n ws"
    "service_reaches (boot_site S P creds) wh (A, W) tr (A', W')"
  shows "tidy (boot_site S P creds) A A'"
  using tidy_run [OF assms(2)] boot_tidy(1) [OF assms(1)] by simp

lemma run_trans:
  "service_reaches S wh Y tr' Z \<Longrightarrow> service_reaches S wh X tr Y \<Longrightarrow> service_reaches S wh X (tr @ tr') Z"
proof (induction rule: service_reaches.induct)
  case (move Y tr1 Z1 tr2 Z)
  then show ?case using service_reaches.move [of S wh X "tr @ tr1" Z1 tr2 Z] by simp
qed simp

section \<open>A concrete run\<close>

text \<open>
  A start on a disk with one profile and an empty journal, one reload of the profiles, and a tick
  of the worker on the state after a post; Google does not answer.
\<close>

definition one_profile :: "((string + http_response) list, unit, int, int) site" where
  "one_profile = start_site
     \<lparr>site_toml := \<lparr>toml_table = (\<lambda>s. None), toml_profile = (\<lambda>s. Inr demo_profile)\<rparr>,
      site_read_dir := (\<lambda>d fs. Inr [''a.toml''])\<rparr>"

abbreviation start_creds :: credentials where
  "start_creds \<equiv> \<lparr>client_email = ''c'', private_key = ''k'', token_url = ''u''\<rparr>"

lemma one_profile_start:
  "\<exists>B ws. main_boot one_profile demo_crypto demo_json_text demo_kit free_lock start_kit start_env
     ((demo_disk [])(''a.toml'' \<mapsto> ''x'')) [] = Ready B start_env start_paths start_creds 0 ws"
  using start_ready_at [of "(demo_disk [])(''a.toml'' \<mapsto> ''x'')" "[]"]
  by (simp add: one_profile_def demo_disk_def pending_eq)

lemma one_profile_loads:
  assumes "fs ''a.toml'' = Some ''x''"
  shows "load_map (profiles_at (boot_site one_profile start_paths start_creds) (\<lambda>p. None)) d fs ''s''
    = Some demo_profile"
proof -
  let ?N = "profiles_at (boot_site one_profile start_paths start_creds) (\<lambda>p. None)"
  have toml: "is_toml ''a.toml''" by code_simp
  have utf: "utf8_valid ''x''" by code_simp
  have "usable ?N fs ''a.toml'' = Some demo_profile"
    using assms utf demo_profile_wf
    by (simp add: usable_iff profiles_at_def boot_site_def one_profile_def start_site_def
        demo_env_def declared_version_def)
  then have "load_file ?N fs [] ''a.toml'' = Inr demo_profile"
    by (simp add: usable_def split: sum.splits)
  moreover have "ps_read_dir ?N d fs = Inr [''a.toml'']"
    by (simp add: profiles_at_def boot_site_def one_profile_def)
  ultimately have "load_all ?N d fs = \<lparr>ld_profiles = [demo_profile], ld_unusable = []\<rparr>"
    by (simp add: load_all_def toml)
  then show ?thesis by (simp add: load_map_def demo_profile_def)
qed

abbreviation one_site :: "((string + http_response) list, unit, int, int) site" where
  "one_site \<equiv> boot_site one_profile start_paths start_creds"

definition first_worker :: worker where
  "first_worker = \<lparr>since_compaction = 0, permanent_map = Map.empty, pace = pacer_new,
     period = POLL_INTERVAL_SECS\<rparr>"

lemma one_profile_booted:
  obtains B ws where
    "main_boot one_profile demo_crypto demo_json_text demo_kit free_lock start_kit start_env
       ((demo_disk [])(''a.toml'' \<mapsto> ''x'')) [] = Ready B start_env start_paths start_creds 0 ws"
    "app_profiles B ''s'' = Some demo_profile" "app_files B ''a.toml'' = Some ''x''"
proof -
  obtain B ws where boot:
    "main_boot one_profile demo_crypto demo_json_text demo_kit free_lock start_kit start_env
       ((demo_disk [])(''a.toml'' \<mapsto> ''x'')) [] = Ready B start_env start_paths start_creds 0 ws"
    using one_profile_start by blast
  obtain kit where kit: "start_kit (fst (compat start_env)) = Inr kit" "kit_state_dir kit = ''state''"
    by (simp add: start_kit_def start_compat)
  note ready = boot_ready_state [OF boot kit(1) demo_kit_frame]
  have "app_profiles B = load_map (profiles_at one_site (\<lambda>p. None)) ''state/profiles''
      ((demo_disk [])(''a.toml'' \<mapsto> ''x''))"
    using ready(2) by (simp add: loaded_map_is_load_map one_profile_def start_site_def boot_site_def
        profiles_at_def start_paths_def)
  then have "app_profiles B ''s'' = Some demo_profile" by (simp add: one_profile_loads)
  moreover have "app_files B ''a.toml'' = Some ''x''"
    using ready(1) [of "''a.toml''"] by (simp add: kit(2) start_paths_def start_lock
        clients_file_def path_join_def)
  ultimately show thesis using that boot by blast
qed

lemma reload_run: "service_reaches S wh (A, W) ([] @ []) (app_reload S A, W)"
  by (rule service_reaches.move [OF service_reaches.idle], rule service_step.paged [where page = PostReload])
    (simp add: page_reload_profiles_def)

text \<open>Somebody puts a file beside the others, and the profiles are loaded again.\<close>

lemma edited_run:
  assumes "q \<noteq> journal_path (env_journal (site_env S))"
  shows "service_reaches S wh (A, W) (([] @ []) @ [])
    (app_reload S (A\<lparr>app_files := (app_files A)(q \<mapsto> c)\<rparr>), W)"
proof -
  have "service_reaches S wh (A, W) ([] @ []) (A\<lparr>app_files := (app_files A)(q \<mapsto> c)\<rparr>, W)"
    by (rule service_reaches.move [OF service_reaches.idle], rule service_step.edited) (use assms in auto)
  then show ?thesis
    by (rule service_reaches.move, intro service_step.paged [where page = PostReload])
      (simp add: page_reload_profiles_def)
qed

lemma one_profile_reloaded:
  assumes "app_files B ''a.toml'' = Some ''x''"
  shows "app_profiles (app_reload one_site B) ''s'' = Some demo_profile"
proof -
  have "reads_succeed one_site"
    by (simp add: reads_succeed_def boot_site_def one_profile_def start_site_def)
  with assms show ?thesis by (simp add: app_reload_quiet(1) one_profile_loads)
qed

lemma deletion_locks:
  assumes "authenticate A src who = Inr p" "delete_event E src ext who A = (r, A')"
  shows "app_locks A' = snd (for_key (source_key (source_id p) ext) (app_locks A))"
  using assms by (auto simp: delete_event_def Let_def split: sum.splits prod.splits option.splits)

lemma deletion_run:
  assumes "delete_event (site_env S) src ext who A = (r, A')"
  shows "service_reaches S wh (A, W) ([] @ []) (A', W)"
  by (rule service_reaches.move [OF service_reaches.idle])
    (use assms service_step.posted [of S "DeleteEvent src ext who" A "Some r" A' wh W] in simp)

lemma posted_pending:
  "app_pending demo_env (on_metrics f (demo_app rs w)) =
     (Inr (pending rs), on_metrics f (demo_app rs w))"
  using demo_pending [of rs w]
  by (auto simp: app_pending_def ask_def demo_env_def on_metrics_def demo_app_def app_new_def
      demo_hub_at_def)

lemma tick_after_post:
  "\<exists>A' W'. worker_tick demo_env None (on_metrics count_accepted (demo_app [EntryRec demo_item] []))
     first_worker = Some (A', W')"
proof -
  let ?A = "on_metrics count_accepted (demo_app [EntryRec demo_item] ([] :: (string + http_response) list))"
  have hub: "app_hub ?A = demo_hub_at (count_accepted metrics_zero) []"
    by (simp add: on_metrics_def demo_app_def app_new_def demo_hub_at_def)
  obtain e A1 where d: "app_deliver demo_env demo_item demo_profile ?A = (Err e, A1)"
    using demo_undelivered [of "count_accepted metrics_zero"] unfolding app_deliver_def hub
    by (auto simp: demo_env_def)
  have p: "app_profiles ?A (entry_source demo_item) = Some demo_profile"
    by (simp add: demo_app_def app_new_def demo_item_def)
  have "fst (drain_one demo_env None (app_profiles ?A) demo_item ?A Map.empty) = Some False"
    unfolding drain_one_def p by (simp add: d Let_def)
  then obtain A2 perm where one: "drain_one demo_env None (app_profiles ?A) demo_item ?A Map.empty
      = (Some False, A2, perm)"
    by (cases "drain_one demo_env None (app_profiles ?A) demo_item ?A Map.empty") auto
  have "pending [EntryRec demo_item] = [demo_item]" by (simp add: pending_eq)
  then have "\<exists>s A3 perm3. drain_once_tracking demo_env None ?A Map.empty = (Some s, A3, perm3)"
    unfolding drain_once_tracking_def posted_pending by (simp add: one [simplified])
  then obtain s A3 perm3 where "drain_once_tracking demo_env None ?A (permanent_map first_worker)
      = (Some s, A3, perm3)"
    by (auto simp: first_worker_def)
  then show ?thesis by (simp add: worker_tick_def Let_def split: prod.split)
qed

text \<open>
  C29: Whatever happens after the start, every profile the service serves is a valid one and is
  served under its own name: requests, pages, sources added and removed, passes of the worker, edits
  of any file but the journal by somebody else, and reloads of the directory after them included.
\<close>

theorem served_profiles_are_valid:
  assumes "main_boot S C J K F from_args env0 fs w = Ready A env P creds n ws"
    "service_reaches (boot_site S P creds) wh (A, W) tr (A', W')"
    "app_profiles A' sid = Some p"
  shows "source_id p = sid \<and> source_id_is_safe sid \<and>
    profile_wf (tz_known (env_crates (site_env S))) p"
  using reached_tidy [OF assms(1,2)] assms(3)
  by (auto simp: tidy_def served_well_def profile_wf_def boot_site_def)

lemma served_profiles_are_valid_witness:
  "profile_wf (tz_known demo_crates) demo_profile \<and> source_id_is_safe ''s''"
proof -
  obtain B ws where b:
    "main_boot one_profile demo_crypto demo_json_text demo_kit free_lock start_kit start_env
       ((demo_disk [])(''a.toml'' \<mapsto> ''x'')) [] = Ready B start_env start_paths start_creds 0 ws"
    "app_files B ''a.toml'' = Some ''x''"
    by (rule one_profile_booted)
  let ?B = "B\<lparr>app_files := (app_files B)(''b.toml'' \<mapsto> ''y'')\<rparr>"
  have other: "''b.toml'' \<noteq> journal_path (env_journal (site_env one_site))"
    by (simp add: boot_site_def start_paths_def)
  have "app_files ?B ''a.toml'' = Some ''x''" using b(2) by simp
  from served_profiles_are_valid [OF b(1) edited_run [OF other, of None B first_worker "''y''"]
      one_profile_reloaded [OF this]]
  show ?thesis by (simp add: one_profile_def start_site_def demo_env_def)
qed

text \<open>
  C31: The memory of the service and its pace stay within their bounds: at most 100 deliveries are
  remembered, and the worker never waits less than 5 seconds or more than half an hour, however
  many passes have failed.
\<close>

theorem history_and_pace_are_bounded:
  assumes "main_boot S C J K F from_args env0 fs w = Ready A env P creds n ws"
    "service_reaches (boot_site S P creds) wh (A, W) tr (A', W')" "period W = POLL_INTERVAL_SECS"
  shows "length (ring_items (app_routes A')) \<le> 100 \<and> 5 \<le> period W' \<and> period W' \<le> 1800"
proof -
  have "paced W"
    using assms(3) by (simp add: paced_def FAILURE_BACKOFF_SECS_def POLL_INTERVAL_SECS_def)
  with paced_run [OF assms(2)] have "paced W'" by simp
  with reached_tidy [OF assms(1,2)] show ?thesis
    by (simp add: tidy_def paced_def HISTORY_CAPACITY_def FAILURE_BACKOFF_SECS_def
        POLL_INTERVAL_SECS_def)
qed

lemma history_and_pace_are_bounded_witness:
  "\<exists>B :: (string + http_response) list app. app_profiles B ''s'' = Some demo_profile \<and>
     length (ring_items (app_routes B)) \<le> 100 \<and> period first_worker \<le> 1800"
proof -
  obtain B ws where b:
    "main_boot one_profile demo_crypto demo_json_text demo_kit free_lock start_kit start_env
       ((demo_disk [])(''a.toml'' \<mapsto> ''x'')) [] = Ready B start_env start_paths start_creds 0 ws"
    "app_files B ''a.toml'' = Some ''x''"
    by (rule one_profile_booted)
  from history_and_pace_are_bounded [OF b(1) reload_run [of _ None B first_worker]]
    one_profile_reloaded [OF b(2)]
  show ?thesis by (auto simp: first_worker_def)
qed

text \<open>
  C30: A key keeps its lock for as long as the process runs, and shares it with no other key: a lock
  handed out in any state the service reached is that key's lock in every later state, and only
  that key's. So two deliveries under one key always wait for each other.
\<close>

theorem locks_last_and_are_not_shared:
  assumes "main_boot S C J K F from_args env0 fs w = Ready A env P creds n ws"
    "service_reaches (boot_site S P creds) wh (A, W) tr (A1, W1)"
    "service_reaches (boot_site S P creds) wh (A1, W1) tr' (A2, W2)"
    "lock_table (app_locks A1) k = Some l"
  shows "lock_table (app_locks A2) k' = Some l \<longleftrightarrow> k' = k"
proof -
  have "tidy (boot_site S P creds) A1 A1"
    using reached_tidy [OF assms(1,2)] by (auto simp: tidy_def locks_grow_def)
  with tidy_run [OF assms(3)] have "locks_grow (app_locks A1) (app_locks A2)"
    by (simp add: tidy_def)
  with assms(4) show ?thesis
    using locks.unshared by (fastforce simp: locks_grow_def)
qed

lemma fresh_lock:
  "snd (for_key ''s:7'' key_locks_new) = \<lparr>lock_table = [''s:7'' \<mapsto> 0], next_lock = 1\<rparr>"
  by (simp add: for_key_def key_locks_new_def)

lemma locks_last_and_are_not_shared_witness:
  "\<exists>(A1 :: (string + http_response) list app) (A2 :: (string + http_response) list app).
     app_locks A1 = \<lparr>lock_table = [''s:7'' \<mapsto> 0], next_lock = 1\<rparr> \<and>
     lock_table (app_locks A2) ''s:7'' = Some 0 \<and>
     lock_table (app_locks A2) ''s:8'' \<noteq> Some 0"
proof -
  obtain B ws where b:
    "main_boot one_profile demo_crypto demo_json_text demo_kit free_lock start_kit start_env
       ((demo_disk [])(''a.toml'' \<mapsto> ''x'')) [] = Ready B start_env start_paths start_creds 0 ws"
    "app_profiles B ''s'' = Some demo_profile"
    by (rule one_profile_booted)
  have "app_locks B = key_locks_new" by (rule boot_tidy(3) [OF b(1)])
  moreover have auth: "authenticate B ''s'' Admin = Inr demo_profile"
    by (simp add: authenticate_Inr b(2))
  moreover obtain r A1 where del: "delete_event (site_env one_site) ''s'' ''7'' Admin B = (r, A1)"
    by fastforce
  ultimately have locks: "app_locks A1 = \<lparr>lock_table = [''s:7'' \<mapsto> 0], next_lock = 1\<rparr>"
    using deletion_locks [OF auth del] fresh_lock by (simp add: source_key_def demo_profile_def)
  have again: "service_reaches one_site None (A1, first_worker) ([] @ [])
      (app_reload one_site A1, first_worker)"
    by (rule reload_run)
  have "lock_table (app_locks A1) ''s:7'' = Some 0" by (simp add: locks)
  from locks_last_and_are_not_shared [OF b(1) deletion_run [OF del] again this] locks
  show ?thesis by (intro exI [of _ A1] exI [of _ "app_reload one_site A1"]) simp
qed

text \<open>
  C2: The promise of 202, over the life of the process. After a post was answered 202, and then any
  sequence of posts, deletions, page visits, source changes, reloads and worker passes, the event is
  still waiting in the journal, or set aside in it with a reason, or one of the deliveries made on
  the way was a successful delivery of the entry with its id. No write is cut short, the id in the
  answer is not one the journal has settled before, and the journal is not kept among the profiles.
\<close>

theorem accepted_event_is_accounted_for:
  assumes "ingest (site_env S) src who header body A = (Some (202, reply), A1)"
    and "app_codec (site_env S)" "whole_writes (site_env S)"
      "serde_reads_request (env_crates (site_env S))"
    and "app_holds (site_env S) rs A" "tidy S A A" "journal_apart (site_env S) (app_profiles_dir A)"
    and "\<forall>i \<in> marked rs. json_get reply ''entry_id'' \<noteq> Some (JStr i)"
    and "service_reaches S wh (A1, W) tr (A', W')"
  shows "\<exists>e rs'. payload e = body \<and> json_get reply ''entry_id'' = Some (JStr (entry_id e)) \<and>
    app_holds (site_env S) rs' A' \<and>
    (e \<in> set (pending rs') \<or> (\<exists>why stamp. (e, why, stamp) \<in> set (dead rs')) \<or>
     (\<exists>(e', p, B) \<in> set tr. entry_id e' = entry_id e \<and>
        (\<exists>d. fst (app_deliver (site_env S) e' p B) = Ok d)))"
proof -
  obtain e where e: "app_holds (site_env S) (rs @ [EntryRec e]) A1" "payload e = body"
    "json_get reply ''entry_id'' = Some (JStr (entry_id e))"
    using accepted_facts [OF assms(2,4,5,1)] by blast
  have "still_held e (rs @ [EntryRec e])"
    using assms(8) e(3) by (auto simp: still_held_def pending_eq)
  moreover have "tidy S A A1" by (rule tidy_ingest [OF assms(1,6)])
  then have "log_goes_on (site_env S) (rs @ [EntryRec e]) tr A'"
    using log_run [OF assms(2,3,9) _ assms(7)] e(1) by simp
  ultimately obtain rs' where "app_holds (site_env S) rs' A'"
    "still_held e rs' \<or> succeeded (site_env S) (entry_id e) tr"
    unfolding log_goes_on_def by blast
  with e(2,3) show ?thesis
    by (intro exI [of _ e] exI [of _ rs'] conjI)
      (simp_all add: still_held_def succeeded_def disj_assoc)
qed

lemma demo_apart: "journal_apart demo_env (app_profiles_dir (demo_app rs w))"
proof -
  have "compact_temp ''j.jsonl'' \<noteq> ''j.jsonl''" by code_simp
  moreover have "\<not> in_dir ''profiles'' ''j.jsonl''"
    by (auto simp: in_dir_def path_join_def split: if_splits)
  ultimately show ?thesis
    by (simp add: journal_apart_def demo_app_def app_new_def demo_env_def demo_journal_def)
qed

lemma accepted_event_is_accounted_for_witness:
  "\<exists>tr A' W' (e :: entry) rs'.
     service_reaches start_site None
       (on_metrics count_accepted (demo_app [EntryRec demo_item] []), first_worker) tr (A', W') \<and>
     tr = drain_attempts demo_env None
       (on_metrics count_accepted (demo_app [EntryRec demo_item] [])) Map.empty \<and>
     app_holds demo_env rs' A' \<and> payload e = demo_payload"
proof -
  let ?A = "demo_app [] ([] :: (string + http_response) list)"
  let ?A1 = "on_metrics count_accepted (demo_app [EntryRec demo_item] ([] :: (string + http_response) list))"
  have env: "site_env start_site = demo_env" by (simp add: start_site_def)
  obtain A' W' where t: "worker_tick demo_env None ?A1 first_worker = Some (A', W')"
    using tick_after_post by blast
  have run: "service_reaches start_site None (?A1, first_worker)
      ([] @ drain_attempts demo_env None ?A1 Map.empty) (A', W')"
    using service_step.ticked [of start_site None ?A1 first_worker A' W'] t
    by (intro service_reaches.move [OF service_reaches.idle]) (simp add: env first_worker_def)
  have "served_well start_site ?A"
    using demo_profile_wf by (auto simp: served_well_def demo_app_def app_new_def env demo_env_def
        demo_profile_def split: if_splits)
  then have "tidy start_site ?A ?A"
    by (simp add: tidy_self demo_app_def app_new_def ring_new_def HISTORY_CAPACITY_def key_locks_new_wf)
  moreover have "journal_apart demo_env (app_profiles_dir ?A)" by (rule demo_apart)
  moreover have "app_holds demo_env [] ?A" by (rule demo_app_holds)
  moreover have "serde_reads_request (env_crates demo_env)" by (simp add: demo_serde demo_env_def)
  ultimately have "\<exists>e rs'. payload e = demo_payload \<and>
    json_get (JObj [(''status'', JStr ''accepted''), (''entry_id'', JStr ''u'')]) ''entry_id''
      = Some (JStr (entry_id e)) \<and> app_holds demo_env rs' A' \<and>
    (e \<in> set (pending rs') \<or> (\<exists>why stamp. (e, why, stamp) \<in> set (dead rs')) \<or>
     (\<exists>(e', p, B) \<in> set ([] @ drain_attempts demo_env None ?A1 Map.empty).
        entry_id e' = entry_id e \<and> (\<exists>d. fst (app_deliver demo_env e' p B) = Ok d)))"
    using accepted_event_is_accounted_for [where S = start_site, unfolded env,
        OF demo_ingest demo_app_codec demo_whole_writes _ _ _ _ _ run]
    by simp
  then obtain e :: entry and rs' where "payload e = demo_payload" "app_holds demo_env rs' A'"
    by (elim exE conjE)
  with run show ?thesis
    by (intro exI [of _ "drain_attempts demo_env None ?A1 Map.empty"] exI [of _ A'] exI [of _ W']
        exI [of _ e] exI [of _ rs']) simp
qed

end
