(* ===== verification/Stub_Properties.thy ===== *)
theory Stub_Properties
  imports Google_Stub Service_Properties Token_Properties
begin

text \<open>
  The program against the stand-ins its tests run it against: what a search finds there, what a
  refusal costs, and that a pass of the worker delivers everything when nothing is refused.
\<close>

section \<open>What the stub sends back\<close>

lemma map_of_put_key [simp]: "map_of (put_key k v kvs) = (map_of kvs)(k \<mapsto> v)"
  by (induction kvs) (auto simp: fun_eq_iff)

lemma put_key_keys: "fst ` set (put_key k v kvs) = insert k (fst ` set kvs)"
  by (induction k v kvs rule: put_key.induct) (simp_all add: insert_commute)

lemma put_key_plain:
  "json_plain (JObj kvs) \<Longrightarrow> utf8_valid k \<Longrightarrow> json_plain v \<Longrightarrow> json_plain (JObj (put_key k v kvs))"
proof (induction kvs)
  case Nil
  then show ?case by simp
next
  case (Cons kv kvs)
  then show ?case by (cases kv) (auto simp: put_key_keys)
qed

lemma event_of_fields_cong: "map_of kvs = map_of kvs' \<Longrightarrow> event_of_fields kvs = event_of_fields kvs'"
  by (simp add: event_of_fields_def field_def field_or_def)

text \<open>An event the client wrote comes back as it was, with the id the server gave it.\<close>

lemma assigned_event:
  assumes "event_in_range ev" "json_plain (event_to_json ev)" "utf8_valid i"
  obtains v where "json_assign ''id'' (JStr i) (event_to_json ev) = Some v" "json_plain v"
    "event_of_json v = Some (ev\<lparr>event_id := Some i\<rparr>)"
proof -
  obtain kvs where kvs: "event_to_json ev = JObj kvs"
    by (simp add: event_to_json_def)
  obtain kvs' where kvs': "event_to_json (ev\<lparr>event_id := Some i\<rparr>) = JObj kvs'"
    by (simp add: event_to_json_def)
  have "map_of (put_key ''id'' (JStr i) kvs) k = map_of kvs' k" for k
    using kvs kvs' by (auto simp: event_to_json_def simp del: map_of_append)
  then have "event_of_fields (put_key ''id'' (JStr i) kvs) = event_of_fields kvs'"
    by (intro event_of_fields_cong) blast
  also have "\<dots> = Some (ev\<lparr>event_id := Some i\<rparr>)"
    using event_json_roundtrip [of "ev\<lparr>event_id := Some i\<rparr>"] assms(1) kvs'
    by (simp add: event_in_range_def)
  moreover have "json_plain (JObj (put_key ''id'' (JStr i) kvs))"
    using assms(2,3) kvs by (intro put_key_plain) (simp_all add: utf8_valid.simps(2) byte_def)
  ultimately show thesis
    by (intro that [of "JObj (put_key ''id'' (JStr i) kvs)"]) (simp_all add: kvs)
qed

lemma show_nat_ascii: "c \<in> set (show_nat n) \<Longrightarrow> byte c < 128"
proof (induction n rule: show_nat.induct)
  case (1 n)
  have "byte (digit_char d) < 128" if "d < 10" for d
    using that by (simp add: digit_char_def byte_def)
  with 1 show ?case by (auto simp: show_nat.simps [of n] split: if_splits)
qed

lemma numbered_valid:
  "utf8_valid (''event-'' @ show_nat n)" "utf8_valid (''stub-token-'' @ show_nat n)"
proof -
  have digits: "utf8_valid (show_nat n)"
    by (rule ascii_valid) (rule show_nat_ascii)
  have "utf8_valid ''event-''" "utf8_valid ''stub-token-''"
    by (simp_all add: utf8_valid.simps(2) byte_def)
  then show "utf8_valid (''event-'' @ show_nat n)" "utf8_valid (''stub-token-'' @ show_nat n)"
    using digits by (simp_all only: utf8_append)
qed

section \<open>A call to the stub\<close>

text \<open>Three servers at three addresses, and a JSON text that reads back.\<close>

definition stubs_apart :: "stub_net \<Rightarrow> bool" where
  "stubs_apart N \<longleftrightarrow>
     json_text_ok (net_json N) \<and> trim_end_slashes (calendar_url N) = calendar_url N \<and>
     \<not> prefix (calendar_url N @ ''/'') (token_stub_url N) \<and>
     \<not> prefix (calendar_url N @ ''/'') (webhook_url N)"

text \<open>A segment of a URL: what the tests use for calendar and event ids.\<close>

definition one_segment :: "string \<Rightarrow> bool" where
  "one_segment s \<longleftrightarrow> s \<noteq> [] \<and> CHR ''/'' \<notin> set s"

abbreviation calendar_of :: "stub_world hub \<Rightarrow> calendar_state" where
  "calendar_of h \<equiv> at_calendar (outside h)"

abbreviation grants :: "stub_world \<Rightarrow> bool" where
  "grants w \<equiv> expires_in (at_token w) < 2 ^ 64"

lemma http_text_plain:
  assumes "json_text_ok (net_json N)" "json_plain v"
  obtains t where "http_text N (status, Some v) = \<lparr>resp_status = status, resp_body = Inr t\<rparr>"
    "js_parse (net_json N) t = Some v"
  using assms by (auto simp: http_text_def json_text_ok_def)

lemma response_from_stub:
  assumes "json_text_ok (net_json N)" "json_plain v" "f v = Some a"
  shows "response_json (stub_services N er sn) f (http_text N (status, Some v)) = Inr a"
    "resp_status (http_text N (status, Some v)) = status"
proof -
  obtain t where "http_text N (status, Some v) = \<lparr>resp_status = status, resp_body = Inr t\<rparr>"
    "js_parse (net_json N) t = Some v"
    by (rule http_text_plain [OF assms(1,2)])
  with assms(3) show "response_json (stub_services N er sn) f (http_text N (status, Some v)) = Inr a"
    "resp_status (http_text N (status, Some v)) = status"
    by (simp_all add: response_json_def stub_services_def)
qed

lemma stub_now: "now_secs (stub_services N er sn) h = (Inr (wall_clock (outside h)), h)"
  by (simp add: now_secs_def stub_services_def)

text \<open>Whatever the cache holds, the stub's token is to be had, and the calendar does not notice.\<close>

lemma stub_fetches:
  assumes "json_text_ok (net_json N)" "grants (outside h)"
  shows "\<exists>r t. fetch_token (stub_services N er sn) (stub_credentials (token_stub_url N)) h =
    (Inr r, h\<lparr>outside := (outside h)\<lparr>at_token := t\<rparr>\<rparr>) \<and> expires_in t = expires_in (at_token (outside h))"
proof -
  let ?S = "stub_services N er sn" and ?t = "at_token (outside h)"
  let ?v = "fst (issue_token ?t)"
  have "utf8_valid ''access_token''" "utf8_valid ''expires_in''"
    by (simp_all add: utf8_valid.simps(2) byte_def)
  then have v: "json_plain ?v"
    using assms(2) numbered_valid(2) [of "unat (hits ?t)"]
    by (simp add: issue_token_def i64_min_def del: append_Cons)
  have "token_of_json ?v = Some (''stub-token-'' @ show_nat (unat (hits ?t)), of_nat (expires_in ?t))"
    using assms(2) by (simp add: issue_token_def token_of_json_def field_def)
  note r = response_from_stub [where f = token_of_json, OF assms(1) v this]
  have send: "hub_send ?S (token_request (stub_credentials (token_stub_url N)) jwt) h =
      (Inr (http_text N (200, Some ?v)), h\<lparr>outside := (outside h)\<lparr>at_token := snd (issue_token ?t)\<rparr>\<rparr>)" for jwt
    by (simp add: hub_send_def stub_services_def stub_send_def token_request_def stub_credentials_def
        split: prod.split)
  have "sign_assertion ?S (stub_credentials (token_stub_url N)) now = Inr ''jwt''" for now
    by (simp add: sign_assertion_def stub_services_def)
  moreover have "expires_in (snd (issue_token ?t)) = expires_in ?t"
    by (simp add: issue_token_def)
  ultimately show ?thesis
    using r by (auto simp: fetch_token_def stub_now send is_success_def)
qed

lemma stub_token:
  assumes "json_text_ok (net_json N)" "grants (outside h)"
  obtains tok h1 where
    "get_token (stub_services N er sn) (stub_credentials (token_stub_url N)) h = (Inr tok, h1)"
    "calendar_of h1 = calendar_of h" "grants (outside h1)"
    "wall_clock (outside h1) = wall_clock (outside h)" "at_webhook (outside h1) = at_webhook (outside h)"
proof -
  let ?S = "stub_services N er sn" and ?C = "stub_credentials (token_stub_url N)"
  obtain b where n: "needs_refresh ?S h = (Inr b, h)"
    by (cases "token_cache h") (simp_all add: needs_refresh_def stub_now)
  show thesis
  proof (cases b)
    case True
    obtain tok expires t where
      "fetch_token ?S ?C h = (Inr (tok, expires), h\<lparr>outside := (outside h)\<lparr>at_token := t\<rparr>\<rparr>)"
      "expires_in t = expires_in (at_token (outside h))"
      using stub_fetches [OF assms, of er sn] by auto
    with n True assms(2) show thesis
      by (intro that [of tok "h\<lparr>outside := (outside h)\<lparr>at_token := t\<rparr>,
            token_cache := Some \<lparr>access_token = tok, expires_at_secs = expires\<rparr>,
            hub_metrics := count_token_refreshed (hub_metrics h)\<rparr>"])
        (simp_all add: get_token_def)
  next
    case False
    with n needs_refresh_empty [of h ?S] obtain st where "token_cache h = Some st"
      by (cases "token_cache h") auto
    with n False assms(2) show thesis
      by (intro that [of "access_token st" h]) (auto simp: get_token_def)
  qed
qed

section \<open>One call\<close>

text \<open>
  A request whose first answer is a success is sent once; the calendar stub sees it as the client
  built it.
\<close>

lemma path_below_base: "path_below base (base @ CHR ''/'' # path) = Some (segments path)"
  by (simp add: path_below_def)

lemma stub_attempt:
  assumes N: "stubs_apart N" and w: "grants (outside h)"
    and url: "\<And>tok. http_url (build tok) = calendar_url N @ CHR ''/'' # path"
    and routed: "\<And>tok. calendar_routes N (segments path) (build tok) (calendar_of h) = (Some a, s)"
  obtains h1 e where
    "client_attempt (stub_services N er sn) (stub_credentials (token_stub_url N)) build h =
      (if is_success (http_text N a) then Success (http_text N a)
       else if response_is_transient (stub_services N er sn) (http_text N a) then Retryable e
       else Fatal e, h1)"
    "calendar_of h1 = s" "grants (outside h1)"
proof -
  let ?S = "stub_services N er sn" and ?C = "stub_credentials (token_stub_url N)"
  from N have J: "json_text_ok (net_json N)"
    by (simp add: stubs_apart_def)
  obtain tok h1 where t: "get_token ?S ?C h = (Inr tok, h1)" "calendar_of h1 = calendar_of h"
    "grants (outside h1)"
    by (rule stub_token [OF J w])
  have apart: "http_url (build tok) \<noteq> token_stub_url N" "http_url (build tok) \<noteq> webhook_url N"
    using N unfolding stubs_apart_def url prefix_def by auto metis+
  let ?h = "h1\<lparr>outside := (outside h1)\<lparr>at_calendar := s\<rparr>\<rparr>"
  have "hub_send ?S (build tok) h1 = (Inr (http_text N a), ?h)"
    using apart url routed t(2)
    by (simp add: hub_send_def stub_services_def stub_send_def path_below_base answered_def)
  with t(1) have "\<exists>e. client_attempt ?S ?C build h =
      (if is_success (http_text N a) then Success (http_text N a)
       else if response_is_transient ?S (http_text N a) then Retryable e else Fatal e, ?h)"
    by (auto simp: client_attempt_def Let_def)
  then obtain e where "client_attempt ?S ?C build h =
      (if is_success (http_text N a) then Success (http_text N a)
       else if response_is_transient ?S (http_text N a) then Retryable e else Fatal e, ?h)" ..
  then show thesis
    by (rule that) (use t(3) in simp_all)
qed

lemma stub_call:
  assumes N: "stubs_apart N" and retry: "retry_ok retry" and w: "grants (outside h)"
    and url: "\<And>tok. http_url (build tok) = calendar_url N @ CHR ''/'' # path"
    and routed: "\<And>tok. calendar_routes N (segments path) (build tok) (calendar_of h) = (Some a, s)"
    and ok: "is_success (http_text N a)"
  obtains h1 where "call_google (stub_google N er sn retry) build h = (Inr (http_text N a), h1)"
    "calendar_of h1 = s" "grants (outside h1)"
proof -
  let ?S = "stub_services N er sn" and ?C = "stub_credentials (token_stub_url N)"
  obtain h1 e where "client_attempt ?S ?C build h =
      (if is_success (http_text N a) then Success (http_text N a)
       else if response_is_transient ?S (http_text N a) then Retryable e else Fatal e, h1)"
    and h1: "calendar_of h1 = s" "grants (outside h1)"
    by (rule stub_attempt [OF N w url routed])
  with ok have "client_attempt ?S ?C build h = (Success (http_text N a), h1)"
    by simp
  from send_success_once [OF retry this] h1 show thesis
    by (intro that) (simp_all add: call_google_def stub_google_def)
qed

text \<open>A stub that has nothing scripted against the client.\<close>

definition willing :: "calendar_state \<Rightarrow> bool" where
  "willing s \<longleftrightarrow> fail_times s = 0 \<and> reject_times s = 0"

lemma willing_refuses_nothing: "willing s \<Longrightarrow> refusal s = (None, s)"
  by (simp add: willing_def refusal_def take_rejection_def take_failure_def)

lemma willing_record [simp]: "willing (record_request verb cal s) = willing s"
  by (simp add: willing_def record_request_def)

text \<open>What was seeded, as events: each of a kind the client writes, with an id of its own.\<close>

definition sendable :: "google_event \<Rightarrow> bool" where
  "sendable ev \<longleftrightarrow> event_in_range ev \<and> json_plain (event_to_json ev)"

definition seeded :: "(string \<Rightarrow> google_event list) \<Rightarrow> calendar_state \<Rightarrow> bool" where
  "seeded evs s \<longleftrightarrow>
     (\<forall>cal. existing s cal = (if evs cal = [] then None else Some (map event_to_json (evs cal)))) \<and>
     (\<forall>cal. \<forall>ev \<in> set (evs cal). sendable ev \<and> (\<exists>i. event_id ev = Some i \<and> one_segment i))"

lemma split_at_equals_key:
  "CHR ''='' \<notin> set k \<Longrightarrow> split_at_equals (k @ CHR ''='' # v) = Some (k, v)"
  by (induction k) auto

lemma filter_finds_property:
  assumes "CHR ''='' \<notin> set k"
  shows "matches_filter (Some (k @ CHR ''='' # v)) (event_to_json ev) \<longleftrightarrow> private_property k ev = Some v"
proof (cases "event_properties ev")
  case None
  with assms show ?thesis
    by (simp add: matches_filter_def split_at_equals_key json_index_def event_to_json_def
        private_property_def del: map_of_append)
next
  case (Some p)
  have "map_of (map (\<lambda>(k, v). (k, JStr v)) (private_props p)) k = map_option JStr (map_of (private_props p) k)"
    by (induction "private_props p" arbitrary: p) (auto simp: map_of_map)
  with assms Some show ?thesis
    by (auto simp: matches_filter_def split_at_equals_key json_index_def event_to_json_def
        private_property_def properties_to_json_def split: option.splits simp del: map_of_append)
qed

lemma segment_path:
  assumes "one_segment cal"
  shows "segments (cal @ ''/events'') = [cal, ''events'']"
    "one_segment i \<Longrightarrow> segments (cal @ ''/events/'' @ i) = [cal, ''events'', i]"
  using assms by (simp_all add: one_segment_def segments_slash segments_plain)

lemma routed:
  assumes "one_segment cal"
  shows "http_method req = ''GET'' \<Longrightarrow> calendar_routes N [cal, ''events''] req s =
      reply_some (stub_list_events cal (http_query req) s)"
    "http_method req = ''POST'' \<Longrightarrow> http_body req = JsonBody v \<Longrightarrow>
      calendar_routes N [cal, ''events''] req s = stub_create_event cal v s"
    "http_method req = ''PUT'' \<Longrightarrow> http_body req = JsonBody v \<Longrightarrow> one_segment i \<Longrightarrow>
      calendar_routes N [cal, ''events'', i] req s = stub_update_event cal i v s"
  using assms by (auto simp: calendar_routes_def one_segment_def with_json_def Let_def)

lemma stub_urls:
  assumes "stubs_apart N"
  shows "events_url (stub_google N er sn retry) cal = calendar_url N @ CHR ''/'' # cal @ ''/events''"
    "event_url (stub_google N er sn retry) cal i = calendar_url N @ CHR ''/'' # cal @ ''/events/'' @ i"
  using assms
  by (simp_all add: stubs_apart_def events_url_def event_url_def stub_google_def
      client_with_base_url_def Let_def)

lemma sendable_back: "sendable ev \<Longrightarrow> event_of_json (event_to_json ev) = Some ev"
  by (simp add: sendable_def event_json_roundtrip)

lemma event_list_back:
  assumes "\<forall>ev \<in> set evs. sendable ev"
  shows "json_plain (JObj [(''items'', JArr (map event_to_json evs))])"
    "event_list_of_json (JObj [(''items'', JArr (map event_to_json evs))]) = Some (Some evs)"
proof -
  have "utf8_valid ''items''"
    by (simp add: utf8_valid.simps(2) byte_def)
  with assms show "json_plain (JObj [(''items'', JArr (map event_to_json evs))])"
    by (auto simp: sendable_def list_all_iff)
  have "those (map (event_of_json \<circ> event_to_json) evs) = Some (map id evs)"
    using assms by (intro those_map_Some) (simp add: sendable_back)
  then show "event_list_of_json (JObj [(''items'', JArr (map event_to_json evs))]) = Some (Some evs)"
    by (simp add: field_or_def)
qed

lemma stub_lists:
  assumes "willing s" "seeded evs s" "CHR ''='' \<notin> set k"
  shows "stub_list_events cal [(''privateExtendedProperty'', k @ CHR ''='' # v)] s =
    ((200, Some (JObj [(''items'', JArr (map event_to_json
        (filter (\<lambda>ev. private_property k ev = Some v) (evs cal))))])), record_request ''GET'' cal s)"
proof -
  have "(case existing s cal of None \<Rightarrow> [] | Some evs \<Rightarrow> evs) = map event_to_json (evs cal)"
    using assms(2) by (simp add: seeded_def)
  moreover have "existing (record_request ''GET'' cal s) = existing s"
    by (simp add: record_request_def)
  ultimately show ?thesis
    using assms(1,3)
    by (simp add: stub_list_events_def willing_refuses_nothing filter_map comp_def
        filter_finds_property)
qed

lemma stub_search:
  assumes N: "stubs_apart N" and retry: "retry_ok retry" and w: "grants (outside h)"
    and s: "willing (calendar_of h)" "seeded evs (calendar_of h)"
    and cal: "one_segment cal" and k: "CHR ''='' \<notin> set k"
  obtains h1 where "list_events_by_property (stub_google N er sn retry) cal k v h =
      (Inr (filter (\<lambda>ev. private_property k ev = Some v) (evs cal)), h1)"
    "calendar_of h1 = record_request ''GET'' cal (calendar_of h)" "grants (outside h1)"
proof -
  let ?G = "stub_google N er sn retry"
  let ?found = "filter (\<lambda>ev. private_property k ev = Some v) (evs cal)"
  let ?v = "JObj [(''items'', JArr (map event_to_json ?found))]"
  have "\<forall>ev \<in> set ?found. sendable ev"
    using s(2) by (auto simp: seeded_def)
  note read = event_list_back [OF this]
  from N have J: "json_text_ok (net_json N)"
    by (simp add: stubs_apart_def)
  note resp = response_from_stub [where f = event_list_of_json, OF J read]
  have routed: "calendar_routes N (segments (cal @ ''/events'')) (list_request ?G cal k v tok)
      (calendar_of h) = (Some (200, Some ?v), record_request ''GET'' cal (calendar_of h))" for tok
    using cal stub_lists [OF s k, of cal v]
    by (simp add: segment_path routed list_request_def api_request_def reply_some_def)
  have url: "http_url (list_request ?G cal k v tok) = calendar_url N @ CHR ''/'' # cal @ ''/events''" for tok
    by (simp add: list_request_def api_request_def stub_urls [OF N])
  obtain h1 where c: "call_google ?G (list_request ?G cal k v) h = (Inr (http_text N (200, Some ?v)), h1)"
    "calendar_of h1 = record_request ''GET'' cal (calendar_of h)" "grants (outside h1)"
    by (rule stub_call [where er = er and sn = sn, OF N retry w url routed])
      (simp add: is_success_def resp(2))
  have "response_json (env_services ?G) event_list_of_json (http_text N (200, Some ?v)) = Inr (Some ?found)"
    using resp(1) by (simp add: stub_google_def)
  with c show thesis
    by (intro that) (simp_all add: list_events_by_property_def parse_response_def event_list_items_def)
qed

text \<open>One event written: as a new one, or over the one with a given id.\<close>

lemma stub_creates:
  assumes N: "stubs_apart N" and retry: "retry_ok retry" and w: "grants (outside h)"
    and s: "willing (calendar_of h)" and cal: "one_segment cal" and ev: "sendable ev"
  obtains i h1 where
    "create_event (stub_google N er sn retry) cal ev h = (Inr (ev\<lparr>event_id := Some i\<rparr>), h1)"
    "calendar_of h1 = (record_request ''POST'' cal (calendar_of h))
      \<lparr>next_id := next_id (calendar_of h) + 1,
        created_events := created_events (calendar_of h) @ [(cal, event_to_json ev)]\<rparr>"
    "grants (outside h1)"
proof -
  let ?G = "stub_google N er sn retry" and ?s = "record_request ''POST'' cal (calendar_of h)"
  let ?i = "''event-'' @ show_nat (unat (next_id ?s))"
  let ?build = "api_request ''POST'' (events_url ?G cal) (JsonBody (event_to_json ev))"
  from N have J: "json_text_ok (net_json N)"
    by (simp add: stubs_apart_def)
  obtain v where v: "json_assign ''id'' (JStr ?i) (event_to_json ev) = Some v" "json_plain v"
    "event_of_json v = Some (ev\<lparr>event_id := Some ?i\<rparr>)"
    using assigned_event [OF _ _ numbered_valid(1)] ev unfolding sendable_def by blast
  note resp = response_from_stub [where f = event_of_json, OF J v(2,3)]
  have routed: "calendar_routes N (segments (cal @ ''/events'')) (?build tok) (calendar_of h) =
      (Some (200, Some v), ?s\<lparr>next_id := next_id ?s + 1,
        created_events := created_events ?s @ [(cal, event_to_json ev)]\<rparr>)" for tok
    using cal s v(1)
    by (simp add: segment_path routed api_request_def stub_create_event_def willing_refuses_nothing
        Let_def del: json_assign.simps)
  have url: "http_url (?build tok) = calendar_url N @ CHR ''/'' # cal @ ''/events''" for tok
    by (simp add: api_request_def stub_urls [OF N])
  obtain h1 where c: "call_google ?G ?build h = (Inr (http_text N (200, Some v)), h1)"
    "calendar_of h1 = ?s\<lparr>next_id := next_id ?s + 1,
        created_events := created_events ?s @ [(cal, event_to_json ev)]\<rparr>" "grants (outside h1)"
    by (rule stub_call [where er = er and sn = sn, OF N retry w url routed])
      (simp add: is_success_def resp(2))
  have "response_json (env_services ?G) event_of_json (http_text N (200, Some v)) =
      Inr (ev\<lparr>event_id := Some ?i\<rparr>)"
    using resp(1) by (simp add: stub_google_def)
  with c show thesis
    by (intro that [of ?i h1])
      (simp_all add: create_event_def parse_response_def record_request_def)
qed

lemma stub_updates:
  assumes N: "stubs_apart N" and retry: "retry_ok retry" and w: "grants (outside h)"
    and s: "willing (calendar_of h)" and cal: "one_segment cal" and ev: "sendable ev"
    and i: "one_segment i" "utf8_valid i"
  obtains h1 where
    "update_event (stub_google N er sn retry) cal i ev h = (Inr (ev\<lparr>event_id := Some i\<rparr>), h1)"
    "calendar_of h1 = record_request ''PUT'' cal (calendar_of h)" "grants (outside h1)"
proof -
  let ?G = "stub_google N er sn retry"
  let ?build = "api_request ''PUT'' (event_url ?G cal i) (JsonBody (event_to_json ev))"
  from N have J: "json_text_ok (net_json N)"
    by (simp add: stubs_apart_def)
  obtain v where v: "json_assign ''id'' (JStr i) (event_to_json ev) = Some v" "json_plain v"
    "event_of_json v = Some (ev\<lparr>event_id := Some i\<rparr>)"
    using assigned_event [OF _ _ i(2)] ev unfolding sendable_def by blast
  note resp = response_from_stub [where f = event_of_json, OF J v(2,3)]
  have routed: "calendar_routes N (segments (cal @ ''/events/'' @ i)) (?build tok) (calendar_of h) =
      (Some (200, Some v), record_request ''PUT'' cal (calendar_of h))" for tok
    unfolding segment_path(2) [OF cal i(1)] using cal s v(1) i(1)
    by (simp add: routed api_request_def stub_update_event_def willing_refuses_nothing
        del: json_assign.simps)
  have url: "http_url (?build tok) = calendar_url N @ CHR ''/'' # cal @ ''/events/'' @ i" for tok
    by (simp add: api_request_def stub_urls [OF N])
  obtain h1 where c: "call_google ?G ?build h = (Inr (http_text N (200, Some v)), h1)"
    "calendar_of h1 = record_request ''PUT'' cal (calendar_of h)" "grants (outside h1)"
    by (rule stub_call [where er = er and sn = sn, OF N retry w url routed])
      (simp add: is_success_def resp(2))
  have "response_json (env_services ?G) event_of_json (http_text N (200, Some v)) =
      Inr (ev\<lparr>event_id := Some i\<rparr>)"
    using resp(1) by (simp add: stub_google_def)
  with c show thesis
    by (intro that) (simp_all add: update_event_def parse_response_def)
qed

section \<open>A delivery and a pass\<close>

lemma first_of_filter: "first_event (filter P evs) = find P evs"
  by (induction evs) auto

lemma sendable_id: "sendable ev \<Longrightarrow> event_id ev = Some i \<Longrightarrow> utf8_valid i"
  by (simp add: sendable_def event_to_json_def)

text \<open>The seeded event an entry's key is on, if there is one.\<close>

definition already_there :: "(string \<Rightarrow> google_event list) \<Rightarrow> string \<Rightarrow> string option \<Rightarrow> google_event option" where
  "already_there evs cal key =
     Option.bind key (\<lambda>k. find (\<lambda>ev. private_property UPSERT_PROPERTY ev = Some k) (evs cal))"

text \<open>A calendar stub that has been asked for one more write.\<close>

definition wrote :: "string \<Rightarrow> (string \<times> json) list \<Rightarrow> calendar_state \<Rightarrow> calendar_state \<Rightarrow> bool" where
  "wrote cal created s s1 \<longleftrightarrow>
     willing s1 \<and> existing s1 = existing s \<and>
     calendars_written s1 = calendars_written s @ [cal] \<and>
     created_events s1 = created_events s @ created"

lemma record_request_frame [simp]:
  "existing (record_request verb cal s) = existing s"
  "created_events (record_request verb cal s) = created_events s"
  "calendars_written (record_request verb cal s) =
     calendars_written s @ (if verb = ''POST'' \<or> verb = ''PUT'' then [cal] else [])"
  by (simp_all add: record_request_def calendars_written_def)

lemma stub_deliver_new:
  assumes N: "stubs_apart N" and retry: "retry_ok retry" and w: "grants (outside h)"
    and s: "willing (calendar_of h)" and cal: "one_segment cal" and ev: "sendable ev"
  obtains d h1 where "deliver_new (stub_google N er sn retry) cal ev key h = (Ok d, h1)"
    "del_created d" "wrote cal [(cal, event_to_json ev)] (calendar_of h) (calendar_of h1)"
    "grants (outside h1)"
proof -
  obtain i h1 where c:
    "create_event (stub_google N er sn retry) cal ev h = (Inr (ev\<lparr>event_id := Some i\<rparr>), h1)"
    "calendar_of h1 = (record_request ''POST'' cal (calendar_of h))
      \<lparr>next_id := next_id (calendar_of h) + 1,
        created_events := created_events (calendar_of h) @ [(cal, event_to_json ev)]\<rparr>"
    "grants (outside h1)"
    by (rule stub_creates [OF N retry w s cal ev])
  then have "wrote cal [(cal, event_to_json ev)] (calendar_of h) (calendar_of h1)"
    using s by (simp add: wrote_def calendars_written_def willing_def record_request_def)
  with c(1,3) show thesis
    by (intro that [of _ h1]) (simp_all add: deliver_new_def)+
qed

lemma stub_deliver_keyed:
  assumes N: "stubs_apart N" and retry: "retry_ok retry" and w: "grants (outside h)"
    and s: "willing (calendar_of h)" "seeded evs (calendar_of h)"
    and cal: "one_segment cal" and ev: "sendable ev"
  obtains d h1 where "deliver_keyed (stub_google N er sn retry) cal ev k h = (Ok d, h1)"
    "del_created d \<longleftrightarrow> already_there evs cal (Some k) = None"
    "wrote cal (if already_there evs cal (Some k) = None then [(cal, event_to_json ev)] else [])
       (calendar_of h) (calendar_of h1)"
    "grants (outside h1)"
proof -
  let ?G = "stub_google N er sn retry" and ?known = "already_there evs cal (Some k)"
  have "CHR ''='' \<notin> set UPSERT_PROPERTY"
    by (simp add: UPSERT_PROPERTY_def)
  from stub_search [OF N retry w s cal this] obtain h1 where
    "list_events_by_property ?G cal UPSERT_PROPERTY k h =
      (Inr (filter (\<lambda>ev. private_property UPSERT_PROPERTY ev = Some k) (evs cal)), h1)"
    and h1: "calendar_of h1 = record_request ''GET'' cal (calendar_of h)" "grants (outside h1)"
    by blast
  then have f: "find_event_by_property ?G cal UPSERT_PROPERTY k h = (Inr ?known, h1)"
    by (simp add: find_event_by_property_def first_of_filter already_there_def)
  from h1 s have s1: "willing (calendar_of h1)" by simp
  show thesis
  proof (cases ?known)
    case None
    obtain d h2 where "deliver_new ?G cal ev (Some k) h1 = (Ok d, h2)" "del_created d"
      "wrote cal [(cal, event_to_json ev)] (calendar_of h1) (calendar_of h2)" "grants (outside h2)"
      by (rule stub_deliver_new [OF N retry h1(2) s1 cal ev])
    with f None h1(1) show thesis
      by (intro that [of _ h2]) (simp_all add: deliver_keyed_def wrote_def)+
  next
    case (Some old)
    then have "old \<in> set (evs cal)"
      by (auto simp: already_there_def dest: find_member)
    with s(2) obtain i where i: "sendable old" "event_id old = Some i" "one_segment i"
      unfolding seeded_def by blast
    obtain h2 where "update_event ?G cal i ev h1 = (Inr (ev\<lparr>event_id := Some i\<rparr>), h2)"
      "calendar_of h2 = record_request ''PUT'' cal (calendar_of h1)" "grants (outside h2)"
      by (rule stub_updates [OF N retry h1(2) s1 cal ev i(3) sendable_id [OF i(1,2)]])
    with f Some h1(1) i(2) s show thesis
      by (intro that [of _ h2]) (simp_all add: deliver_keyed_def wrote_def)+
  qed
qed

lemma stub_delivers:
  assumes N: "stubs_apart N" and retry: "retry_ok retry" and w: "grants (outside h)"
    and s: "willing (calendar_of h)" "seeded evs (calendar_of h)"
    and m: "map_payload K (payload e) p (''profile '' @ source_id p) = Ok ev"
    and cal: "one_segment (target_calendar_id p)" and ev: "sendable (tag_event (upsert_key e ev) ev)"
  obtains d h1 where "deliver K (stub_google N er sn retry) e p h = (Ok d, h1)"
    "wrote (target_calendar_id p)
       (if already_there evs (target_calendar_id p) (upsert_key e ev) = None
        then [(target_calendar_id p, event_to_json (tag_event (upsert_key e ev) ev))] else [])
       (calendar_of h) (calendar_of h1)"
    "grants (outside h1)"
proof (cases "upsert_key e ev")
  case None
  obtain d h1 where
    "deliver_new (stub_google N er sn retry) (target_calendar_id p) (tag_event None ev) None h = (Ok d, h1)"
    "wrote (target_calendar_id p) [(target_calendar_id p, event_to_json (tag_event None ev))]
       (calendar_of h) (calendar_of h1)" "grants (outside h1)"
    by (rule stub_deliver_new [OF N retry w s(1) cal ev [unfolded None]])
  with m None show thesis
    by (intro that [of _ h1]) (simp_all add: deliver_def Let_def already_there_def)
next
  case (Some k)
  obtain d h1 where
    "deliver_keyed (stub_google N er sn retry) (target_calendar_id p) (tag_event (Some k) ev) k h = (Ok d, h1)"
    "wrote (target_calendar_id p) (if already_there evs (target_calendar_id p) (Some k) = None
        then [(target_calendar_id p, event_to_json (tag_event (Some k) ev))] else [])
       (calendar_of h) (calendar_of h1)" "grants (outside h1)"
    by (rule stub_deliver_keyed [OF N retry w s cal ev [unfolded Some]])
  with m Some show thesis
    by (intro that [of _ h1]) (auto simp: deliver_def Let_def)
qed

text \<open>
  What the rest of the process does to the outside while a pass runs does not concern the calendar
  or the token server.
\<close>

definition undisturbed :: "(stub_world, 'k, 'dt, 'nd) app_env \<Rightarrow> bool" where
  "undisturbed E \<longleftrightarrow>
     (\<forall>w. at_calendar (snd (env_now E w)) = at_calendar w \<and>
        at_token (snd (env_now E w)) = at_token w \<and>
        at_calendar (snd (env_uuid E w)) = at_calendar w \<and>
        at_token (snd (env_uuid E w)) = at_token w \<and>
        at_calendar (snd (env_append_faults E w)) = at_calendar w \<and>
        at_token (snd (env_append_faults E w)) = at_token w \<and>
        at_calendar (snd (env_read_fault E w)) = at_calendar w \<and>
        at_token (snd (env_read_fault E w)) = at_token w)"

lemma ask_world: "outside (app_hub (snd (ask f A))) = snd (f (outside (app_hub A)))"
  by (simp add: ask_def split: prod.split)

abbreviation stub_of :: "stub_world app \<Rightarrow> calendar_state" where
  "stub_of A \<equiv> calendar_of (app_hub A)"

lemma undisturbed_asks:
  assumes "undisturbed E"
  shows "stub_of (record_route E e r A) = stub_of A"
    "at_token (outside (app_hub (record_route E e r A))) = at_token (outside (app_hub A))"
    "stub_of (snd (app_mark_done E i A)) = stub_of A"
    "at_token (outside (app_hub (snd (app_mark_done E i A)))) = at_token (outside (app_hub A))"
    "stub_of (snd (app_pending E A)) = stub_of A"
    "at_token (outside (app_hub (snd (app_pending E A)))) = at_token (outside (app_hub A))"
  using assms ask_world [of "env_now E" A] ask_world [of "env_append_faults E" A]
    ask_world [of "env_read_fault E" A]
  by (auto simp: undisturbed_def record_route_def app_mark_done_def app_pending_def
      split: prod.splits)

text \<open>An entry that this service can deliver: its source is known and its payload maps.\<close>

definition outgoing :: "('dt, 'nd) crates \<Rightarrow> (string \<rightharpoonup> profile) \<Rightarrow> entry \<Rightarrow> (string \<times> google_event \<times> string option) option" where
  "outgoing K profiles e =
     (case profiles (entry_source e) of
        None \<Rightarrow> None
      | Some p \<Rightarrow>
          (case map_payload K (payload e) p (''profile '' @ source_id p) of
             Ok ev \<Rightarrow> Some (target_calendar_id p, tag_event (upsert_key e ev) ev, upsert_key e ev)
           | _ \<Rightarrow> None))"

definition deliverable :: "('dt, 'nd) crates \<Rightarrow> (string \<rightharpoonup> profile) \<Rightarrow> entry \<Rightarrow> bool" where
  "deliverable K profiles e \<longleftrightarrow>
     (\<exists>cal ev key. outgoing K profiles e = Some (cal, ev, key) \<and> one_segment cal \<and> sendable ev)"

fun new_event ::
  "(string \<Rightarrow> google_event list) \<Rightarrow> string \<times> google_event \<times> string option \<Rightarrow> (string \<times> json) list" where
  "new_event evs (cal, ev, key) =
     (if already_there evs cal key = None then [(cal, event_to_json ev)] else [])"

lemma stub_drain_one:
  assumes N: "stubs_apart N" and retry: "retry_ok retry" and E: "undisturbed E"
    "env_google E = stub_google N er sn retry"
    and w: "grants (outside (app_hub A))" and s: "willing (stub_of A)" "seeded evs (stub_of A)"
    and e: "outgoing (env_crates E) profiles e = Some out" "one_segment (fst out)"
      "sendable (fst (snd out))"
  obtains A1 where "drain_one E wh profiles e A perm = (Some True, A1, perm)"
    "wrote (fst out) (new_event evs out) (stub_of A) (stub_of A1)" "grants (outside (app_hub A1))"
proof -
  from e(1) obtain p ev where p: "profiles (entry_source e) = Some p"
    "map_payload (env_crates E) (payload e) p (''profile '' @ source_id p) = Ok ev"
    and out: "out = (target_calendar_id p, tag_event (upsert_key e ev) ev, upsert_key e ev)"
    by (auto simp: outgoing_def split: option.splits outcome.splits)
  obtain d h1 where d: "deliver (env_crates E) (env_google E) e p (app_hub A) = (Ok d, h1)"
    "wrote (fst out) (new_event evs out) (stub_of A) (calendar_of h1)" "grants (outside h1)"
    using stub_delivers [where er = er and sn = sn, OF N retry w s p(2)] e(2,3) E(2)
    by (auto simp: out)
  with p(1) show thesis
    by (intro that [of "snd (app_mark_done E (entry_id e) (record_route E e (Inr d)
          (snd (app_deliver E e p A))))"])
      (simp_all add: drain_one_def app_deliver_def undisturbed_asks [OF E(1)])
qed

lemma wrote_frame:
  "wrote cal created s s1 \<Longrightarrow> willing s1 \<and> (seeded evs s1 \<longleftrightarrow> seeded evs s)"
  by (simp add: wrote_def seeded_def)

fun writable :: "string \<times> google_event \<times> string option \<Rightarrow> bool" where
  "writable (cal, ev, key) \<longleftrightarrow> one_segment cal \<and> sendable ev"

lemma stub_drain_all:
  assumes N: "stubs_apart N" and retry: "retry_ok retry" and E: "undisturbed E"
    "env_google E = stub_google N er sn retry"
  shows "grants (outside (app_hub A)) \<Longrightarrow> willing (stub_of A) \<Longrightarrow> seeded evs (stub_of A) \<Longrightarrow>
    map (outgoing (env_crates E) profiles) es = map Some outs \<Longrightarrow> list_all writable outs \<Longrightarrow>
    \<exists>A1. drain_all E wh profiles es d f A perm =
        (Some \<lparr>sum_delivered = d + length es, sum_failed = f\<rparr>, A1, perm) \<and>
      calendars_written (stub_of A1) = calendars_written (stub_of A) @ map fst outs \<and>
      created_events (stub_of A1) = created_events (stub_of A) @ concat (map (new_event evs) outs)"
proof (induction es arbitrary: A d outs)
  case Nil
  then show ?case by simp
next
  case (Cons e es)
  from Cons.prems(4) obtain out outs1 where outs: "outs = out # outs1"
    "outgoing (env_crates E) profiles e = Some out"
    "map (outgoing (env_crates E) profiles) es = map Some outs1"
    by (cases outs) auto
  from Cons.prems(5) outs(1) have w: "one_segment (fst out)" "sendable (fst (snd out))"
    "list_all writable outs1"
    by (cases out; simp)+
  obtain A1 where one: "drain_one E wh profiles e A perm = (Some True, A1, perm)"
    "wrote (fst out) (new_event evs out) (stub_of A) (stub_of A1)" "grants (outside (app_hub A1))"
    by (rule stub_drain_one [OF N retry E Cons.prems(1-3) outs(2) w(1,2)])
  with wrote_frame [OF one(2), of evs] Cons.prems(3) have "willing (stub_of A1)" "seeded evs (stub_of A1)"
    by simp_all
  from Cons.IH [OF one(3) this outs(3) w(3), of "d + 1"] one(1,2) show ?case
    by (auto simp: outs(1) wrote_def)
qed

lemma stub_pass:
  assumes "stubs_apart N" "retry_ok retry" "undisturbed E" "env_google E = stub_google N er sn retry"
    "grants (outside (app_hub A))" "willing (stub_of A)" "seeded evs (stub_of A)"
    and "fst (app_pending E A) = Inr es"
      "map (outgoing (env_crates E) (app_profiles A)) es = map Some outs" "list_all writable outs"
  shows "\<exists>A1. drain_once_tracking E wh A perm =
      (Some \<lparr>sum_delivered = length es, sum_failed = 0\<rparr>, A1, perm) \<and>
    calendars_written (stub_of A1) = calendars_written (stub_of A) @ map fst outs \<and>
    created_events (stub_of A1) = created_events (stub_of A) @ concat (map (new_event evs) outs)"
proof -
  obtain A0 where p: "app_pending E A = (Inr es, A0)"
    using assms(8) by (metis prod.collapse)
  have A0: "stub_of A0 = stub_of A" "grants (outside (app_hub A0))" "app_profiles A0 = app_profiles A"
    using undisturbed_asks(5,6) [OF assms(3), of A] p assms(5)
    by (auto simp: app_pending_def dest!: ask_frame split: prod.splits)
  show ?thesis
  proof (cases es)
    case Nil
    with p A0 assms(9) show ?thesis by (simp add: drain_once_tracking_def)
  next
    case (Cons e es')
    obtain A1 where d: "drain_all E wh (app_profiles A) es 0 0 A0 perm =
        (Some \<lparr>sum_delivered = length es, sum_failed = 0\<rparr>, A1, perm)"
      "calendars_written (stub_of A1) = calendars_written (stub_of A) @ map fst outs"
      "created_events (stub_of A1) = created_events (stub_of A) @ concat (map (new_event evs) outs)"
      using stub_drain_all [OF assms(1-4) A0(2) _ _ assms(9,10), of evs wh 0 0 perm] assms(6,7) A0(1)
      by auto
    with p A0(3) Cons show ?thesis
      by (simp add: drain_once_tracking_def on_metrics_def del: drain_all.simps)
  qed
qed

text \<open>What a search for a key matches among the events a pass created.\<close>

abbreviation search_for :: "string \<Rightarrow> string option" where
  "search_for k \<equiv> Some (UPSERT_PROPERTY @ CHR ''='' # k)"

definition created_under :: "string \<Rightarrow> string \<Rightarrow> (string \<times> json) list \<Rightarrow> nat" where
  "created_under cal k made = length (filter (\<lambda>(c, v). c = cal \<and> matches_filter (search_for k) v) made)"

definition keyed :: "string \<times> google_event \<times> string option \<Rightarrow> (string \<times> string) option" where
  "keyed out = map_option (Pair (fst out)) (snd (snd out))"

lemma outgoing_key:
  assumes "outgoing K profiles e = Some (cal, ev, key)"
  shows "private_property UPSERT_PROPERTY ev = key"
proof -
  from assms obtain p ev' where m: "map_payload K (payload e) p (''profile '' @ source_id p) = Ok ev'"
    and ev: "ev = tag_event (upsert_key e ev') ev'" "key = upsert_key e ev'"
    by (auto simp: outgoing_def split: option.splits outcome.splits)
  show ?thesis
  proof (cases key)
    case None
    with m ev untagged [of K "payload e" p _ ev' e] show ?thesis by (simp add: private_property_def)
  next
    case (Some k)
    with m ev tagged_with_key [OF m, of e k] show ?thesis by simp
  qed
qed

lemma matches_key:
  "matches_filter (search_for k) (event_to_json ev) \<longleftrightarrow> private_property UPSERT_PROPERTY ev = Some k"
  by (rule filter_finds_property) (simp add: UPSERT_PROPERTY_def)

lemma created_under_outs:
  assumes "\<forall>out \<in> set outs. private_property UPSERT_PROPERTY (fst (snd out)) = snd (snd out)"
  shows "created_under cal k (concat (map (new_event evs) outs)) =
    (if already_there evs cal (Some k) = None
     then length (filter (\<lambda>out. keyed out = Some (cal, k)) outs) else 0)"
  using assms
proof (induction outs)
  case Nil
  then show ?case by (simp add: created_under_def)
next
  case (Cons out outs)
  then show ?case
    by (cases out) (auto simp: created_under_def matches_key keyed_def)
qed

lemma one_of_distinct:
  "distinct (List.map_filter f xs) \<Longrightarrow> x \<in> set xs \<Longrightarrow> f x = Some y \<Longrightarrow>
   length (filter (\<lambda>z. f z = Some y) xs) = 1"
proof (induction xs)
  case Nil
  then show ?case by simp
next
  case (Cons z zs)
  have none: "filter (\<lambda>z. f z = Some y) zs = []" if "y \<notin> set (List.map_filter f zs)"
    using that by (force simp: filter_empty_conv List.map_filter_def)
  have some: "y \<in> set (List.map_filter f zs)" if "x \<in> set zs"
    using that Cons.prems(3) by (force simp: List.map_filter_def)
  show ?case
  proof (cases "f z = Some y")
    case True
    then have "y \<notin> set (List.map_filter f zs)"
      using Cons.prems(1) by (simp add: List.map_filter_def)
    with True none show ?thesis by simp
  next
    case False
    then have "x \<in> set zs" using Cons.prems(2,3) by auto
    moreover have "distinct (List.map_filter f zs)"
      using Cons.prems(1) by (cases "f z") (simp_all add: List.map_filter_def)
    ultimately show ?thesis using Cons.IH Cons.prems(3) False by simp
  qed
qed

text \<open>
  C9: With nothing refused, one pass delivers everything. Against the calendar stub of the tests, whose
  searches see the events seeded in it and not the ones created since, so that the entries waiting
  have no key in common: if each entry's source is known and its payload maps, the pass reports every
  entry delivered and none failed; the calendars written to are those of the entries' profiles, one
  write each, in the order of the journal; the events created are those whose key is on no event
  yet, with the mapped event as their body; and a key has exactly one new event, or none when it was
  there already.
\<close>

theorem one_pass_delivers_everything:
  assumes "stubs_apart N" "retry_ok retry" "undisturbed E" "env_google E = stub_google N er sn retry"
    "grants (outside (app_hub A))" "willing (stub_of A)" "seeded evs (stub_of A)"
    and "fst (app_pending E A) = Inr es"
      "map (outgoing (env_crates E) (app_profiles A)) es = map Some outs" "list_all writable outs"
    and "distinct (List.map_filter keyed outs)"
  shows "\<exists>A1 made. drain_once_tracking E wh A perm =
      (Some \<lparr>sum_delivered = length es, sum_failed = 0\<rparr>, A1, perm) \<and>
    calendars_written (stub_of A1) = calendars_written (stub_of A) @ map fst outs \<and>
    created_events (stub_of A1) = created_events (stub_of A) @ made \<and>
    made = concat (map (new_event evs) outs) \<and>
    (\<forall>(cal, ev, key) \<in> set outs. \<forall>k. key = Some k \<longrightarrow>
       created_under cal k made = (if already_there evs cal (Some k) = None then 1 else 0))"
proof -
  let ?made = "concat (map (new_event evs) outs)"
  have "\<forall>out \<in> set outs. \<exists>e. outgoing (env_crates E) (app_profiles A) e = Some out"
    using assms(9) by (metis (no_types, lifting) image_iff list.set_map)
  then have keys: "\<forall>out \<in> set outs. private_property UPSERT_PROPERTY (fst (snd out)) = snd (snd out)"
    by (metis outgoing_key prod.collapse)
  have "created_under cal k ?made = (if already_there evs cal (Some k) = None then 1 else 0)"
    if "(cal, ev, Some k) \<in> set outs" for cal ev k
    unfolding created_under_outs [OF keys]
    using one_of_distinct [OF assms(11) that] by (simp add: keyed_def)
  with stub_pass [OF assms(1-10), of wh perm] show ?thesis by fastforce
qed

subsection \<open>A service that talks to the stubs\<close>

definition stub_net_demo :: stub_net where
  "stub_net_demo = \<lparr>calendar_url = ''http://c'', token_stub_url = ''http://t'',
     webhook_url = ''http://w'', net_refused = ''refused'', net_dropped = ''closed'',
     net_walk = (\<lambda>m. []), net_json = demo_json_text\<rparr>"

definition stub_world_demo :: stub_world where
  "stub_world_demo = \<lparr>at_calendar = calendar_state_default, at_token = token_stub_start 3600,
     at_webhook = [], wall_clock = 0\<rparr>"

definition stub_env :: "(stub_world, unit, int, int) app_env" where
  "stub_env = \<lparr>env_crates = demo_crates,
     env_google = stub_google stub_net_demo (\<lambda>t. None) show_nat (retry_up_to 2),
     env_journal = demo_journal, env_encoder = demo_enc, env_decoder = demo_dec,
     env_append_faults = (\<lambda>w. (no_append_faults, w)), env_read_fault = (\<lambda>w. (None, w)),
     env_rewrite_faults = (\<lambda>w. (no_rewrite_faults, w)), env_now = (\<lambda>w. (''now'', w)),
     env_uuid = (\<lambda>w. (''u'', w)), env_version = ''1''\<rparr>"

abbreviation stub_app :: "stub_world app" where
  "stub_app \<equiv> app_new [''s'' \<mapsto> demo_profile] (demo_disk [EntryRec demo_item]) stub_world_demo"

lemma stub_demo_apart: "stubs_apart stub_net_demo"
  by (simp add: stubs_apart_def stub_net_demo_def demo_json_text_ok trim_end_slashes_def)

lemma demo_sendable: "sendable demo_event"
  by (simp add: sendable_def event_in_range_def demo_event_def event_to_json_def
      properties_to_json_def UPSERT_PROPERTY_def utf8_valid.simps(2) byte_def)

lemma stub_start:
  "undisturbed stub_env" "willing (stub_of stub_app)" "seeded (\<lambda>cal. []) (stub_of stub_app)"
  "grants (outside (app_hub stub_app))" "created_events (stub_of stub_app) = []"
  by (simp_all add: undisturbed_def stub_env_def app_new_def stub_world_demo_def willing_def
      calendar_state_default_def seeded_def token_stub_start_def)

lemma stub_env_fields:
  "env_google stub_env = stub_google stub_net_demo (\<lambda>t. None) show_nat (retry_up_to 2)"
  "env_crates stub_env = demo_crates"
  by (simp_all add: stub_env_def)

lemma stub_pending: "fst (app_pending stub_env stub_app) = Inr [demo_item]"
proof -
  have "read_records demo_dec demo_journal None (demo_disk [EntryRec demo_item]) =
      Inr [EntryRec demo_item]"
    by (rule holds_read [OF demo_codec demo_holds])
  then show ?thesis
    by (simp add: app_pending_def ask_def stub_env_def app_new_def journal_pending_def pending_eq)
qed

lemma stub_outgoing:
  "outgoing demo_crates (app_profiles stub_app) demo_item = Some (''cal'', demo_event, Some ''s:7'')"
proof -
  have "tag_event (Some k) demo_event = demo_event" for k
    by (simp add: tag_event_def demo_event_def)
  moreover have "entry_source demo_item = ''s''"
    by (simp add: demo_item_def)
  moreover have "target_calendar_id demo_profile = ''cal''"
    by (simp add: demo_profile_def)
  ultimately show ?thesis
    by (simp add: outgoing_def app_new_def demo_item_maps demo_item_key)
qed

lemma one_pass_delivers_everything_witness:
  "\<exists>A1. drain_once_tracking stub_env None stub_app Map.empty =
      (Some \<lparr>sum_delivered = 1, sum_failed = 0\<rparr>, A1, Map.empty) \<and>
    created_events (stub_of A1) = [(''cal'', event_to_json demo_event)]"
proof -
  have out: "map (outgoing (env_crates stub_env) (app_profiles stub_app)) [demo_item] =
      map Some [(''cal'', demo_event, Some ''s:7'')]"
    by (simp add: stub_outgoing stub_env_fields)
  have ok: "list_all writable [(''cal'', demo_event, Some ''s:7'')]"
    by (simp add: one_segment_def demo_sendable)
  from one_pass_delivers_everything [OF stub_demo_apart retry_up_to_ok stub_start(1) stub_env_fields(1)
      stub_start(4,2,3) stub_pending out ok, of None Map.empty] stub_start(5)
  show ?thesis by (auto simp: already_there_def keyed_def List.map_filter_def)
qed

section \<open>From the door to the calendar\<close>

lemma ingest_unseen:
  assumes E: "undisturbed E" and i: "ingest E src who header body A = (r, A')"
  shows "stub_of A' = stub_of A" "at_token (outside (app_hub A')) = at_token (outside (app_hub A))"
    "app_profiles A' = app_profiles A"
proof -
  let ?same = "\<lambda>B. stub_of B = stub_of A \<and>
    at_token (outside (app_hub B)) = at_token (outside (app_hub A)) \<and> app_profiles B = app_profiles A"
  have built: "?same A1" if "build_entry E s header body A = (e, A1)" for s e A1
    using that E ask_world [of "env_uuid E" A] ask_world [of "env_now E" "snd (ask (env_uuid E) A)"]
    by (auto simp: build_entry_def undisturbed_def Let_def dest!: ask_frame split: prod.splits)
  have appended: "?same A2" if "app_accept E e A1 = (res, A2)" "?same A1" for e A1 res A2
    using that E ask_world [of "env_append_faults E" A1]
    by (auto simp: app_accept_def undisturbed_def dest!: ask_frame split: prod.splits)
  have "?same A'"
    using i appended built
    by (fastforce simp: ingest_def on_metrics_def split: sum.splits prod.splits)
  then show "stub_of A' = stub_of A" "at_token (outside (app_hub A')) = at_token (outside (app_hub A))"
    "app_profiles A' = app_profiles A"
    by auto
qed

lemma skip_none_key: "x \<in> set (skip_none k f v) \<Longrightarrow> fst x = k"
  by (cases v) auto

lemma tagged_plain:
  assumes "json_plain (event_to_json ev)" "utf8_valid k"
  shows "json_plain (event_to_json (tag_event (Some k) ev))"
proof (cases "event_properties ev")
  case None
  have keys: "utf8_valid ''extendedProperties''" "utf8_valid ''private''" "utf8_valid UPSERT_PROPERTY"
    by (simp_all add: utf8_valid.simps(2) byte_def UPSERT_PROPERTY_def)
  obtain kvs where kvs: "event_to_json ev = JObj kvs"
    by (simp add: event_to_json_def)
  let ?p = "properties_to_json \<lparr>private_props = [(UPSERT_PROPERTY, k)]\<rparr>"
  have "event_to_json (tag_event (Some k) ev) = JObj (kvs @ [(''extendedProperties'', ?p)])"
    using None kvs by (simp add: tag_event_def event_to_json_def)
  moreover have "''extendedProperties'' \<notin> fst ` set kvs"
    using None kvs by (auto simp: event_to_json_def dest!: skip_none_key)
  moreover have "json_plain ?p"
    using keys assms(2) by (simp add: properties_to_json_def)
  ultimately show ?thesis
    using assms(1) keys(1) kvs by (auto simp: list_all_iff)
next
  case (Some p)
  with assms(1) show ?thesis by (simp add: tag_event_def)
qed

lemma accepted_sendable:
  assumes "map_payload K body p origin = Ok ev" "json_plain (event_to_json ev)"
    "upsert_key e ev \<noteq> None" "utf8_valid (entry_source e)"
    "\<And>k. idempotency_key e = Some k \<Longrightarrow> utf8_valid k"
  shows "sendable (tag_event (upsert_key e ev) ev)"
proof -
  obtain k where k: "upsert_key e ev = Some k"
    using assms(3) by blast
  have "event_in_range (tag_event (Some k) ev)"
    using mapped_event_in_range [OF assms(1)] by (simp add: tag_event_def event_in_range_def)
  moreover have "json_plain (event_to_json (tag_event (Some k) ev))"
  proof (cases "event_properties ev = None")
    case True
    with k obtain h where "idempotency_key e = Some h" "k = entry_source e @ '':'' @ h"
      by (auto simp: upsert_key_def)
    with assms(4,5) have "utf8_valid k"
      by (simp add: utf8_append utf8_valid.simps(2) byte_def)
    with assms(2) show ?thesis by (rule tagged_plain)
  next
    case False
    with assms(2) show ?thesis by (auto simp: tag_event_def)
  qed
  ultimately show ?thesis by (simp add: sendable_def k)
qed

text \<open>
  C7: What was answered 202 reaches its calendar. Take a service with an empty backlog, and post to
  it. If the answer is 202 and nothing refuses the next pass, that pass delivers the event: one write,
  to the calendar of the source's profile; a new event there, unless one with its key exists; and its
  body is the mapped event with the key on it.
\<close>

theorem posted_event_reaches_its_calendar:
  assumes "stubs_apart N" "retry_ok retry" "undisturbed E" "env_google E = stub_google N er sn retry"
    and "app_codec E" "serde_reads_request (env_crates E)" "\<And>w. fst (env_read_fault E w) = None"
    and "app_holds E rs A" "pending rs = []" "app_profiles A src = Some p" "source_id p = src"
    and post: "ingest E src who header body A = (Some (202, reply), A')"
    and "json_get reply ''entry_id'' = Some (JStr i)" "i \<notin> marked rs"
    and "grants (outside (app_hub A))" "willing (stub_of A)" "seeded evs (stub_of A)"
    and "map_payload (env_crates E) body p (''profile '' @ src) = Ok ev"
      "json_plain (event_to_json ev)" "one_segment (target_calendar_id p)" "utf8_valid src"
      "\<And>s. header = Some s \<Longrightarrow> utf8_valid (trim s)"
  shows "\<exists>key A1. drain_once_tracking E wh A' perm = (Some \<lparr>sum_delivered = 1, sum_failed = 0\<rparr>, A1, perm) \<and>
    calendars_written (stub_of A1) = calendars_written (stub_of A) @ [target_calendar_id p] \<and>
    created_events (stub_of A1) = created_events (stub_of A) @
      new_event evs (target_calendar_id p, tag_event (Some key) ev, Some key) \<and>
    private_property UPSERT_PROPERTY (tag_event (Some key) ev) = Some key \<and>
    (private_property UPSERT_PROPERTY ev = Some key \<or>
     (\<exists>s. header = Some s \<and> key = src @ '':'' @ trim s))"
proof -
  obtain e q where e: "app_holds E (rs @ [EntryRec e]) A'" "app_profiles A src = Some q"
    "entry_source e = source_id q" "payload e = body"
    "json_get reply ''entry_id'' = Some (JStr (entry_id e))"
    "\<exists>ev. map_payload (env_crates E) (payload e) q (''profile '' @ source_id q) = Ok ev \<and> upsert_key e ev \<noteq> None"
    "idempotency_key e =
      (case header of Some s \<Rightarrow> if is_blank s then None else Some (trim s) | None \<Rightarrow> None)"
    using accepted_facts [OF assms(5,6,8) post] by blast
  from e(2) assms(10) have q: "q = p" by simp
  from e(6) assms(11,18) have key: "upsert_key e ev \<noteq> None" by (auto simp: q e(4))
  then obtain k where k: "upsert_key e ev = Some k" by blast
  have "utf8_valid h" if "idempotency_key e = Some h" for h
    using that e(7) assms(22) by (auto split: option.splits if_splits)
  from accepted_sendable [OF assms(18,19) key _ this] assms(11,21)
  have send: "sendable (tag_event (Some k) ev)"
    by (simp add: e(3) q k)
  note A' = ingest_unseen [OF assms(3) post]
  obtain r A2 where p2: "app_pending E A' = (r, A2)" by fastforce
  have "pending (rs @ [EntryRec e]) = [e]"
    using assms(9,13,14) e(5) by (auto simp: pending_eq)
  moreover have "read_records (env_decoder E) (env_journal E) None (app_files A') =
      Inr (rs @ [EntryRec e])"
    using holds_read assms(5) e(1) by (auto simp: app_codec_def app_holds_def)
  ultimately have "fst (app_pending E A') = Inr [e]"
    using assms(7) [of "outside (app_hub A')"]
    by (auto simp: app_pending_def ask_def journal_pending_def split: prod.splits)
  moreover have "map (outgoing (env_crates E) (app_profiles A')) [e] =
      map Some [(target_calendar_id p, tag_event (Some k) ev, Some k)]"
    using assms(10,11,18) e(3,4) by (simp add: outgoing_def A'(3) q k)
  moreover have "list_all writable [(target_calendar_id p, tag_event (Some k) ev, Some k)]"
    using assms(20) send by simp
  ultimately have "\<exists>A1. drain_once_tracking E wh A' perm =
      (Some \<lparr>sum_delivered = length [e], sum_failed = 0\<rparr>, A1, perm) \<and>
    calendars_written (stub_of A1) = calendars_written (stub_of A') @
      map fst [(target_calendar_id p, tag_event (Some k) ev, Some k)] \<and>
    created_events (stub_of A1) = created_events (stub_of A') @
      concat (map (new_event evs) [(target_calendar_id p, tag_event (Some k) ev, Some k)])"
    using assms(15-17) A'(1,2)
    by (intro stub_pass [OF assms(1-4)]) simp_all
  moreover have "private_property UPSERT_PROPERTY (tag_event (Some k) ev) = Some k"
    using tagged_with_key [OF assms(18) k] .
  moreover have "private_property UPSERT_PROPERTY ev = Some k \<or>
      (\<exists>s. header = Some s \<and> k = src @ '':'' @ trim s)"
    using k e(7) assms(11) e(3)
    by (auto simp: upsert_key_def private_property_def q split: option.splits if_splits)
  ultimately show ?thesis
    by (intro exI [of _ k]) (auto simp: A'(1))
qed

definition posted_app :: "log_record list \<Rightarrow> stub_world app" where
  "posted_app rs = app_new [''s'' \<mapsto> demo_profile] (demo_disk rs) stub_world_demo"

lemma stub_env_parts:
  "env_crates stub_env = demo_crates" "env_uuid stub_env w = (''u'', w)"
  "env_now stub_env w = (''now'', w)" "env_append_faults stub_env w = (no_append_faults, w)"
  "env_journal stub_env = demo_journal" "env_encoder stub_env = demo_enc"
  "env_decoder stub_env = demo_dec" "env_read_fault stub_env w = (None, w)"
  by (simp_all add: stub_env_def)

lemma stub_ingest:
  "ingest stub_env ''s'' (Client ''s'') None demo_payload (posted_app []) =
   (Some (202, JObj [(''status'', JStr ''accepted''), (''entry_id'', JStr ''u'')]),
    on_metrics count_accepted (posted_app [EntryRec demo_item]))"
proof -
  have "requires_an_id demo_payload None = None"
    by (simp add: requires_an_id_def demo_payload_def)
  moreover have "authenticate (posted_app rs) ''s'' (Client ''s'') = Inr demo_profile" for rs
    by (simp add: authenticate_def posted_app_def app_new_def)
  ultimately have adm: "admit stub_env (posted_app []) ''s'' (Client ''s'') None demo_payload = Inr demo_profile"
    by (simp add: admit_def must_be_mappable_def stub_env_parts demo_maps)
  have built: "build_entry stub_env ''s'' None demo_payload (posted_app []) = (demo_item, posted_app [])"
    by (simp add: build_entry_def ask_def stub_env_parts demo_item_def posted_app_def app_new_def)
  have "journal_append demo_enc demo_journal no_append_faults (EntryRec demo_item) (demo_disk []) =
      (Inr (), demo_disk [EntryRec demo_item])"
    using demo_append [of "demo_disk []" "EntryRec demo_item"] demo_item_length
    by (simp add: demo_disk_def file_text_def image_of_def)
  then have "app_append stub_env (EntryRec demo_item) (posted_app []) =
      (Inr (), posted_app [EntryRec demo_item])"
    by (simp add: app_append_def ask_def stub_env_parts posted_app_def app_new_def)
  moreover have "source_id demo_profile = ''s''" "entry_id demo_item = ''u''"
    by (simp_all add: demo_profile_def demo_item_def)
  ultimately show ?thesis
    by (simp add: ingest_def adm built app_append_eqs)
qed

lemma posted_event_reaches_its_calendar_witness:
  "\<exists>A1. drain_once_tracking stub_env None (on_metrics count_accepted (posted_app [EntryRec demo_item]))
      Map.empty = (Some \<lparr>sum_delivered = 1, sum_failed = 0\<rparr>, A1, Map.empty) \<and>
    calendars_written (stub_of A1) = [''cal''] \<and>
    map fst (created_events (stub_of A1)) = [''cal'']"
proof -
  have start: "willing (stub_of (posted_app []))" "seeded (\<lambda>cal. []) (stub_of (posted_app []))"
    "grants (outside (app_hub (posted_app [])))" "created_events (stub_of (posted_app [])) = []"
    "calendars_written (stub_of (posted_app [])) = []"
    by (simp_all add: posted_app_def app_new_def stub_world_demo_def willing_def
        calendar_state_default_def seeded_def token_stub_start_def calendars_written_def)
  have holds: "app_holds stub_env [] (posted_app [])"
    using demo_holds by (simp add: app_holds_def stub_env_parts posted_app_def app_new_def)
  have prof: "app_profiles (posted_app []) ''s'' = Some demo_profile" "source_id demo_profile = ''s''"
    by (simp_all add: posted_app_def app_new_def demo_profile_def)
  have codec: "app_codec stub_env" "serde_reads_request (env_crates stub_env)"
    by (simp_all add: app_codec_def stub_env_parts demo_codec demo_serde)
  have "map_payload (env_crates stub_env) demo_payload demo_profile (''profile '' @ ''s'') = Ok demo_event"
    by (simp add: stub_env_parts demo_maps)
  moreover have "json_plain (event_to_json demo_event)"
    using demo_sendable by (simp add: sendable_def)
  moreover have "one_segment (target_calendar_id demo_profile)" "utf8_valid ''s''"
    by (simp_all add: one_segment_def demo_profile_def utf8_valid.simps(2) byte_def)
  moreover have "target_calendar_id demo_profile = ''cal''"
    by (simp add: demo_profile_def)
  ultimately show ?thesis
    using posted_event_reaches_its_calendar [OF stub_demo_apart retry_up_to_ok stub_start(1)
        stub_env_fields(1) codec _ holds _ prof stub_ingest _ _ start(3,1,2),
        of "''u''" demo_event None Map.empty] start(4,5)
    by (auto simp: stub_env_parts pending_eq already_there_def)
qed

section \<open>Outages and refusals\<close>

text \<open>Google's 403 for a missing permission is read for what it is.\<close>

definition reads_refusals :: "stub_net \<Rightarrow> (string \<Rightarrow> google_error_body option) \<Rightarrow> bool" where
  "reads_refusals N er \<longleftrightarrow>
     extract_reason er (response_text (http_text N (403, Some permanent_body))) =
       Some ''permissionDenied''"

lemma bodies_plain: "json_plain transient_body" "json_plain permanent_body"
  by (simp_all add: transient_body_def permanent_body_def utf8_valid.simps(2) byte_def)

text \<open>One creating request to a stub that refuses it.\<close>

lemma create_request:
  assumes "stubs_apart N" "one_segment cal"
  shows "http_url (api_request ''POST'' (events_url (stub_google N er sn retry) cal) (JsonBody v) tok) =
      calendar_url N @ CHR ''/'' # cal @ ''/events''"
    "calendar_routes N (segments (cal @ ''/events''))
      (api_request ''POST'' (events_url (stub_google N er sn retry) cal) (JsonBody v) tok) s =
      stub_create_event cal v s"
  using assms(2)
  by (simp_all add: api_request_def stub_urls [OF assms(1)] segment_path routed)

lemma refused_creates:
  "0 < reject_times s \<Longrightarrow> stub_create_event cal v s =
     (Some (403, Some permanent_body), (record_request ''POST'' cal s)\<lparr>reject_times := reject_times s - 1\<rparr>)"
  "reject_times s = 0 \<Longrightarrow> 0 < fail_times s \<Longrightarrow> stub_create_event cal v s =
     (Some (503, Some transient_body), (record_request ''POST'' cal s)\<lparr>fail_times := fail_times s - 1\<rparr>)"
  by (simp_all add: stub_create_event_def refusal_def take_rejection_def take_failure_def
      record_request_def)

lemma refusal_status:
  assumes "json_text_ok (net_json N)"
  shows "resp_status (http_text N (403, Some permanent_body)) = 403"
    "resp_status (http_text N (503, Some transient_body)) = 503"
  by (metis http_text_plain [OF assms bodies_plain(2)] http_response.select_convs(1))
    (metis http_text_plain [OF assms bodies_plain(1)] http_response.select_convs(1))

text \<open>
  A permanent refusal costs one request. When the calendar server answers 403 for a missing
  permission, the call fails with a permanent error after that one request, whatever the retry
  schedule; nothing is created.
\<close>

theorem refusal_costs_one_request:
  assumes "stubs_apart N" "retry_ok retry" "reads_refusals N er" "grants (outside h)"
    "0 < reject_times (calendar_of h)" "one_segment cal"
  shows "\<exists>e h1. create_event (stub_google N er sn retry) cal ev h = (Inl e, h1) \<and>
    \<not> error_is_transient e \<and>
    requests (calendar_of h1) = requests (calendar_of h) @ [(''POST'', cal)] \<and>
    created_events (calendar_of h1) = created_events (calendar_of h)"
proof -
  let ?G = "stub_google N er sn retry" and ?S = "stub_services N er sn"
  let ?build = "api_request ''POST'' (events_url ?G cal) (JsonBody (event_to_json ev))"
  let ?a = "http_text N (403, Some permanent_body)"
  from assms(1) have st: "resp_status ?a = 403"
    by (simp add: stubs_apart_def refusal_status(1))
  then have "\<not> is_success ?a" "\<not> response_is_transient ?S ?a"
    using assms(3) by (auto simp: is_success_def response_is_transient_def stub_services_def
        reads_refusals_def retry_is_transient_def)
  moreover obtain h1 e where "client_attempt ?S (stub_credentials (token_stub_url N)) ?build h =
      (if is_success ?a then Success ?a
       else if response_is_transient ?S ?a then Retryable e else Fatal e, h1)"
    and h1: "calendar_of h1 =
      (record_request ''POST'' cal (calendar_of h))\<lparr>reject_times := reject_times (calendar_of h) - 1\<rparr>"
    by (rule stub_attempt [OF assms(1,4) create_request(1) [OF assms(1,6)]
          trans [OF create_request(2) [OF assms(1,6)] refused_creates(1) [OF assms(5)]]])
  ultimately have f: "client_attempt ?S (stub_credentials (token_stub_url N)) ?build h = (Fatal e, h1)"
    by simp
  from send_fatal_once [OF assms(2) f] have "create_event ?G cal ev h = (Inl e, h1)"
    by (simp add: create_event_def call_google_def parse_response_def) (simp add: stub_google_def)
  with attempt_Fatal [OF f] h1 show ?thesis
    by (auto simp: record_request_def)
qed

lemma google_services: "env_services (stub_google N er sn retry) = stub_services N er sn"
  by (simp add: stub_google_def)

lemma parse_response_congs:
  assumes "env_services G = env_services G'" "x = x'"
  shows "parse_response G f what x = parse_response G' f what x'"
  unfolding parse_response_def assms ..

text \<open>While the loop pauses, the clock may go on; the servers stay as they are.\<close>

definition stub_pause :: "stub_world \<Rightarrow> stub_world \<Rightarrow> bool" where
  "stub_pause w w' \<longleftrightarrow> at_calendar w' = at_calendar w \<and> at_token w' = at_token w"

abbreviation create_attempt ::
  "stub_net \<Rightarrow> (string \<Rightarrow> google_error_body option) \<Rightarrow> (nat \<Rightarrow> string) \<Rightarrow> stub_world retrier \<Rightarrow> string \<Rightarrow>
     google_event \<Rightarrow> stub_world hub \<Rightarrow> attempt \<times> stub_world hub" where
  "create_attempt N er sn retry cal ev \<equiv>
     client_attempt (stub_services N er sn) (stub_credentials (token_stub_url N))
       (creation (stub_google N er sn retry) cal ev)"

lemma creation_call:
  assumes "stubs_apart N"
  shows "call_google (stub_google N er sn retry') (creation (stub_google N er sn retry') cal ev) h =
    retry' (create_attempt N er sn retry cal ev) h"
proof -
  have "events_url (stub_google N er sn retry') cal = events_url (stub_google N er sn retry) cal"
    by (simp add: stub_urls(1) [OF assms])
  then show ?thesis
    unfolding call_google_def send_with_retry_def by (simp only:) (simp add: stub_google_def)
qed

lemma attempt_in_outage:
  assumes N: "stubs_apart N" and cal: "one_segment cal" and w: "grants (outside h)"
    and s: "reject_times (calendar_of h) = 0" "0 < fail_times (calendar_of h)"
  obtains e h1 where "create_attempt N er sn retry cal ev h = (Retryable e, h1)"
    "calendar_of h1 = (record_request ''POST'' cal (calendar_of h))
       \<lparr>fail_times := fail_times (calendar_of h) - 1\<rparr>" "grants (outside h1)"
proof -
  let ?S = "stub_services N er sn" and ?a = "http_text N (503, Some transient_body)"
  from N have st: "resp_status ?a = 503"
    by (simp add: stubs_apart_def refusal_status(2))
  then have "\<not> is_success ?a" "response_is_transient ?S ?a"
    by (auto simp: is_success_def response_is_transient_def retry_is_transient_def)
  moreover obtain h1 e where "create_attempt N er sn retry cal ev h = (if is_success ?a then Success ?a
       else if response_is_transient ?S ?a then Retryable e else Fatal e, h1)"
    and h1: "calendar_of h1 = (record_request ''POST'' cal (calendar_of h))
        \<lparr>fail_times := fail_times (calendar_of h) - 1\<rparr>" "grants (outside h1)"
    by (rule stub_attempt [OF N w create_request(1) [OF N cal]
          trans [OF create_request(2) [OF N cal] refused_creates(2) [OF s]]])
  ultimately show thesis by (intro that) simp_all
qed

text \<open>
  C20: An outage is ridden out. When the calendar server answers its next requests with 503, and the
  retry schedule, whatever it is, leaves time for that many retries, the call succeeds: each failed
  attempt is one request, the last one succeeds, and exactly one event is created, with the body that
  was sent.
\<close>

theorem outage_is_ridden_out:
  assumes "stubs_apart N" "grants (outside h)" "reject_times (calendar_of h) = 0"
    "has_time stub_pause (fail_times (calendar_of h)) retry (create_attempt N er sn retry cal ev) h"
    "one_segment cal" "sendable ev"
  shows "\<exists>i h1. create_event (stub_google N er sn retry) cal ev h =
      (Inr (ev\<lparr>event_id := Some i\<rparr>), h1) \<and>
    requests (calendar_of h1) = requests (calendar_of h) @
      replicate (fail_times (calendar_of h) + 1) (''POST'', cal) \<and>
    created_events (calendar_of h1) = created_events (calendar_of h) @ [(cal, event_to_json ev)]"
proof -
  let ?op = "create_attempt N er sn retry cal ev" and ?n = "fail_times (calendar_of h)"
  let ?left = "\<lambda>l. (calendar_of h)\<lparr>fail_times := l,
      requests := requests (calendar_of h) @ replicate (?n - l) (''POST'', cal)\<rparr>"
  let ?P = "\<lambda>l h1. calendar_of h1 = ?left l \<and> grants (outside h1) \<and> l \<le> ?n"
  have fails: "\<exists>e h2. ?op h1 = (Retryable e, h2) \<and>
      (\<forall>w. stub_pause (outside h2) w \<longrightarrow> ?P l (h2\<lparr>outside := w\<rparr>))" if P: "?P (Suc l) h1" for l h1
  proof -
    from P assms(3) have "grants (outside h1)" "reject_times (calendar_of h1) = 0" "0 < fail_times (calendar_of h1)"
      by simp_all
    from attempt_in_outage [OF assms(1,5) this] obtain e h2 where
      h2: "?op h1 = (Retryable e, h2)" "calendar_of h2 = (record_request ''POST'' cal (calendar_of h1))
        \<lparr>fail_times := fail_times (calendar_of h1) - 1\<rparr>" "grants (outside h2)"
      by blast
    have "replicate (?n - l) (''POST'', cal) = replicate (?n - Suc l) (''POST'', cal) @ [(''POST'', cal)]"
      using P by (metis Suc_diff_Suc Suc_le_lessD replicate_Suc replicate_append_same)
    then have "calendar_of h2 = ?left l"
      using h2(2) P by (simp add: record_request_def)
    with h2 P show ?thesis by (auto simp: stub_pause_def)
  qed
  have wins: "\<exists>i h2 resp. ?op h1 = (Success resp, h2) \<and>
      create_event (stub_google N er sn (retry_up_to 0)) cal ev h1 = (Inr (ev\<lparr>event_id := Some i\<rparr>), h2) \<and>
      requests (calendar_of h2) = requests (calendar_of h) @ replicate (?n + 1) (''POST'', cal) \<and>
      created_events (calendar_of h2) = created_events (calendar_of h) @ [(cal, event_to_json ev)]"
    if P: "?P 0 h1" for h1
  proof -
    have "willing (calendar_of h1)"
      using P assms(3) by (simp add: willing_def)
    obtain i h2 where c: "create_event (stub_google N er sn (retry_up_to 0)) cal ev h1 =
        (Inr (ev\<lparr>event_id := Some i\<rparr>), h2)"
      "calendar_of h2 = (record_request ''POST'' cal (calendar_of h1))
        \<lparr>next_id := next_id (calendar_of h1) + 1,
          created_events := created_events (calendar_of h1) @ [(cal, event_to_json ev)]\<rparr>"
      by (rule stub_creates [where er = er and sn = sn,
            OF assms(1) retry_up_to_ok conjunct1 [OF conjunct2 [OF P]] \<open>willing (calendar_of h1)\<close> assms(5,6)])
    obtain r h3 where r: "retry_up_to 0 ?op h1 = (r, h3)" by fastforce
    with c(1) have "h3 = h2" "\<exists>resp. r = Inr resp"
      by (auto simp: create_event_def creation_call [OF assms(1), where retry = retry]
          dest!: parse_response_Inr)
    with r have "\<exists>resp. ?op h1 = (Success resp, h2)"
      by (auto split: prod.splits attempt.splits)
    moreover have "requests (calendar_of h2) = requests (calendar_of h) @ replicate (?n + 1) (''POST'', cal)"
      "created_events (calendar_of h2) = created_events (calendar_of h) @ [(cal, event_to_json ev)]"
      using c(2) P by (simp_all add: record_request_def replicate_append_same)
    ultimately show ?thesis using c(1) by blast
  qed
  have "?P ?n h" using assms(2) by simp
  from time_enough [of stub_pause ?n retry ?op h ?P, OF assms(4) this fails] wins
  obtain h0 resp h' where run: "?P 0 h0" "?op h0 = (Success resp, h')" "retry ?op h = (Inr resp, h')"
    by blast
  from wins [OF run(1)] run(2) obtain i where
    c: "create_event (stub_google N er sn (retry_up_to 0)) cal ev h0 = (Inr (ev\<lparr>event_id := Some i\<rparr>), h')"
    and sent: "requests (calendar_of h') = requests (calendar_of h) @ replicate (?n + 1) (''POST'', cal)"
      "created_events (calendar_of h') = created_events (calendar_of h) @ [(cal, event_to_json ev)]"
    by auto
  have "retry_up_to 0 ?op h0 = retry ?op h" using run(2,3) by simp
  then have "create_event (stub_google N er sn retry) cal ev h =
      create_event (stub_google N er sn (retry_up_to 0)) cal ev h0"
    unfolding create_event_def
    by (intro parse_response_congs)
      (simp_all only: google_services creation_call [OF assms(1), where retry = retry])
  with c sent show ?thesis by auto
qed

definition stub_hub :: "calendar_state \<Rightarrow> stub_world hub" where
  "stub_hub s = \<lparr>outside = stub_world_demo\<lparr>at_calendar := s\<rparr>, token_cache = None, hub_metrics = metrics_zero\<rparr>"

lemma stub_hub_fields: "calendar_of (stub_hub s) = s" "grants (outside (stub_hub s))"
  by (simp_all add: stub_hub_def stub_world_demo_def token_stub_start_def)

definition denied :: "string \<Rightarrow> google_error_body option" where
  "denied t = Some \<lparr>body_error = \<lparr>detail_errors = [\<lparr>item_reason = Some ''permissionDenied''\<rparr>]\<rparr>\<rparr>"

lemma refusal_costs_one_request_witness:
  "\<exists>e h1. create_event (stub_google stub_net_demo denied show_nat (retry_up_to 2)) ''cal'' demo_event
      (stub_hub (reject_next 1 calendar_state_default)) = (Inl e, h1) \<and>
    requests (calendar_of h1) = [(''POST'', ''cal'')]"
proof -
  have "reads_refusals stub_net_demo denied"
    by (simp add: reads_refusals_def denied_def extract_reason_def)
  from refusal_costs_one_request [OF stub_demo_apart retry_up_to_ok this stub_hub_fields(2),
      of "reject_next 1 calendar_state_default" "''cal''" show_nat 2 demo_event]
  show ?thesis
    by (auto simp: stub_hub_fields reject_next_def calendar_state_default_def one_segment_def)
qed

lemma outage_is_ridden_out_witness:
  "\<exists>i h1. create_event (stub_google stub_net_demo denied show_nat (retry_up_to 2)) ''cal'' demo_event
      (stub_hub (fail_next 2 calendar_state_default)) = (Inr (demo_event\<lparr>event_id := Some i\<rparr>), h1) \<and>
    requests (calendar_of h1) = replicate 3 (''POST'', ''cal'')"
proof -
  let ?h = "stub_hub (fail_next 2 calendar_state_default)"
  have h: "fail_times (calendar_of ?h) = 2" "reject_times (calendar_of ?h) = 0" "requests (calendar_of ?h) = []"
    by (simp_all add: stub_hub_fields fail_next_def calendar_state_default_def)
  have time: "has_time stub_pause (fail_times (calendar_of ?h)) (retry_up_to 2) op ?h" for op
    by (rule retry_up_to_time) (simp_all add: h stub_pause_def)
  from outage_is_ridden_out [OF stub_demo_apart stub_hub_fields(2) h(2) time _ demo_sendable,
      of "''cal''" denied show_nat] h
  show ?thesis by (simp add: one_segment_def) blast
qed

section \<open>Searches\<close>

text \<open>
  C21: A search finds exactly the events that carry the key. What the client gets back from a search by
  a private property is the events of that calendar, and of no other, whose property has that value,
  in order and unchanged by the wire; the search costs one request.
\<close>

theorem search_finds_exactly:
  assumes "stubs_apart N" "retry_ok retry" "grants (outside h)" "willing (calendar_of h)"
    "seeded evs (calendar_of h)" "one_segment cal" "CHR ''='' \<notin> set k"
  shows "\<exists>h1. list_events_by_property (stub_google N er sn retry) cal k v h =
      (Inr (filter (\<lambda>ev. private_property k ev = Some v) (evs cal)), h1) \<and>
    requests (calendar_of h1) = requests (calendar_of h) @ [(''GET'', cal)] \<and>
    created_events (calendar_of h1) = created_events (calendar_of h)"
proof -
  obtain h1 where "list_events_by_property (stub_google N er sn retry) cal k v h =
      (Inr (filter (\<lambda>ev. private_property k ev = Some v) (evs cal)), h1)"
    "calendar_of h1 = record_request ''GET'' cal (calendar_of h)"
    by (rule stub_search [OF assms])
  then show ?thesis
    by (auto simp: record_request_def)
qed

definition stored_event :: google_event where
  "stored_event = demo_event\<lparr>event_id := Some ''g1''\<rparr>"

lemma stored_is_seeded:
  "seeded ((\<lambda>cal. [])(''cal'' := [stored_event]))
     (seed ''cal'' (event_to_json stored_event) calendar_state_default)"
proof -
  have "sendable stored_event"
    by (simp add: sendable_def event_in_range_def stored_event_def demo_event_def event_to_json_def
        properties_to_json_def UPSERT_PROPERTY_def utf8_valid.simps(2) byte_def)
  moreover have "event_id stored_event = Some ''g1''"
    by (simp add: stored_event_def)
  ultimately show ?thesis
    by (auto simp: seeded_def seed_def calendar_state_default_def one_segment_def)
qed

lemma search_finds_exactly_witness:
  "\<exists>h1. list_events_by_property (stub_google stub_net_demo denied show_nat (retry_up_to 2)) ''cal''
      UPSERT_PROPERTY ''s:7'' (stub_hub (seed ''cal'' (event_to_json stored_event) calendar_state_default)) =
    (Inr [stored_event], h1)"
proof -
  have "willing (seed ''cal'' (event_to_json stored_event) calendar_state_default)"
    by (simp add: willing_def seed_def calendar_state_default_def)
  moreover have "private_property UPSERT_PROPERTY stored_event = Some ''s:7''"
    by (simp add: private_property_def stored_event_def demo_event_def)
  moreover have "one_segment ''cal''" "CHR ''='' \<notin> set UPSERT_PROPERTY"
    by (simp_all add: one_segment_def UPSERT_PROPERTY_def)
  ultimately show ?thesis
    using search_finds_exactly [OF stub_demo_apart retry_up_to_ok stub_hub_fields(2), unfolded stub_hub_fields(1),
        OF _ stored_is_seeded, of "''cal''" UPSERT_PROPERTY denied show_nat 2 "''s:7''"]
    by auto
qed

end
