(* ===== verification/Tools.thy ===== *)
theory Tools
  imports Startup
begin

text \<open>
  The command-line tools under examples/: one \<open>main\<close> each, from the environment to the lines
  printed and the way the process ends. They reach Google through the same token manager and client
  as the service, and with bare requests of their own.
\<close>

section \<open>What a tool leaves behind\<close>

datatype printed = To_stdout string | To_stderr string

text \<open>The end of \<open>main\<close>, \<open>std::process::exit\<close>, or a panic (here always an \<open>expect\<close>).\<close>

datatype tool_end = Returns | Exits nat | Panics

type_synonym 'w tool_run = "tool_end \<times> printed list \<times> 'w hub"

text \<open>The services and the retry schedule are the library's; each tool makes its own client.\<close>

definition tool_google :: "('w, 'k) google_env \<Rightarrow> credentials \<Rightarrow> ('w, 'k) google_env" where
  "tool_google G creds = G\<lparr>env_credentials := creds, env_client := client_new\<rparr>"

definition CALENDAR_LIST :: string where
  "CALENDAR_LIST = ''https://www.googleapis.com/calendar/v3/users/me/calendarList''"

definition CALENDARS :: string where
  "CALENDARS = ''https://www.googleapis.com/calendar/v3/calendars''"

text \<open>
  \<open>send().await.expect(..).json().await.expect(..)\<close> of a bare GET: the status is not looked at, and
  \<open>None\<close> is the panic.
\<close>

definition fetch_value ::
  "('w, 'k) services \<Rightarrow> string \<Rightarrow> string \<Rightarrow> 'w hub \<Rightarrow> json option \<times> 'w hub" where
  "fetch_value S url tok h =
     (case hub_send S (api_request ''GET'' url NoBody tok) h of
        (Inl e, h1) \<Rightarrow> (None, h1)
      | (Inr resp, h1) \<Rightarrow>
          (case response_json S Some resp of
             Inl e \<Rightarrow> (None, h1)
           | Inr v \<Rightarrow> (Some v, h1)))"

definition json_items :: "json \<Rightarrow> json list" where
  "json_items v = (case json_as_array (json_index v ''items'') of None \<Rightarrow> [] | Some xs \<Rightarrow> xs)"

definition text_or :: "string \<Rightarrow> json \<Rightarrow> string" where
  "text_or d v = (case json_as_str v of Some s \<Rightarrow> s | None \<Rightarrow> d)"

definition escape_at :: "string \<Rightarrow> string" where
  "escape_at s = concat (map (\<lambda>c. if c = CHR ''@'' then ''%40'' else [c]) s)"

section \<open>create_calendars\<close>

definition middle_dot :: string where
  "middle_dot = bytes [194, 183]"

definition WANTED :: "(string \<times> string) list" where
  "WANTED =
     [(''Almanac '' @ middle_dot @ '' Huishouden'', ''home-assistant''),
      (''Almanac '' @ middle_dot @ '' Infra'', ''grafana, uptime-kuma''),
      (''Almanac '' @ middle_dot @ '' Energie'', ''energy-prices'')]"

definition OWNER_ENV :: string where
  "OWNER_ENV = ''ALMANAC_CALENDAR_OWNER''"

definition owner_missing :: string where
  "owner_missing =
     OWNER_ENV @ '' is not set '' @ em_dash @
     '' without it these calendars would be created and left '' @
     ''invisible to everyone, which is the mistake this tool exists to stop repeating. '' @
     ''Set it in Latch to the Google account the calendars should appear in.''"

text \<open>The id of the first listed calendar of that name, if it has one.\<close>

definition listed_id :: "json list \<Rightarrow> string \<Rightarrow> string option" where
  "listed_id existing name =
     (case find (\<lambda>c. json_as_str (json_index c ''summary'') = Some name) existing of
        None \<Rightarrow> None
      | Some c \<Rightarrow> json_as_str (json_index c ''id''))"

definition wanted_line :: "string \<Rightarrow> string \<Rightarrow> string \<Rightarrow> string \<Rightarrow> string" where
  "wanted_line name what cal sources =
     name @ newline @ ''  '' @ what @ newline @ ''  id: '' @ cal @ newline @ ''  for: '' @ sources"

text \<open>\<open>False\<close> is the exit after a creation that failed.\<close>

fun create_wanted ::
  "('w, 'k) google_env \<Rightarrow> string \<Rightarrow> json list \<Rightarrow> (string \<times> string) list \<Rightarrow> 'w hub \<Rightarrow>
     bool \<times> printed list \<times> 'w hub" where
  "create_wanted G owner existing [] h = (True, [], h)"
| "create_wanted G owner existing ((name, sources) # wanted) h =
     (case listed_id existing name of
        Some cal \<Rightarrow>
          (case create_wanted G owner existing wanted h of
             (go, out, h1) \<Rightarrow> (go, To_stdout (wanted_line name ''exists'' cal sources) # out, h1))
      | None \<Rightarrow>
          (case create_calendar G name owner h of
             (Inl e, h1) \<Rightarrow>
               (False, [To_stderr (name @ newline @ ''  FAILED: '' @ error_display e @ newline @
                                   ''  remedy: '' @ remedy e)], h1)
           | (Inr cal, h1) \<Rightarrow>
               (case create_wanted G owner existing wanted h1 of
                  (go, out, h2) \<Rightarrow>
                    (go, To_stdout (wanted_line name ''created'' cal sources) # out, h2))))"

datatype shared = Already | Granted | ShareFailed string

definition grants_access :: "string \<Rightarrow> json \<Rightarrow> bool" where
  "grants_access owner rule \<longleftrightarrow>
     json_as_str (json_index (json_index rule ''scope'') ''value'') = Some owner \<and>
     (json_as_str (json_index rule ''role'') = Some ''writer'' \<or>
      json_as_str (json_index rule ''role'') = Some ''owner'')"

definition tool_share ::
  "('w, 'k) google_env \<Rightarrow> string \<Rightarrow> string \<Rightarrow> string \<Rightarrow> 'w hub \<Rightarrow> shared \<times> 'w hub" where
  "tool_share G tok cal owner h =
     (case hub_send (env_services G)
             (api_request ''GET'' (CALENDARS @ ''/'' @ cal @ ''/acl'') NoBody tok) h of
        (Inl e, h1) \<Rightarrow> (ShareFailed (''could not read the access list: '' @ e), h1)
      | (Inr resp, h1) \<Rightarrow>
          (let acl = (case response_json (env_services G) Some resp of Inl e \<Rightarrow> JNull | Inr v \<Rightarrow> v);
               already = (case json_as_array (json_index acl ''items'') of
                            Some rules \<Rightarrow> list_ex (grants_access owner) rules
                          | None \<Rightarrow> False)
           in if already then (Already, h1)
              else
                (case share_calendar G cal owner h1 of
                   (Inr u, h2) \<Rightarrow> (Granted, h2)
                 | (Inl e, h2) \<Rightarrow> (ShareFailed (error_display e), h2))))"

fun share_line :: "shared \<Rightarrow> string" where
  "share_line Already = ''already shared''"
| "share_line Granted = ''shared''"
| "share_line (ShareFailed why) = ''FAILED '' @ em_dash @ '' '' @ why"

fun share_all ::
  "('w, 'k) google_env \<Rightarrow> string \<Rightarrow> string \<Rightarrow> json list \<Rightarrow> 'w hub \<Rightarrow> printed list \<times> 'w hub" where
  "share_all G tok owner [] h = ([], h)"
| "share_all G tok owner (c # cs) h =
     (case json_as_str (json_index c ''id'') of
        None \<Rightarrow> share_all G tok owner cs h
      | Some cal \<Rightarrow>
          (case tool_share G tok cal owner h of
             (what, h1) \<Rightarrow>
               (case share_all G tok owner cs h1 of
                  (out, h2) \<Rightarrow>
                    (To_stdout (''  '' @ text_or cal (json_index c ''summary'') @ '': '' @
                                share_line what) # out, h2))))"

definition create_calendars :: "('w, 'k) google_env \<Rightarrow> environment \<Rightarrow> 'w hub \<Rightarrow> 'w tool_run" where
  "create_calendars G env h =
     (case load_credentials env of
        Inl e \<Rightarrow> (Exits 1, [To_stderr (error_display e)], h)
      | Inr creds \<Rightarrow>
          (case env_value env OWNER_ENV of
             None \<Rightarrow> (Exits 1, [To_stderr owner_missing], h)
           | Some owner \<Rightarrow>
               (let G1 = tool_google G creds; S = env_services G in
                case get_token S creds h of
                  (Inl e, h1) \<Rightarrow> (Exits 1, [To_stderr (error_display e)], h1)
                | (Inr tok, h1) \<Rightarrow>
                    (case fetch_value S CALENDAR_LIST tok h1 of
                       (None, h2) \<Rightarrow> (Panics, [], h2)
                     | (Some existing, h2) \<Rightarrow>
                         (case create_wanted G1 owner (json_items existing) WANTED h2 of
                            (False, out, h3) \<Rightarrow> (Exits 1, out, h3)
                          | (True, out, h3) \<Rightarrow>
                              (let out1 = out @ [To_stdout (newline @ ''sharing with '' @ owner @ '':'')]
                               in case fetch_value S CALENDAR_LIST tok h3 of
                                    (None, h4) \<Rightarrow> (Panics, out1, h4)
                                  | (Some reachable, h4) \<Rightarrow>
                                      (case share_all G1 tok owner (json_items reachable) h4 of
                                         (out2, h5) \<Rightarrow> (Returns, out1 @ out2, h5))))))))"

section \<open>create_test_calendar\<close>

definition create_test_calendar :: "('w, 'k) google_env \<Rightarrow> environment \<Rightarrow> 'w hub \<Rightarrow> 'w tool_run" where
  "create_test_calendar G env h =
     (case load_credentials env of
        Inl e \<Rightarrow> (Exits 1, [To_stderr (error_display e)], h)
      | Inr creds \<Rightarrow>
          (let owner = (case env ''ALMANAC_CALENDAR_OWNER'' of Some o' \<Rightarrow> o' | None \<Rightarrow> []) in
           if trim owner = [] then
             (Exits 1,
              [To_stderr (''ALMANAC_CALENDAR_OWNER is not set '' @ em_dash @ '' set it in Latch first'')],
              h)
           else
             (case create_calendar (tool_google G creds) ''almanac-test'' (trim owner) h of
                (Inr cal, h1) \<Rightarrow>
                  (Returns,
                   [To_stdout ''Created calendar 'almanac-test'.'',
                    To_stdout ''Set this in Latch as ALMANAC_TEST_CALENDAR_ID:'', To_stdout cal], h1)
              | (Inl e, h1) \<Rightarrow> (Exits 1, [To_stderr (error_display e)], h1))))"

section \<open>delete_calendar\<close>

definition delete_calendar :: "('w, 'k) services \<Rightarrow> environment \<Rightarrow> 'w hub \<Rightarrow> 'w tool_run" where
  "delete_calendar S env h =
     (case env ''ALMANAC_DELETE_CALENDAR'' of
        None \<Rightarrow> (Panics, [], h)
      | Some calendar \<Rightarrow>
          (case load_credentials env of
             Inl e \<Rightarrow> (Panics, [], h)
           | Inr creds \<Rightarrow>
               (case get_token S creds h of
                  (Inl e, h1) \<Rightarrow> (Panics, [], h1)
                | (Inr tok, h1) \<Rightarrow>
                    (let url = CALENDARS @ ''/'' @ escape_at calendar in
                     case fetch_value S url tok h1 of
                       (None, h2) \<Rightarrow> (Panics, [], h2)
                     | (Some meta, h2) \<Rightarrow>
                         (let named = To_stdout (''about to delete: '' @
                                text_or ''<unknown>'' (json_index meta ''summary''))
                          in case hub_send S (api_request ''DELETE'' url NoBody tok) h2 of
                               (Inl e, h3) \<Rightarrow> (Panics, [named], h3)
                             | (Inr resp, h3) \<Rightarrow>
                                 (Returns,
                                  [named, To_stdout (''delete: HTTP '' @ status_text S (resp_status resp))],
                                  h3))))))"

section \<open>inspect_calendar_access\<close>

text \<open>\<open>{:<10}\<close>: the width counts characters, which in UTF-8 are the bytes that continue none.\<close>

definition pad_right :: "nat \<Rightarrow> string \<Rightarrow> string" where
  "pad_right n s = s @ replicate (n - length (filter (\<lambda>c. \<not> cont_byte c) s)) (CHR '' '')"

definition access_lines :: "json \<Rightarrow> printed list" where
  "access_lines acl =
     (case json_as_array (json_index acl ''items'') of
        Some rules \<Rightarrow>
          map (\<lambda>rule. To_stdout (''    access: '' @
                 pad_right 10 (text_or ''?'' (json_index rule ''role'')) @ '' '' @
                 text_or ''<everyone>'' (json_index (json_index rule ''scope'') ''value''))) rules
      | None \<Rightarrow> [To_stdout ''    access: (could not read the ACL on this calendar)''])"

fun inspect_all ::
  "('w, 'k) services \<Rightarrow> string \<Rightarrow> json list \<Rightarrow> 'w hub \<Rightarrow> 'w tool_run" where
  "inspect_all S tok [] h = (Returns, [], h)"
| "inspect_all S tok (c # cs) h =
     (let cal = text_or ''<no id>'' (json_index c ''id'');
          head = To_stdout (newline @ ''  '' @ text_or ''<no name>'' (json_index c ''summary'') @
            ''  ('' @ text_or ''?'' (json_index c ''accessRole'') @ '')'' @ newline @ ''    id: '' @ cal)
      in case fetch_value S (CALENDARS @ ''/'' @ cal @ ''/acl'') tok h of
           (None, h1) \<Rightarrow> (Panics, [head], h1)
         | (Some acl, h1) \<Rightarrow>
             (case inspect_all S tok cs h1 of
                (ends, out, h2) \<Rightarrow> (ends, head # access_lines acl @ out, h2)))"

definition inspect_calendar_access ::
  "('w, 'k) services \<Rightarrow> environment \<Rightarrow> 'w hub \<Rightarrow> 'w tool_run" where
  "inspect_calendar_access S env h =
     (case load_credentials env of
        Inl e \<Rightarrow> (Exits 1, [To_stderr (error_display e)], h)
      | Inr creds \<Rightarrow>
          (case get_token S creds h of
             (Inl e, h1) \<Rightarrow> (Exits 1, [To_stderr (error_display e)], h1)
           | (Inr tok, h1) \<Rightarrow>
               (case fetch_value S CALENDAR_LIST tok h1 of
                  (None, h2) \<Rightarrow> (Panics, [], h2)
                | (Some list, h2) \<Rightarrow>
                    (let items = json_items list;
                         count = To_stdout (''calendars this service account can reach: '' @
                                   show_nat (length items))
                     in case inspect_all S tok items h2 of
                          (ends, out, h3) \<Rightarrow> (ends, count # out, h3)))))"

section \<open>show_events\<close>

text \<open>\<open>{}\<close> of a \<open>Value\<close> is serde_json's compact text, the parameter \<open>show\<close>.\<close>

definition event_lines :: "(json \<Rightarrow> string) \<Rightarrow> json \<Rightarrow> printed list" where
  "event_lines show_json ev =
     [To_stdout (''  summary      : '' @ text_or ''-'' (json_index ev ''summary'')),
      To_stdout (''  start        : '' @ show_json (json_index ev ''start'')),
      To_stdout (''  end          : '' @ show_json (json_index ev ''end'')),
      To_stdout (''  transparency : '' @ show_json (json_index ev ''transparency'')),
      To_stdout (''  private prop : '' @
        show_json (json_index (json_index ev ''extendedProperties'') ''private'')),
      To_stdout []]"

definition show_events ::
  "('w, 'k) services \<Rightarrow> (json \<Rightarrow> string) \<Rightarrow> environment \<Rightarrow> 'w hub \<Rightarrow> 'w tool_run" where
  "show_events S show_json env h =
     (case env ''ALMANAC_SHOW_CALENDAR'' of
        None \<Rightarrow> (Panics, [], h)
      | Some calendar \<Rightarrow>
          (case load_credentials env of
             Inl e \<Rightarrow> (Panics, [], h)
           | Inr creds \<Rightarrow>
               (case get_token S creds h of
                  (Inl e, h1) \<Rightarrow> (Panics, [], h1)
                | (Inr tok, h1) \<Rightarrow>
                    (case fetch_value S (CALENDARS @ ''/'' @ escape_at calendar @ ''/events?maxResults=20'')
                            tok h1 of
                       (None, h2) \<Rightarrow> (Panics, [], h2)
                     | (Some body, h2) \<Rightarrow>
                         (Returns, concat (map (event_lines show_json) (json_items body)), h2)))))"

end
