(* ===== verification/Tool_Properties.thy ===== *)
theory Tool_Properties
  imports Tools Service_Properties
begin

text \<open>What the command-line tools do and do not do to the account they run against.\<close>

section \<open>The tools that only look\<close>

text \<open>
  Two outsides that answer alike to every GET and to the token request cannot be told apart by a
  tool that sends nothing else.
\<close>

definition reads_alike ::
  "('w, 'k) services \<Rightarrow> (http_request \<Rightarrow> 'w \<Rightarrow> (string + http_response) \<times> 'w) \<Rightarrow> string \<Rightarrow> bool" where
  "reads_alike S f url \<longleftrightarrow>
     (\<forall>req w. http_method req = ''GET'' \<or> http_url req = url \<longrightarrow> f req w = send_http S req w)"

lemma hub_send_alike:
  "reads_alike S f url \<Longrightarrow> http_method req = ''GET'' \<or> http_url req = url \<Longrightarrow>
   hub_send (S\<lparr>send_http := f\<rparr>) req h = hub_send S req h"
  by (auto simp: hub_send_def reads_alike_def)

lemma pure_parts_alike:
  "response_json (S\<lparr>send_http := f\<rparr>) = response_json S"
  "now_secs (S\<lparr>send_http := f\<rparr>) = now_secs S"
  "sign_assertion (S\<lparr>send_http := f\<rparr>) = sign_assertion S"
  "token_failure (S\<lparr>send_http := f\<rparr>) = token_failure S"
  by (auto simp: fun_eq_iff response_json_def now_secs_def sign_assertion_def token_failure_def
      response_is_transient_def split: sum.split option.split prod.split)

lemma fetch_value_alike:
  "reads_alike S f url \<Longrightarrow> fetch_value (S\<lparr>send_http := f\<rparr>) u tok h = fetch_value S u tok h"
  by (auto simp: fetch_value_def hub_send_alike api_request_def pure_parts_alike
      split: prod.split sum.split)

lemma get_token_alike:
  assumes "reads_alike S f (token_url creds)"
  shows "get_token (S\<lparr>send_http := f\<rparr>) creds h = get_token S creds h"
proof -
  have "fetch_token (S\<lparr>send_http := f\<rparr>) creds h = fetch_token S creds h" for h
    by (auto simp: fetch_token_def hub_send_alike [OF assms] token_request_def pure_parts_alike
        split: prod.split sum.split)
  moreover have "needs_refresh (S\<lparr>send_http := f\<rparr>) h = needs_refresh S h" for h
    by (simp add: needs_refresh_def pure_parts_alike split: option.split)
  ultimately show ?thesis
    by (auto simp: get_token_def split: prod.split sum.split bool.split)
qed

lemma inspect_all_alike:
  "reads_alike S f url \<Longrightarrow> inspect_all (S\<lparr>send_http := f\<rparr>) tok cs h = inspect_all S tok cs h"
  by (induction cs arbitrary: h)
    (auto simp: fetch_value_alike Let_def split: prod.split option.split)

text \<open>
  Inspecting changes nothing. The two tools that say they only read send no request but GETs and
  the one for a token: whatever the outside would make of any other request, they print the same
  lines, end the same way and leave it in the same state.
\<close>

theorem inspection_only_reads:
  assumes "\<And>creds. load_credentials env = Inr creds \<Longrightarrow> reads_alike S f (token_url creds)"
  shows "inspect_calendar_access (S\<lparr>send_http := f\<rparr>) env h = inspect_calendar_access S env h \<and>
    show_events (S\<lparr>send_http := f\<rparr>) show_json env h = show_events S show_json env h"
proof (cases "load_credentials env")
  case (Inl e)
  then show ?thesis
    by (simp add: inspect_calendar_access_def show_events_def split: option.split)
next
  case (Inr creds)
  note alike = assms [OF Inr]
  then show ?thesis
    by (auto simp: inspect_calendar_access_def show_events_def Inr get_token_alike fetch_value_alike
        inspect_all_alike Let_def split: option.split prod.split sum.split)
qed

definition tool_environment :: environment where
  "tool_environment = [''CLIENT_EMAIL'' \<mapsto> ''m'', ''PRIVATE_KEY'' \<mapsto> ''k'', ''TOKEN_URI'' \<mapsto> ''t'']"

definition delete_fails :: "http_request \<Rightarrow> (string + http_response) list \<Rightarrow>
    (string + http_response) \<times> (string + http_response) list" where
  "delete_fails req w =
     (if http_method req = ''DELETE'' \<and> http_url req \<noteq> ''t'' then (Inl ''gone'', [])
      else send_http scripted req w)"

lemma tool_credentials: "\<exists>creds. load_credentials tool_environment = Inr creds"
  by (simp add: load_credentials_def validate_credentials_def tool_environment_def)

lemma inspection_only_reads_witness:
  "(\<exists>creds. load_credentials tool_environment = Inr creds) \<and>
   inspect_calendar_access (scripted\<lparr>send_http := delete_fails\<rparr>) tool_environment
     (demo_hub [answer 200 ''calendars'', answer 200 ''none'', answer 200 ''none'']) =
   inspect_calendar_access scripted tool_environment
     (demo_hub [answer 200 ''calendars'', answer 200 ''none'', answer 200 ''none''])"
proof -
  have "reads_alike scripted delete_fails (token_url creds)"
    if "load_credentials tool_environment = Inr creds" for creds
    using that
    by (auto simp: load_credentials_def validate_credentials_def tool_environment_def reads_alike_def
        delete_fails_def)
  from inspection_only_reads [OF this] tool_credentials show ?thesis by blast
qed

section \<open>create_calendars\<close>

text \<open>A run that finds every calendar there already creates none.\<close>

lemma second_run_creates_nothing:
  "(\<forall>(name, sources) \<in> set wanted. listed_id existing name \<noteq> None) \<Longrightarrow>
     \<exists>out. create_wanted G owner existing wanted h = (True, out, h) \<and> length out = length wanted"
proof (induction wanted)
  case Nil
  then show ?case by simp
next
  case (Cons x wanted)
  then show ?case by (cases x) auto
qed

text \<open>When the tool goes on, each calendar was listed or has just been created and shared.\<close>

lemma wanted_exist:
  assumes "create_wanted G owner existing wanted h = (True, out, h')" "(name, sources) \<in> set wanted"
  shows "listed_id existing name \<noteq> None \<or>
    (\<exists>h1 h2 cal h3. create_calendar G name owner h1 = (Inr cal, h2) \<and>
       share_calendar G cal owner h3 = (Inr (), h2))"
  using assms
proof (induction wanted arbitrary: h out)
  case Nil
  then show ?case by simp
next
  case (Cons x wanted)
  obtain n s where x: "x = (n, s)" by fastforce
  have shared: "\<exists>h3. share_calendar G cal owner h3 = (Inr (), h2)"
    if "create_calendar G name owner h1 = (Inr cal, h2)" for name h1 cal h2
    using that by (auto simp: create_calendar_def split: prod.splits sum.splits)
  show ?case
  proof (cases "listed_id existing n")
    case None
    with Cons.prems(1) x obtain cal h1 out1 where c: "create_calendar G n owner h = (Inr cal, h1)"
      and rest: "create_wanted G owner existing wanted h1 = (True, out1, h')"
      by (auto split: sum.splits prod.splits)
    from Cons.IH [OF rest] Cons.prems(2) shared [OF c] c x show ?thesis by auto
  next
    case (Some cal)
    with Cons.prems(1) x obtain out1 where
      rest: "create_wanted G owner existing wanted h = (True, out1, h')"
      by (auto split: prod.splits)
    from Cons.IH [OF rest] Cons.prems(2) Some x show ?thesis by auto
  qed
qed

text \<open>Every calendar with an id is reported on, in the order of the listing.\<close>

lemma share_all_reports:
  "length (fst (share_all G tok owner cs h)) =
     length (filter (\<lambda>c. json_as_str (json_index c ''id'') \<noteq> None) cs)"
  by (induction cs arbitrary: h) (auto simp: case_prod_beta split: option.splits)

text \<open>A calendar is reported as shared only after Google's list said so or a grant went through.\<close>

lemma shared_is_true:
  assumes "tool_share G tok cal owner h = (Granted, h')"
  shows "\<exists>h1. share_calendar G cal owner h1 = (Inr (), h')"
  using assms by (auto simp: tool_share_def Let_def split: prod.splits sum.splits if_splits)

end
