(* ===== verification/Heartbeat.thy ===== *)
theory Heartbeat
  imports Worker
begin

text \<open>
  The hourly sign of life: the task of src/shell/heartbeat.rs. Its knob is in Startup. What it logs
  is its only effect, so its value is the lines.
\<close>

section \<open>One line\<close>

record alive_line =
  alive_accepted :: "64 word"
  alive_delivered :: "64 word"
  alive_failed :: "64 word"
  alive_dead :: "64 word"
  alive_pending :: int
  alive_sources :: nat
  alive_uptime :: nat

text \<open>An unreadable journal is -1, so that it is not taken for an empty one.\<close>

definition heartbeat_line ::
  "('w, 'k, 'dt, 'nd) app_env \<Rightarrow> nat \<Rightarrow> 'w app \<Rightarrow> alive_line" where
  "heartbeat_line E uptime A =
     \<lparr>alive_accepted = m_accepted (hub_metrics (app_hub A)),
      alive_delivered = m_delivered (hub_metrics (app_hub A)),
      alive_failed = m_failed (hub_metrics (app_hub A)), alive_dead = m_dead (hub_metrics (app_hub A)),
      alive_pending = (case fst (app_pending E A) of Inr es \<Rightarrow> int (length es) | Inl e \<Rightarrow> -1),
      alive_sources = card (dom (app_profiles A)), alive_uptime = uptime\<rparr>"

section \<open>The loop\<close>

text \<open>
  What wakes the task: its ticker, at so many seconds after its start, or a change of the shutdown
  flag. The other tasks run in between, so each wake-up comes with the shared state it finds. The
  interval's first, immediate tick is consumed before the loop and is not among them.
\<close>

datatype wake = Beat nat | Flag bool

fun heartbeat_run ::
  "('w, 'k, 'dt, 'nd) app_env \<Rightarrow> (wake \<times> 'w app) list \<Rightarrow> alive_line list \<times> bool" where
  "heartbeat_run E [] = ([], False)"
| "heartbeat_run E ((Beat uptime, A) # ws) =
     (case heartbeat_run E ws of (ls, over) \<Rightarrow> (heartbeat_line E uptime A # ls, over))"
| "heartbeat_run E ((Flag stop, A) # ws) = (if stop then ([], True) else heartbeat_run E ws)"

section \<open>Facts\<close>

text \<open>The wake-ups the task still sees: those before the shutdown.\<close>

definition before_stop :: "(wake \<times> 'w app) list \<Rightarrow> (wake \<times> 'w app) list" where
  "before_stop ws = takeWhile (\<lambda>(w, A). w \<noteq> Flag True) ws"

text \<open>
  One line per tick until the shutdown and none after it, whatever else happens: a journal that
  cannot be read changes the line and not the number of lines.
\<close>

lemma one_line_per_beat:
  "heartbeat_run E ws =
     (List.map_filter (\<lambda>(w, A). case w of Beat n \<Rightarrow> Some (heartbeat_line E n A) | Flag b \<Rightarrow> None)
        (before_stop ws),
      \<exists>A. (Flag True, A) \<in> set ws)"
proof (induction ws)
  case Nil
  then show ?case by (simp add: before_stop_def List.map_filter_def)
next
  case (Cons x ws)
  obtain w A where x: "x = (w, A)" by fastforce
  from Cons show ?case
    by (cases w) (auto simp: x before_stop_def List.map_filter_def split: bool.splits)
qed

text \<open>The number shown is what the next pass will find, or says that it cannot be told.\<close>

lemma beat_shows_backlog:
  assumes "app_codec E" "app_holds E rs A"
  shows "alive_pending (heartbeat_line E n A) \<in> {-1, int (length (pending rs))}"
proof (cases "fst (app_pending E A)")
  case (Inl e)
  then show ?thesis by (simp add: heartbeat_line_def)
next
  case (Inr es)
  then obtain A1 where "app_pending E A = (Inr es, A1)"
    by (cases "app_pending E A") simp
  from app_pending_holds(1) [OF assms this] Inr show ?thesis
    by (simp add: heartbeat_line_def)
qed

end
