(* ===== verification/Source_Properties.thy ===== *)
theory Source_Properties
  imports Status Service_Properties
begin

text \<open>
  Properties of the profile directory, the dashboard's handlers and the operator's routes, each with
  a witness on a small concrete site.
\<close>

section \<open>A concrete site\<close>

definition demo_toml :: toml_crate where
  "demo_toml =
     \<lparr>toml_table = (\<lambda>s. Some Map.empty),
      toml_profile = (\<lambda>s. if s = ''a'' then Inr demo_profile
        else if s = default_profile_toml ''n'' ''cal''
        then Inr \<lparr>schema_version = 2, source_id = ''n'', target_calendar_id = ''cal'',
                  timezone = ''Europe/Brussels'', default_duration_minutes = Some 60\<rparr>
        else Inl ''not a profile'')\<rparr>"

text \<open>A directory that lists the two files it may hold.\<close>

definition demo_listing :: "string \<Rightarrow> fs \<Rightarrow> string + string list" where
  "demo_listing dir fs =
     Inr (filter (\<lambda>p. fs p \<noteq> None) [''d/n.toml'', ''d/a.toml''])"

definition demo_site :: "((string + http_response) list, unit, int, int) site" where
  "demo_site =
     \<lparr>site_env = demo_env, site_toml = demo_toml, site_read_dir = demo_listing,
      site_read_faults = (\<lambda>w. (\<lambda>p. None, w)), site_mkdir_fault = (\<lambda>w. (None, w)),
      site_remove_fault = (\<lambda>w. (None, w)),
      site_map_order = (\<lambda>m. sorted_list_of_set (dom m))\<rparr>"

definition demo_files :: fs where
  "demo_files = [''d/a.toml'' \<mapsto> ''a'']"

definition demo_dash :: "'w \<Rightarrow> 'w app" where
  "demo_dash w = (demo_app [] w)\<lparr>app_files := demo_files, app_profiles_dir := ''d'',
     calendar_owner := Some ''me''\<rparr>"

lemma demo_in_dir: "in_dir ''d'' ''d/a.toml''" "in_dir ''d'' ''d/n.toml''"
  unfolding in_dir_def
  by (rule exI [of _ "''a.toml''"], simp add: path_join_def)
    (rule exI [of _ "''n.toml''"], simp add: path_join_def)

lemma demo_lists:
  assumes "dom fs \<subseteq> {''d/a.toml'', ''d/n.toml''}"
  shows "lists_dir (quiet_profiles demo_site) ''d'' fs"
  using assms demo_in_dir
  by (auto simp: lists_dir_def profiles_at_def demo_site_def demo_listing_def)

lemma quoted_inject:
  "CHR 0x22 \<notin> set a \<Longrightarrow> CHR 0x22 \<notin> set b \<Longrightarrow>
     a @ CHR 0x22 # x = b @ CHR 0x22 # y \<longleftrightarrow> a = b \<and> x = y"
proof (induction a arbitrary: b)
  case Nil
  then show ?case by (cases b) auto
next
  case (Cons c a)
  then show ?case by (cases b) auto
qed

lemma default_toml_inject:
  assumes "CHR 0x22 \<notin> set sid" "CHR 0x22 \<notin> set cal" "CHR 0x22 \<notin> set sid'" "CHR 0x22 \<notin> set cal'"
    "default_profile_toml sid cal = default_profile_toml sid' cal'"
  shows "sid = sid' \<and> cal = cal'"
  using assms by (auto simp: default_profile_toml_def quoted_def dq_def quoted_inject)

lemma demo_toml_reads: "toml_reads_default demo_toml"
  unfolding toml_reads_default_def
proof (intro allI impI)
  fix sid cal prof
  assume a: "source_id_is_safe sid" "plain_text cal"
    "toml_profile demo_toml (default_profile_toml sid cal) = Inr prof"
  have "default_profile_toml sid cal \<noteq> ''a''"
    by (simp add: default_profile_toml_def)
  with a(3) have eq: "default_profile_toml sid cal = default_profile_toml ''n'' ''cal''"
    "prof = source_profile ''n'' ''cal''"
    by (auto simp: demo_toml_def source_profile_def default_timezone_def
        SUPPORTED_SCHEMA_VERSION_def FALLBACK_DURATION_MINUTES_def split: if_splits)
  have "CHR 0x22 \<notin> set cal" using a(2) by (auto simp: plain_text_def)
  with default_toml_inject [OF safe_id_chars(3) [OF a(1)] this _ _ eq(1)] eq(2)
  show "prof = source_profile sid cal" by simp
qed

lemma demo_quiet: "quiet_profiles demo_site =
    \<lparr>ps_toml = demo_toml, ps_tz = (\<lambda>z. z = ''Europe/Brussels''),
     ps_read_dir = demo_listing, ps_read_fault = (\<lambda>p. None)\<rparr>"
  by (simp add: profiles_at_def demo_site_def demo_env_def demo_crates_def)

lemma demo_wf:
  "profile_wf (\<lambda>z. z = ''Europe/Brussels'') demo_profile"
  "profile_wf (\<lambda>z. z = ''Europe/Brussels'') (source_profile ''n'' ''cal'')"
proof -
  have "\<not> is_blank ''s''" "\<not> is_blank ''n''" "\<not> is_blank ''cal''"
    "source_id_is_safe ''s''" "source_id_is_safe ''n''"
    by code_simp+
  then show "profile_wf (\<lambda>z. z = ''Europe/Brussels'') demo_profile"
    "profile_wf (\<lambda>z. z = ''Europe/Brussels'') (source_profile ''n'' ''cal'')"
    by (simp_all add: profile_wf_def demo_profile_def source_profile_def default_timezone_def
        FALLBACK_DURATION_MINUTES_def)
qed

lemma demo_usable: "usable (quiet_profiles demo_site) demo_files ''d/a.toml'' = Some demo_profile"
proof -
  have "utf8_valid ''a''" by (simp add: utf8_valid.simps(2) byte_def)
  then show ?thesis
    by (simp add: usable_iff demo_quiet demo_toml_def demo_files_def demo_wf declared_version_def)
qed

lemma demo_served: "ld_profiles (load_all (quiet_profiles demo_site) ''d'' demo_files) = [demo_profile]"
proof -
  have "is_toml ''d/a.toml''" by code_simp
  moreover have "ps_read_dir (quiet_profiles demo_site) ''d'' demo_files = Inr [''d/a.toml'']"
    by (simp add: demo_quiet demo_listing_def demo_files_def)
  moreover have "load_file (quiet_profiles demo_site) demo_files [] ''d/a.toml'' = Inr demo_profile"
    by (simp add: load_file_usable demo_usable)
  ultimately show ?thesis by (simp add: load_all_def)
qed

lemma demo_parse:
  "profile_parse demo_toml (\<lambda>z. z = ''Europe/Brussels'') (default_profile_toml ''n'' ''cal'') origin =
     Inr (source_profile ''n'' ''cal'')"
proof -
  have "default_profile_toml ''n'' ''cal'' \<noteq> ''a''"
    by (simp add: default_profile_toml_def)
  then have "toml_profile demo_toml (default_profile_toml ''n'' ''cal'') = Inr (source_profile ''n'' ''cal'')"
    by (simp add: demo_toml_def source_profile_def default_timezone_def
        SUPPORTED_SCHEMA_VERSION_def FALLBACK_DURATION_MINUTES_def)
  moreover have "toml_table demo_toml = (\<lambda>s. Some Map.empty)" by (simp add: demo_toml_def)
  ultimately show ?thesis
    by (simp add: profile_parse_inv declared_version_def demo_wf)
qed

lemma demo_saved:
  "save_new (quiet_profiles demo_site) None no_rewrite_faults ''d'' (default_profile_toml ''n'' ''cal'')
     demo_files = (Inr (source_profile ''n'' ''cal''),
       demo_files(''d/n.toml'' \<mapsto> default_profile_toml ''n'' ''cal''))"
proof -
  have "profile_path ''d'' ''n'' = ''d/n.toml''" "profile_temp ''d/n.toml'' = ''d/n.toml.tmp''"
    by code_simp+
  then show ?thesis
    using demo_served demo_parse
    by (simp add: save_new_def demo_quiet source_profile_def demo_profile_def write_atomically_def
        replace_via_clean fs_rename_def demo_files_def fun_eq_iff)
qed

section \<open>Profiles on disk\<close>

text \<open>
  Loading the directory never fails and leaves no file out. Each profile that is served is in
  the first file, in path order, that can be used and claims its id; no two served profiles share an
  id; and every file that does not serve is reported.
\<close>

theorem first_file_serves:
  assumes "ps_read_dir N dir fs = Inr files" "ps = sort (filter is_toml files)"
  shows "distinct (map source_id (ld_profiles (load_all N dir fs))) \<and>
    (\<forall>prof. prof \<in> set (ld_profiles (load_all N dir fs)) \<longleftrightarrow>
      (\<exists>before p after. ps = before @ p # after \<and> usable N fs p = Some prof \<and>
         (\<forall>p' \<in> set before. \<forall>q. usable N fs p' = Some q \<longrightarrow> source_id q \<noteq> source_id prof))) \<and>
    length (ld_profiles (load_all N dir fs)) + length (ld_unusable (load_all N dir fs)) = length ps \<and>
    un_path ` set (ld_unusable (load_all N dir fs)) \<subseteq> set ps"
proof -
  have load: "load_all N dir fs = load_paths N fs ps [] []"
    using assms by (simp add: load_all_def)
  have "prof \<in> set (ld_profiles (load_all N dir fs)) \<longleftrightarrow> serves N fs ps prof" for prof
    by (simp add: load load_paths_served)
  then show ?thesis
    using load_paths_distinct [of "[]" N fs ps "[]"] load_paths_all_accounted [of N fs ps "[]" "[]"]
      load_paths_reported [of N fs ps "[]" "[]"]
    by (simp add: load serves_split)
qed

lemma first_file_serves_witness:
  "distinct (map source_id (ld_profiles (load_all (quiet_profiles demo_site) ''d'' demo_files)))"
proof -
  have "ps_read_dir (quiet_profiles demo_site) ''d'' demo_files = Inr [''d/a.toml'']"
    by (simp add: demo_quiet demo_listing_def demo_files_def)
  from first_file_serves [OF this refl] show ?thesis by blast
qed

text \<open>
  C33: Saving a profile adds it or changes nothing. After a success exactly that profile is served in
  addition, from a file that did not exist before; after any refusal or failure, a write cut short
  included, what is served is what was served before.
\<close>

theorem save_new_adds_or_keeps:
  assumes "lists_dir N dir fs" "lists_dir N dir fs'" "\<forall>p. ps_read_fault N p = None"
    "utf8_valid contents" "save_new N mkdir F dir contents fs = (res, fs')"
  shows "case res of
      Inr prof \<Rightarrow>
        set (ld_profiles (load_all N dir fs')) = insert prof (set (ld_profiles (load_all N dir fs))) \<and>
        source_id prof \<notin> source_id ` set (ld_profiles (load_all N dir fs)) \<and>
        fs (profile_path dir (source_id prof)) = None \<and>
        fs' (profile_path dir (source_id prof)) = Some contents
    | Inl e \<Rightarrow> set (ld_profiles (load_all N dir fs')) = set (ld_profiles (load_all N dir fs))"
proof (cases res)
  case (Inr prof)
  from save_new_Inr [OF assms(5) [unfolded Inr]] have s:
    "profile_parse (ps_toml N) (ps_tz N) contents ''the submitted profile'' = Inr prof"
    "source_id prof \<notin> source_id ` set (ld_profiles (load_all N dir fs))"
    "fs (profile_path dir (source_id prof)) = None"
    "write_atomically F (profile_path dir (source_id prof)) contents fs = (Inr (), fs')" by auto
  from save_new_served [OF assms(1-4) s] s Inr show ?thesis
    using profile_files.replaced [OF s(4)] by simp
next
  case (Inl e)
  with save_new_Inl [OF assms(5) [unfolded Inl] assms(1,2)] show ?thesis by simp
qed

lemma save_new_adds_or_keeps_witness:
  "set (ld_profiles (load_all (quiet_profiles demo_site) ''d''
      (demo_files(''d/n.toml'' \<mapsto> default_profile_toml ''n'' ''cal''))))
   = {source_profile ''n'' ''cal'', demo_profile}"
proof -
  have "lists_dir (quiet_profiles demo_site) ''d'' demo_files"
    "lists_dir (quiet_profiles demo_site) ''d''
       (demo_files(''d/n.toml'' \<mapsto> default_profile_toml ''n'' ''cal''))"
    by (rule demo_lists, simp add: demo_files_def)+
  moreover have "\<forall>p. ps_read_fault (quiet_profiles demo_site) p = None" by (simp add: demo_quiet)
  moreover have "utf8_valid (default_profile_toml ''n'' ''cal'')"
    by (rule utf8_default_toml, code_simp, simp add: utf8_valid.simps(2) byte_def)
  ultimately show ?thesis
    using save_new_adds_or_keeps [OF _ _ _ _ demo_saved] by (simp add: demo_served)
qed

section \<open>Sources\<close>

text \<open>
  C34: Adding a source serves it and disturbs no other. After a success for a source that had no
  profile, the profiles served are those of the directory as it was, with one more under the new
  id, writing to the calendar that was chosen, with the default zone and length. The calendar's id
  has no character that TOML would read as something else.
\<close>

theorem added_source_is_served:
  assumes "reads_succeed S" "lists_dir (quiet_profiles S) (app_profiles_dir A) (app_files A)"
    "lists_dir (quiet_profiles S) (app_profiles_dir A) (app_files A')"
    "toml_reads_default (site_toml S)" "plain_text (trim cal)"
    "app_profiles A (trim source) = None" "create_source S source cal A = (Inr (), A')"
  shows "app_profiles A' = (load_map (quiet_profiles S) (app_profiles_dir A) (app_files A))
      (trim source \<mapsto> source_profile (trim source) (trim cal)) \<and>
    load_map (quiet_profiles S) (app_profiles_dir A) (app_files A) (trim source) = None"
  using create_source_added [OF assms] by blast

lemma demo_trim: "trim ''n'' = ''n''" "trim ''cal'' = ''cal''" "source_id_is_safe ''n''"
    "source_id_is_safe ''s''" "plain_text ''cal''"
proof -
  show "trim ''n'' = ''n''" "trim ''cal'' = ''cal''" "source_id_is_safe ''n''" "source_id_is_safe ''s''"
    by code_simp+
  show "plain_text ''cal''"
    by (simp add: plain_text_def utf8_valid.simps(2) byte_def)
qed

lemma demo_site_reads: "reads_succeed demo_site"
  by (simp add: reads_succeed_def demo_site_def)

lemma demo_dash_fields [simp]:
  "app_files (demo_dash w) = demo_files" "app_profiles_dir (demo_dash w) = ''d''"
  "app_profiles (demo_dash w) = [''s'' \<mapsto> demo_profile]" "calendar_owner (demo_dash w) = Some ''me''"
  "created_calendars (demo_dash w) = []" "deleted_calendars (demo_dash w) = {}"
  "app_locks (demo_dash w) = key_locks_new" "app_hub (demo_dash w) = demo_hub w"
  by (simp_all add: demo_dash_def demo_app_def app_new_def)

lemma demo_save:
  "app_save_new demo_site (default_profile_toml ''n'' ''cal'') (demo_dash w) =
     (Inr (source_profile ''n'' ''cal''),
      (demo_dash w)\<lparr>app_files := demo_files(''d/n.toml'' \<mapsto> default_profile_toml ''n'' ''cal'')\<rparr>)"
proof -
  have "site_read_faults demo_site = (\<lambda>w. (\<lambda>p. None, w))" "site_mkdir_fault demo_site = (\<lambda>w. (None, w))"
    "env_rewrite_faults (site_env demo_site) = (\<lambda>w. (no_rewrite_faults, w))"
    by (simp_all add: demo_site_def demo_env_def)
  with demo_saved show ?thesis by (simp add: app_save_new_def ask_def)
qed

lemma added_source_is_served_witness:
  "app_profiles (snd (create_source demo_site ''n'' ''cal'' (demo_dash []))) ''n''
     = Some (source_profile ''n'' ''cal'')"
proof -
  let ?A = "snd (create_source demo_site ''n'' ''cal'' (demo_dash []))"
  have c: "create_source demo_site ''n'' ''cal'' (demo_dash []) = (Inr (), ?A)"
    by (simp add: create_source_def Let_def demo_trim demo_save)
  have files: "app_files ?A = demo_files(''d/n.toml'' \<mapsto> default_profile_toml ''n'' ''cal'')"
    by (simp add: create_source_def Let_def demo_trim demo_save app_reload_quiet(2))
  have "lists_dir (quiet_profiles demo_site) (app_profiles_dir (demo_dash [])) (app_files (demo_dash []))"
    "lists_dir (quiet_profiles demo_site) (app_profiles_dir (demo_dash [])) (app_files ?A)"
    unfolding files by (simp, rule demo_lists, simp add: demo_files_def)+
  from added_source_is_served [OF demo_site_reads this _ _ _ c]
  show ?thesis by (simp add: demo_trim demo_toml_reads demo_site_def)
qed

text \<open>
  Removing a source strands nothing. It succeeds only when no entry of that source is waiting in
  the journal, and then takes away the file of its name and no other; when it refuses, or fails,
  files and profiles are as they were.
\<close>

theorem removed_source_strands_nothing:
  assumes "app_codec (site_env S)" "app_holds (site_env S) rs A" "app_profiles A sid \<noteq> None"
    "remove_source S sid A = (res, A')"
  shows "case res of
      Inr _ \<Rightarrow> sid \<notin> entry_source ` set (pending rs) \<and>
        app_files A' = (app_files A)(profile_path (app_profiles_dir A) sid := None)
    | Inl _ \<Rightarrow> app_files A' = app_files A \<and> app_profiles A' = app_profiles A"
proof (cases res)
  case (Inl e)
  with remove_source_refused [OF assms(4) [unfolded Inl]] show ?thesis by simp
next
  case (Inr u)
  with assms(4) have "remove_source S sid A = (Inr (), A')" by simp
  from remove_source_done [OF assms(3) this] obtain es A1 where
    r: "app_pending (site_env S) A = (Inr es, A1)" "\<forall>e \<in> set es. entry_source e \<noteq> sid"
      "app_files A' = (app_files A)(profile_path (app_profiles_dir A) sid := None)"
    by blast
  have "es = pending rs"
    by (rule app_pending_holds(1) [OF assms(1,2) r(1)])
  with r Inr show ?thesis by auto
qed

definition demo_removal ::
  "(string + http_response) list \<Rightarrow> (string + http_response) list app" where
  "demo_removal w = (demo_dash w)\<lparr>app_files := [''d/s.toml'' \<mapsto> ''a'']\<rparr>"

lemma removed_source_strands_nothing_witness:
  "app_files (snd (remove_source demo_site ''s'' (demo_removal []))) ''d/s.toml'' = None"
proof -
  have path: "profile_path ''d'' ''s'' = ''d/s.toml''" by code_simp
  have codec: "app_codec (site_env demo_site)" and holds: "app_holds (site_env demo_site) [] (demo_removal [])"
    using demo_app_codec
    by (simp_all add: demo_site_def app_holds_def disk_holds_def file_text_def demo_removal_def
        demo_env_def demo_journal_def image_of_def)
  have "app_pending demo_env (demo_removal []) = (Inr [], demo_removal [])"
    by (simp add: app_pending_def ask_def demo_env_def demo_removal_def journal_pending_def
        read_records_def demo_journal_def pending_eq)
  moreover have "app_delete_profile demo_site ''s'' (demo_removal []) =
      (Inr ''d/s.toml'', (demo_removal [])\<lparr>app_files := Map.empty\<rparr>)"
    by (simp add: app_delete_profile_def ask_def demo_site_def demo_removal_def delete_profile_def
        demo_trim remove_file_def path)
  ultimately have r: "remove_source demo_site ''s'' (demo_removal []) =
      (Inr (), app_reload demo_site ((demo_removal [])\<lparr>app_files := Map.empty\<rparr>))"
    by (simp add: remove_source_def demo_removal_def demo_site_def)
  have "app_profiles (demo_removal []) ''s'' \<noteq> None" "app_profiles_dir (demo_removal []) = ''d''"
    by (simp_all add: demo_removal_def)
  with removed_source_strands_nothing [OF codec holds _ r]
  have "app_files (snd (remove_source demo_site ''s'' (demo_removal [])))
      = (app_files (demo_removal []))(profile_path ''d'' ''s'' := None)"
    by (simp add: r)
  then show ?thesis by (simp add: path)
qed

section \<open>Calendars\<close>

text \<open>
  The calendars page shows Google's list corrected by what the service did itself: the ones
  listed and the ones it created, without the ones it deleted; each with the sources that write to
  it; and of what it created it forgets exactly those that Google now lists.
\<close>

theorem calendars_page_corrects_list:
  assumes "walks_maps S" "finite (dom (app_profiles A))"
    "list_calendars (env_google (site_env S)) (app_hub (snd (app_load_all S A))) = (Inr listed, h)"
    "render_calendars S err A = (Page pg, A')"
  shows "row_id ` set (page_calendars pg) =
      (fst ` set listed \<union> snd ` set (created_calendars A)) - deleted_calendars A \<and>
    created_calendars A' = filter (\<lambda>(n, i). i \<notin> fst ` set listed) (created_calendars A) \<and>
    (\<forall>r \<in> set (page_calendars pg). set (row_in_use_by r) =
       source_id ` {p \<in> ran (app_profiles A). target_calendar_id p = row_id r})"
proof -
  let ?A = "snd (app_load_all S A)\<lparr>app_hub := h\<rparr>"
  obtain c1 B1 where c1: "with_created_calendars listed ?A = (c1, B1)" by fastforce
  obtain c2 B2 where c2: "without_deleted_calendars c1 B1 = (c2, B2)" by fastforce
  have "app_load_all S A = (fst (app_load_all S A), snd (app_load_all S A))" by simp
  note f = app_load_all_fields [OF this]
  have pg: "map (\<lambda>r. (row_id r, row_name r)) (page_calendars pg) = c2" "A' = remember_calendars c2 B2"
    "\<forall>r \<in> set (page_calendars pg). row_in_use_by r =
       map source_id (filter (\<lambda>p. target_calendar_id p = row_id r)
         (sort_key source_id (map_values S (app_profiles A))))"
    using render_listed [OF assms(3) c1 c2, of err] assms(4) by auto
  have "fst ` set c2 = row_id ` set (page_calendars pg)"
    by (simp add: pg(1) [symmetric] image_image)
  then show ?thesis
    using corrected_list [OF c1 c2] f pg set_map_values [OF assms(1,2)]
    by (simp add: remember_calendars_def)
qed

lemma demo_walks: "walks_maps demo_site"
  by (simp add: walks_maps_def demo_site_def)

lemma demo_site_google: "env_google (site_env demo_site) = demo_google"
  by (simp add: demo_site_def demo_env_def)

lemma demo_load_hub: "app_hub (snd (app_load_all demo_site A)) = app_hub A"
  by (simp add: app_load_all_def ask_def demo_site_def)

lemma calendars_page_corrects_list_witness:
  "\<exists>pg A'. render_calendars demo_site None
      ((demo_dash [answer 200 ''calendars''])\<lparr>created_calendars := [(''z'', ''c9'')],
         deleted_calendars := {''c1''}\<rparr>) = (Page pg, A') \<and>
    row_id ` set (page_calendars pg) = {''c2'', ''c9''} \<and> created_calendars A' = [(''z'', ''c9'')]"
proof -
  let ?A = "(demo_dash [answer 200 ''calendars''])\<lparr>created_calendars := [(''z'', ''c9'')],
         deleted_calendars := {''c1''}\<rparr>"
  have l: "list_calendars (env_google (site_env demo_site)) (app_hub (snd (app_load_all demo_site ?A))) =
      (Inr [(''c2'', ''a''), (''c1'', ''b'')], demo_hub [])"
    by (simp add: demo_site_google demo_load_hub demo_calendars)
  obtain pg A' where r: "render_calendars demo_site None ?A = (Page pg, A')"
    using render_is_page by blast
  have f: "created_calendars ?A = [(''z'', ''c9'')]" "deleted_calendars ?A = {''c1''}" by simp_all
  have "finite (dom (app_profiles ?A))" by simp
  note t = calendars_page_corrects_list [OF demo_walks this l r, unfolded f]
  have "fst ` set [(''c2'', ''a''), (''c1'', ''b'')] \<union> snd ` set [(''z'', ''c9'')] - {''c1''} = {''c2'', ''c9''}"
    by (simp add: insert_Diff_if insert_commute)
  with t [THEN conjunct1] have ids: "row_id ` set (page_calendars pg) = {''c2'', ''c9''}"
    by (rule trans)
  have "filter (\<lambda>(n, i). i \<notin> fst ` set [(''c2'', ''a''), (''c1'', ''b'')]) [(''z'', ''c9'')] = [(''z'', ''c9'')]"
    by simp
  with t [THEN conjunct2, THEN conjunct1] have "created_calendars A' = [(''z'', ''c9'')]"
    by (rule trans)
  with ids r show ?thesis by blast
qed

text \<open>
  A calendar is created once per name. After a page request that created one, asking for the
  same name again makes no request to Google, however far its list lags; and rendering the page in
  between does not change that as long as the calendar is not listed.
\<close>

theorem second_click_creates_nothing:
  assumes "page_create_calendar S name A = (Redirect u, A1)" "calendar_owner A = Some owner"
    "trim name \<noteq> []" "remembered_calendar (trim name) A = None"
    "ensure_calendar (env_google (site_env S)) (trim name) owner (app_hub A) = (Inr (i, True), h)"
  shows "app_hub (snd (page_create_calendar S name A1)) = app_hub A1 \<and>
    (\<forall>err listed h2.
       list_calendars (env_google (site_env S)) (app_hub (snd (app_load_all S A1))) = (Inr listed, h2) \<longrightarrow>
       i \<notin> fst ` set listed \<longrightarrow>
       remembered_calendar (trim name) (snd (render_calendars S err A1)) = Some i)"
proof -
  have made: "remembered_calendar (trim name) A1 = Some i" "calendar_owner A1 = Some owner"
    using page_create_made [OF assms(1-4)] assms(5) by auto
  have "app_hub (snd (page_create_calendar S name A1)) = app_hub A1"
    using create_remembered [OF made(1) assms(3), of S] made(2) by simp
  moreover have "remembered_calendar (trim name) (snd (render_calendars S err A1)) = Some i"
    if l: "list_calendars (env_google (site_env S)) (app_hub (snd (app_load_all S A1))) = (Inr listed, h2)"
      and i: "i \<notin> fst ` set listed" for err listed h2
  proof -
    let ?A = "snd (app_load_all S A1)\<lparr>app_hub := h2\<rparr>"
    obtain c1 B1 where c1: "with_created_calendars listed ?A = (c1, B1)" by fastforce
    obtain c2 B2 where c2: "without_deleted_calendars c1 B1 = (c2, B2)" by fastforce
    have "app_load_all S A1 = (fst (app_load_all S A1), snd (app_load_all S A1))" by simp
    from app_load_all_fields [OF this] made(1)
    have "remembered_calendar (trim name) ?A = Some i" by (simp add: remembered_calendar_def)
    from still_remembered [OF c1 c2 this i] render_listed [OF l c1 c2, of err]
    show ?thesis by auto
  qed
  ultimately show ?thesis by blast
qed

lemma demo_ensured:
  "ensure_calendar demo_google ''n'' ''me''
     (demo_hub [answer 200 ''calendars'', answer 200 ''event'', answer 200 ''none'']) =
     (Inr (''g1'', True), demo_hub [])"
proof -
  have "create_calendar demo_google ''n'' ''me'' (demo_hub [answer 200 ''event'', answer 200 ''none'']) =
      (Inr ''g1'', demo_hub [])"
  proof -
    let ?ev = "JObj [(''id'', JStr ''g1''), (''summary'', JStr ''x''),
      (''start'', JObj [(''date'', JStr ''d'')]), (''end'', JObj [(''date'', JStr ''e'')])]"
    have "demo_json ''event'' = Inr ?ev" by (simp add: demo_json_def)
    moreover have "calendar_id_of_json ?ev = Some ''g1''"
      by (simp add: calendar_id_of_json_def field_unfold)
    ultimately have "parse_response demo_google calendar_id_of_json what
        (call_google demo_google build (demo_hub (answer 200 ''event'' # w))) = (Inr ''g1'', demo_hub w)"
      for what build w by (rule demo_answer)
    then show ?thesis
      unfolding create_calendar_def by (simp add: share_calendar_def unit_response_def) (simp add: demo_call)
  qed
  then show ?thesis by (simp add: ensure_missing [OF demo_calendars])
qed

lemma second_click_creates_nothing_witness:
  "\<exists>A1. page_create_calendar demo_site ''n''
      (demo_dash [answer 200 ''calendars'', answer 200 ''event'', answer 200 ''none'']) =
        (Redirect ''/calendars'', A1) \<and>
    app_hub (snd (page_create_calendar demo_site ''n'' A1)) = demo_hub []"
proof -
  let ?A = "demo_dash [answer 200 ''calendars'', answer 200 ''event'', answer 200 ''none'']"
  have none: "remembered_calendar (trim ''n'') ?A = None"
    by (simp add: remembered_calendar_def)
  obtain A1 where c: "page_create_calendar demo_site ''n'' ?A = (Redirect ''/calendars'', A1)"
    "app_hub A1 = demo_hub []"
    using demo_ensured
    by (simp add: page_create_calendar_def demo_trim remembered_calendar_def demo_site_google
        remember_created_calendar_def Let_def)
  have "ensure_calendar (env_google (site_env demo_site)) (trim ''n'') ''me'' (app_hub ?A) =
      (Inr (''g1'', True), demo_hub [])"
    using demo_ensured by (simp add: demo_trim demo_site_google)
  from second_click_creates_nothing [OF c(1) _ _ none this] c show ?thesis
    by (simp add: demo_trim)
qed

text \<open>
  A calendar is deleted only when nothing writes to it. The page answers with success only when
  no profile that is served names the calendar and Google confirmed the deletion; from then on the
  page leaves it out, and nothing the service remembers brings it back.
\<close>

theorem deleted_calendar_was_unused:
  assumes "walks_maps S" "finite (dom (app_profiles A))"
    "page_delete_calendar S cal A = (Redirect u, A')"
  shows "(\<forall>p \<in> ran (app_profiles A). target_calendar_id p \<noteq> cal) \<and>
    client_delete_calendar (env_google (site_env S)) cal (app_hub A) = (Inr (), app_hub A') \<and>
    deleted_calendars A' = insert cal (deleted_calendars A) \<and>
    created_calendars A' = filter (\<lambda>(n, i). i \<noteq> cal) (created_calendars A)"
  using page_deleted [OF assms(3)] set_map_values [OF assms(1,2)]
  by (auto simp: forget_created_calendar_def remember_deleted_calendar_def)

lemma deleted_calendar_was_unused_witness:
  "deleted_calendars (snd (page_delete_calendar demo_site ''c1'' (demo_dash [answer 200 ''none''])))
     = {''c1''}"
proof -
  let ?A = "demo_dash [answer 200 ''none'']"
  have "map_values demo_site [''s'' \<mapsto> demo_profile] = [demo_profile]"
    by (simp add: map_values_def demo_site_def List.map_filter_def)
  then have "page_delete_calendar demo_site ''c1'' ?A =
      (Redirect ''/calendars'', snd (page_delete_calendar demo_site ''c1'' ?A))"
    by (simp add: page_delete_calendar_def demo_profile_def client_delete_calendar_def
        demo_site_google demo_call unit_response_def)
  from deleted_calendar_was_unused [OF demo_walks _ this] show ?thesis by simp
qed

section \<open>What operators see\<close>

text \<open>
  The dry run tells the truth about what a post would do: it answers 200 with the very event the
  mapping makes exactly when the check at the door lets the payload pass, gives the refusal the
  door would give, and does not answer exactly when the door panics.
\<close>

theorem dry_run_predicts_the_door:
  assumes "app_profiles A src = Some p" "source_id p = src"
  shows "case must_be_mappable K body p of
      Pass \<Rightarrow> \<exists>ev. map_payload K body p (''profile '' @ src) = Ok ev \<and>
        dry_run K src Admin body A =
          Some (200, JObj [(''status'', JStr ''ok''),
            (''would_write_to_calendar'', JStr (target_calendar_id p)), (''event'', event_to_json ev)])
    | Refuse r \<Rightarrow> dry_run K src Admin body A = Some r
    | Crash \<Rightarrow> dry_run K src Admin body A = None"
  using assms
  by (auto simp: dry_run_def require_admin_def must_be_mappable_def split: outcome.split)

lemma dry_run_predicts_the_door_witness:
  "\<exists>ev. dry_run demo_crates ''s'' Admin demo_payload (demo_dash ()) =
     Some (200, JObj [(''status'', JStr ''ok''), (''would_write_to_calendar'', JStr ''cal''),
                      (''event'', event_to_json ev)])"
proof -
  obtain ev where "map_payload demo_crates demo_payload demo_profile ''profile s'' = Ok ev"
    using demo_maps by blast
  moreover have "source_id demo_profile = ''s''" "target_calendar_id demo_profile = ''cal''"
    by (simp_all add: demo_profile_def)
  ultimately show ?thesis
    using dry_run_predicts_the_door [of "demo_dash ()" "''s''" demo_profile demo_crates demo_payload]
    by (auto simp: must_be_mappable_def)
qed

text \<open>
  Text from outside cannot break out of the status page. What is escaped has no character that
  opens or closes markup or an attribute, nothing is lost in it, and a row of the history is the
  fixed markup around the escaped time, source and outcome.
\<close>

theorem status_text_is_inert:
  "list_all inert (escape s) \<and> unescape (Suc (length s)) (escape s) = s \<and>
   route_row r = ''<tr><td>'' @ escape (route_at r) @ ''</td><td><code>'' @ escape (route_source r) @
     ''</code></td><td>'' @ escape (outcome_text (route_outcome r)) @ ''</td></tr>''"
  using escape_inert_aux [of _ s] unescape_escape [of s "Suc (length s)"]
  by (simp add: list_all_iff route_row_def)

end
