(* ===== verification/Store_Locks.thy ===== *)
theory Store_Locks
  imports Machines
begin

text \<open>
  The two locks of the token store (src/shell/token_store.rs, "Lock order"): which locks each method
  takes, in the order it takes them, and the interleavings of any number of calls.

  The locks are tokio's \<open>RwLock\<close>: fair, so that a request waits in line behind every earlier one and
  only the head of the line is granted, readers together and a writer alone. A method keeps its
  guards until it returns.
\<close>

section \<open>What each method locks\<close>

datatype lock = Tokens | Sessions

datatype mode = Read | Write

type_synonym plan = "(lock \<times> mode) list"

text \<open>The methods; a revocation goes on to the sessions only when there was a token.\<close>

datatype store_call =
    CallIssue | CallRevoke bool | CallVerify | CallReveal | CallVerifyKey | CallList
  | CallStartSession | CallSessionIsLive | CallEndSession

fun locks_of :: "store_call \<Rightarrow> plan" where
  "locks_of CallIssue = [(Tokens, Write), (Sessions, Read)]"
| "locks_of (CallRevoke existed) =
     (if existed then [(Tokens, Write), (Sessions, Read)] else [(Tokens, Write)])"
| "locks_of CallVerify = [(Tokens, Read)]"
| "locks_of CallReveal = [(Tokens, Read)]"
| "locks_of CallVerifyKey = [(Tokens, Read)]"
| "locks_of CallList = [(Tokens, Read)]"
| "locks_of CallStartSession = [(Tokens, Read), (Sessions, Write)]"
| "locks_of CallSessionIsLive = [(Sessions, Read)]"
| "locks_of CallEndSession = [(Tokens, Read), (Sessions, Write)]"

section \<open>Interleavings\<close>

datatype progress = Going plan | Blocked lock mode plan | Returned

record lock_race =
  queue_of :: "lock \<Rightarrow> (nat \<times> mode) list"
  held_by :: "lock \<Rightarrow> (nat \<times> mode) list"
  callers :: "progress list"

fun grantable :: "mode \<Rightarrow> (nat \<times> mode) list \<Rightarrow> bool" where
  "grantable Read hs \<longleftrightarrow> list_all (\<lambda>h. snd h = Read) hs"
| "grantable Write hs \<longleftrightarrow> hs = []"

definition lock_start :: "plan list \<Rightarrow> lock_race" where
  "lock_start ps = \<lparr>queue_of = (\<lambda>l. []), held_by = (\<lambda>l. []), callers = map Going ps\<rparr>"

inductive lock_step :: "lock_race \<Rightarrow> lock_race \<Rightarrow> bool" where
  ask:
    "n < length (callers W) \<Longrightarrow> callers W ! n = Going ((l, m) # rest) \<Longrightarrow>
     lock_step W (W\<lparr>queue_of := (queue_of W)(l := queue_of W l @ [(n, m)]),
                    callers := (callers W)[n := Blocked l m rest]\<rparr>)"
| grant:
    "queue_of W l = (n, m) # q \<Longrightarrow> grantable m (held_by W l) \<Longrightarrow>
     callers W ! n = Blocked l m rest \<Longrightarrow>
     lock_step W (W\<lparr>queue_of := (queue_of W)(l := q),
                    held_by := (held_by W)(l := (n, m) # held_by W l),
                    callers := (callers W)[n := Going rest]\<rparr>)"
| return:
    "n < length (callers W) \<Longrightarrow> callers W ! n = Going [] \<Longrightarrow>
     lock_step W (W\<lparr>held_by := (\<lambda>l. filter (\<lambda>h. fst h \<noteq> n) (held_by W l)),
                    callers := (callers W)[n := Returned]\<rparr>)"

definition lock_reachable :: "lock_race \<Rightarrow> lock_race \<Rightarrow> bool" where
  "lock_reachable = lock_step\<^sup>*\<^sup>*"

definition all_returned :: "lock_race \<Rightarrow> bool" where
  "all_returned W \<longleftrightarrow> (\<forall>c \<in> set (callers W). c = Returned)"

section \<open>The invariant\<close>

text \<open>The requests a call has still to make, the one it waits for included.\<close>

fun to_come :: "progress \<Rightarrow> plan" where
  "to_come (Going rest) = rest"
| "to_come (Blocked l m rest) = (l, m) # rest"
| "to_come Returned = []"

definition queues_right :: "lock_race \<Rightarrow> bool" where
  "queues_right W \<longleftrightarrow>
     (\<forall>l. distinct (map fst (queue_of W l)) \<and>
        (\<forall>n m. (n, m) \<in> set (queue_of W l) \<longleftrightarrow>
           n < length (callers W) \<and> (\<exists>rest. callers W ! n = Blocked l m rest)))"

text \<open>A call that has not returned holds exactly what it has asked for and been granted.\<close>

definition holds_right :: "plan list \<Rightarrow> lock_race \<Rightarrow> bool" where
  "holds_right ps W \<longleftrightarrow>
     length (callers W) = length ps \<and>
     (\<forall>l n m. (n, m) \<in> set (held_by W l) \<longrightarrow> n < length ps \<and> callers W ! n \<noteq> Returned) \<and>
     (\<forall>n < length ps. callers W ! n \<noteq> Returned \<longrightarrow>
        (\<exists>got. ps ! n = got @ to_come (callers W ! n) \<and>
           (\<forall>l m. (n, m) \<in> set (held_by W l) \<longleftrightarrow> (l, m) \<in> set got)))"

definition guards_right :: "lock_race \<Rightarrow> bool" where
  "guards_right W \<longleftrightarrow>
     (\<forall>l n m n' m'. (n, m) \<in> set (held_by W l) \<longrightarrow> (n', m') \<in> set (held_by W l) \<longrightarrow>
        n \<noteq> n' \<longrightarrow> m = Read \<and> m' = Read)"

definition lock_inv :: "plan list \<Rightarrow> lock_race \<Rightarrow> bool" where
  "lock_inv ps W \<longleftrightarrow> queues_right W \<and> holds_right ps W \<and> guards_right W"

lemma lock_start_inv: "lock_inv ps (lock_start ps)"
  by (auto simp: lock_inv_def lock_start_def queues_right_def holds_right_def guards_right_def)

lemma queues_step: "lock_step W W' \<Longrightarrow> queues_right W \<Longrightarrow> queues_right W'"
proof (induction rule: lock_step.induct)
  case (ask n W l m rest)
  have "n \<notin> fst ` set (queue_of W l')" for l'
    using ask by (auto simp: queues_right_def)
  with ask show ?case
    by (auto simp: queues_right_def nth_list_update)
next
  case (grant W l n m q rest)
  have n: "n < length (callers W)" "n \<notin> fst ` set q"
    using grant unfolding queues_right_def
    by (metis list.set_intros(1), metis distinct.simps(2) fst_conv list.set_map list.simps(9))
  have q: "(k, m') \<in> set q \<longleftrightarrow> (k, m') \<in> set (queue_of W l) \<and> k \<noteq> n" for k m'
    using grant(1) n(2) grant.prems unfolding queues_right_def
    by (force dest: spec [of _ l])
  show ?case
    unfolding queues_right_def
  proof (intro allI conjI)
    fix l' show "distinct (map fst (queue_of (W\<lparr>queue_of := (queue_of W)(l := q),
        held_by := (held_by W)(l := (n, m) # held_by W l),
        callers := (callers W)[n := Going rest]\<rparr>) l'))"
      using grant by (simp add: queues_right_def) (metis distinct.simps(2) list.simps(9))
  next
    fix l' k m'
    show "(k, m') \<in> set (queue_of (W\<lparr>queue_of := (queue_of W)(l := q),
        held_by := (held_by W)(l := (n, m) # held_by W l),
        callers := (callers W)[n := Going rest]\<rparr>) l') \<longleftrightarrow>
      k < length (callers (W\<lparr>queue_of := (queue_of W)(l := q),
        held_by := (held_by W)(l := (n, m) # held_by W l),
        callers := (callers W)[n := Going rest]\<rparr>)) \<and>
      (\<exists>rest'. callers (W\<lparr>queue_of := (queue_of W)(l := q),
        held_by := (held_by W)(l := (n, m) # held_by W l),
        callers := (callers W)[n := Going rest]\<rparr>) ! k = Blocked l' m' rest')"
      using grant.prems grant.hyps(3) n(1) q by (auto simp: queues_right_def nth_list_update)
  qed
next
  case (return n W)
  then show ?case by (auto simp: queues_right_def nth_list_update)
qed

lemma guards_step: "lock_step W W' \<Longrightarrow> guards_right W \<Longrightarrow> guards_right W'"
proof (induction rule: lock_step.induct)
  case (grant W l n m q rest)
  then show ?case by (cases m) (fastforce simp: guards_right_def list_all_iff split: if_splits)+
qed (fastforce simp: guards_right_def)+

lemma holds_step: "lock_step W W' \<Longrightarrow> queues_right W \<Longrightarrow> holds_right ps W \<Longrightarrow> holds_right ps W'"
proof (induction rule: lock_step.induct)
  case (ask n W l m rest)
  then show ?case by (auto simp: holds_right_def nth_list_update)
next
  case (grant W l n m q rest)
  have n: "n < length (callers W)"
    using grant unfolding queues_right_def by (metis list.set_intros(1))
  have len: "length (callers W) = length ps" using grant.prems by (simp add: holds_right_def)
  obtain got where got: "ps ! n = got @ (l, m) # rest"
    "\<forall>l' m'. (n, m') \<in> set (held_by W l') \<longleftrightarrow> (l', m') \<in> set got"
    using grant.prems(2) grant.hyps(3) n len unfolding holds_right_def by force
  have mine: "\<exists>got'. ps ! n = got' @ rest \<and>
      (\<forall>l' m'. (n, m') \<in> set (((held_by W)(l := (n, m) # held_by W l)) l') \<longleftrightarrow> (l', m') \<in> set got')"
    using got by (intro exI [of _ "got @ [(l, m)]"]) auto
  have others: "\<exists>got. ps ! k = got @ to_come (callers W ! k) \<and>
      (\<forall>l' m'. (k, m') \<in> set (((held_by W)(l := (n, m) # held_by W l)) l') \<longleftrightarrow> (l', m') \<in> set got)"
    if k: "k \<noteq> n" "k < length ps" "callers W ! k \<noteq> Returned" for k
  proof -
    obtain g where "ps ! k = g @ to_come (callers W ! k)"
      "\<forall>l m. (k, m) \<in> set (held_by W l) \<longleftrightarrow> (l, m) \<in> set g"
      using grant.prems(2) k unfolding holds_right_def by blast
    with k(1) show ?thesis by (intro exI [of _ g]) auto
  qed
  have holders: "\<forall>l' k m'. (k, m') \<in> set (((held_by W)(l := (n, m) # held_by W l)) l') \<longrightarrow>
      k = n \<or> k < length ps \<and> callers W ! k \<noteq> Returned"
    using grant.prems(2) by (auto simp: holds_right_def split: if_splits)
  have mine': "\<exists>got'. ps ! n = got' @ to_come (Going rest) \<and>
      (\<forall>l' m'. (n, m') \<in> set (((held_by W)(l := (n, m) # held_by W l)) l') \<longleftrightarrow> (l', m') \<in> set got')"
    using mine by simp
  let ?held = "(held_by W)(l := (n, m) # held_by W l)"
  let ?callers = "(callers W)[n := Going rest]"
  have all: "\<exists>got. ps ! k = got @ to_come (?callers ! k) \<and>
      (\<forall>l' m'. (k, m') \<in> set (?held l') \<longleftrightarrow> (l', m') \<in> set got)"
    if "k < length ps" "?callers ! k \<noteq> Returned" for k
  proof (cases "k = n")
    case True
    have "?callers ! k = Going rest" using True n by simp
    with mine' show ?thesis unfolding True by (simp only:)
  next
    case False
    then have "?callers ! k = callers W ! k" by simp
    moreover from this that(2) have "callers W ! k \<noteq> Returned" by simp
    ultimately show ?thesis using others [OF False that(1)] by metis
  qed
  have live: "k < length ps \<and> ?callers ! k \<noteq> Returned" if "(k, m') \<in> set (?held l')" for l' k m'
  proof (cases "k = n")
    case False
    then have "?callers ! k = callers W ! k" by simp
    with holders that False show ?thesis by metis
  qed (use n len in simp)
  have "holds_right ps W'" if "callers W' = ?callers" "held_by W' = ?held" for W'
    unfolding holds_right_def that using all live len by (intro conjI allI impI) (simp, blast+)
  then show ?case by simp
next
  case (return n W)
  then show ?case by (auto simp: holds_right_def nth_list_update)
qed

lemma lock_step_inv: "lock_step W W' \<Longrightarrow> lock_inv ps W \<Longrightarrow> lock_inv ps W'"
  using queues_step holds_step guards_step unfolding lock_inv_def by blast

interpretation lock_runs: machine lock_step "lock_inv ps" for ps
  by unfold_locales (rule lock_step_inv)

section \<open>Progress\<close>

text \<open>The order: tokens before sessions, strictly.\<close>

fun in_order :: "plan \<Rightarrow> bool" where
  "in_order [] \<longleftrightarrow> True"
| "in_order ((Tokens, m) # p) \<longleftrightarrow> list_all (\<lambda>r. fst r = Sessions) p \<and> length p \<le> 1"
| "in_order ((Sessions, m) # p) \<longleftrightarrow> p = []"

lemma locks_of_in_order: "in_order (locks_of c)"
  by (cases c rule: locks_of.cases) auto

lemma in_order_append:
  "in_order (got @ p) \<Longrightarrow> (Sessions, m) \<in> set got \<Longrightarrow> p = []"
  "in_order (got @ (l, k) # p) \<Longrightarrow> (Tokens, m) \<in> set got \<Longrightarrow> l = Sessions"
  by (cases got rule: in_order.cases; cases p; simp)+

text \<open>Who holds the sessions has nothing more to ask for, who holds the tokens at most the sessions.\<close>

lemma holder_cases:
  assumes "holds_right ps W" "\<forall>p \<in> set ps. in_order p" "(n, m) \<in> set (held_by W l)"
  shows "n < length (callers W)" "callers W ! n \<noteq> Returned"
    "l = Sessions \<Longrightarrow> to_come (callers W ! n) = []"
    "to_come (callers W ! n) = (l', k) # p \<Longrightarrow> l' = Sessions"
proof -
  show n: "n < length (callers W)" "callers W ! n \<noteq> Returned"
    using assms(1,3) unfolding holds_right_def by (metis, blast)
  obtain got where got: "ps ! n = got @ to_come (callers W ! n)" "(l, m) \<in> set got"
    using assms(1,3) n unfolding holds_right_def by metis
  have "in_order (ps ! n)" using n assms(1,2) by (simp add: holds_right_def)
  then have ord: "in_order (got @ to_come (callers W ! n))" using got(1) by simp
  show last: "l = Sessions \<Longrightarrow> to_come (callers W ! n) = []"
    using in_order_append(1) [OF ord] got(2) by blast
  show "l' = Sessions" if p: "to_come (callers W ! n) = (l', k) # p"
    using last p got(2) in_order_append(2) [OF ord [unfolded p]] by (cases l) auto
qed

lemma not_grantable_holder: "\<not> grantable m hs \<Longrightarrow> \<exists>k m'. (k, m') \<in> set hs"
  by (cases m; cases hs) auto

lemma running_steps:
  assumes "n < length (callers W)" "callers W ! n = Going p"
  shows "\<exists>W'. lock_step W W'"
proof (cases p)
  case Nil
  with assms lock_step.return show ?thesis by blast
next
  case (Cons r rest)
  with assms lock_step.ask [of n W "fst r" "snd r" rest] show ?thesis by auto
qed

lemma head_steps:
  assumes inv: "lock_inv ps W" and q: "queue_of W l = (n, m) # q"
    and free: "\<And>k m'. (k, m') \<in> set (held_by W l) \<Longrightarrow> \<exists>p. callers W ! k = Going p"
  shows "\<exists>W'. lock_step W W'"
proof (cases "grantable m (held_by W l)")
  case True
  from inv q obtain rest where "callers W ! n = Blocked l m rest"
    unfolding lock_inv_def queues_right_def by (metis list.set_intros(1))
  with True q lock_step.grant show ?thesis by blast
next
  case False
  then obtain k m' where k: "(k, m') \<in> set (held_by W l)" using not_grantable_holder by blast
  with inv have "k < length (callers W)" by (auto simp: lock_inv_def holds_right_def)
  with free [OF k] running_steps show ?thesis by blast
qed

lemma lock_step_exists:
  assumes inv: "lock_inv ps W" and ord: "\<forall>p \<in> set ps. in_order p" and "\<not> all_returned W"
  shows "\<exists>W'. lock_step W W'"
proof -
  have h: "holds_right ps W" using inv by (simp add: lock_inv_def)
  note holder = holder_cases [OF h ord]
  show ?thesis
  proof (cases "queue_of W Sessions")
    case (Cons r q)
    have "\<exists>p. callers W ! k = Going p" if "(k, m') \<in> set (held_by W Sessions)" for k m'
      using holder(2,3) [OF that] by (cases "callers W ! k") auto
    with Cons show ?thesis using head_steps [OF inv, of Sessions "fst r" "snd r" q] by auto
  next
    case no_sessions: Nil
    have unblocked: "\<not> (n < length (callers W) \<and> callers W ! n = Blocked Sessions m rest)" for n m rest
      using inv no_sessions unfolding lock_inv_def queues_right_def by (metis empty_iff list.set(1))
    show ?thesis
    proof (cases "queue_of W Tokens")
      case (Cons r q)
      have "\<exists>p. callers W ! k = Going p" if "(k, m') \<in> set (held_by W Tokens)" for k m'
        using holder(1,2,4) [OF that] unblocked [of k] by (cases "callers W ! k") fastforce+
      with Cons show ?thesis using head_steps [OF inv, of Tokens "fst r" "snd r" q] by auto
    next
      case Nil
      obtain n where n: "n < length (callers W)" "callers W ! n \<noteq> Returned"
        using assms(3) by (auto simp: all_returned_def in_set_conv_nth)
      have "queue_of W l = []" for l using Nil no_sessions by (cases l) auto
      then have "callers W ! n \<noteq> Blocked l m rest" for l m rest
        using inv n(1) unfolding lock_inv_def queues_right_def by (metis empty_iff list.set(1))
      with n running_steps show ?thesis by (cases "callers W ! n") blast+
    qed
  qed
qed

fun progress_rank :: "progress \<Rightarrow> nat" where
  "progress_rank (Going p) = 2 * length p + 1"
| "progress_rank (Blocked l m p) = 2 * length p + 2"
| "progress_rank Returned = 0"

definition lock_rank :: "lock_race \<Rightarrow> nat" where
  "lock_rank W = sum_list (map progress_rank (callers W))"

lemma lock_step_rank:
  assumes "lock_step W W'" "queues_right W"
  shows "lock_rank W' < lock_rank W"
proof -
  have less: "sum_list (map progress_rank (cs[n := c])) < sum_list (map progress_rank cs)"
    if "n < length cs" "progress_rank c < progress_rank (cs ! n)" for n c cs
    using that by (induction cs arbitrary: n) (auto split: nat.splits simp: nth_Cons)
  from assms show ?thesis
  proof (induction rule: lock_step.induct)
    case (grant W l n m q rest)
    then have "n < length (callers W)" unfolding queues_right_def by (metis list.set_intros(1))
    with grant(3) show ?case by (simp add: lock_rank_def less)
  qed (simp_all add: lock_rank_def less)
qed

text \<open>The calls of the store, whichever they are.\<close>

definition calls_inv :: "lock_race \<Rightarrow> bool" where
  "calls_inv W \<longleftrightarrow> (\<exists>cs. lock_inv (map locks_of cs) W)"

interpretation store_calls: finishing_machine lock_step calls_inv lock_rank all_returned
proof
  fix W W'
  assume "calls_inv W"
  then obtain cs where inv: "lock_inv (map locks_of cs) W"
    by (auto simp: calls_inv_def)
  show "calls_inv W'" if "lock_step W W'"
    using lock_step_inv [OF that inv] by (auto simp: calls_inv_def)
  show "lock_rank W' < lock_rank W" if "lock_step W W'"
    using inv that by (simp add: lock_step_rank lock_inv_def)
  show "\<exists>W'. lock_step W W'" if "\<not> all_returned W"
    using lock_step_exists [OF inv _ that] by (simp add: locks_of_in_order)
qed

section \<open>Properties\<close>

definition calls_start :: "store_call list \<Rightarrow> lock_race" where
  "calls_start cs = lock_start (map locks_of cs)"

lemma calls_reach: "lock_reachable (calls_start cs) W \<Longrightarrow> lock_inv (map locks_of cs) W"
  unfolding calls_start_def lock_reachable_def by (rule lock_runs.run_keeps [OF _ lock_start_inv])

text \<open>
  Two calls under way: the issue has the tokens, the login stands in line for them. And the two
  orders mixed: an issue with the tokens and a login with the sessions wait for each other forever.
\<close>

definition granted :: "lock \<Rightarrow> lock_race \<Rightarrow> lock_race" where
  "granted l W =
     (case queue_of W l of
        [] \<Rightarrow> W
      | (n, m) # q \<Rightarrow>
          (case callers W ! n of
             Blocked l' m' rest \<Rightarrow>
               W\<lparr>queue_of := (queue_of W)(l := q), held_by := (held_by W)(l := (n, m) # held_by W l),
                 callers := (callers W)[n := Going rest]\<rparr>
           | _ \<Rightarrow> W))"

definition asked :: "nat \<Rightarrow> lock_race \<Rightarrow> lock_race" where
  "asked n W =
     (case callers W ! n of
        Going ((l, m) # rest) \<Rightarrow>
          W\<lparr>queue_of := (queue_of W)(l := queue_of W l @ [(n, m)]),
            callers := (callers W)[n := Blocked l m rest]\<rparr>
      | _ \<Rightarrow> W)"

lemma asked_step:
  "n < length (callers W) \<Longrightarrow> callers W ! n = Going (r # rest) \<Longrightarrow> lock_step W (asked n W)"
  using lock_step.ask [of n W "fst r" "snd r" rest] by (cases r) (simp add: asked_def)

lemma granted_step:
  "(case queue_of W l of
      [] \<Rightarrow> False
    | (n, m) # q \<Rightarrow>
        grantable m (held_by W l) \<and>
        (case callers W ! n of Blocked l' m' rest \<Rightarrow> l' = l \<and> m' = m | _ \<Rightarrow> False)) \<Longrightarrow>
   lock_step W (granted l W)"
  by (auto simp: granted_def split: list.splits prod.splits progress.splits intro: lock_step.grant)

definition race_under_way :: lock_race where
  "race_under_way = asked 1 (granted Tokens (asked 0 (calls_start [CallIssue, CallStartSession])))"

lemmas race_simps = asked_def granted_def calls_start_def lock_start_def

lemma race_under_way_reachable:
  "lock_reachable (calls_start [CallIssue, CallStartSession]) race_under_way"
proof -
  let ?W = "calls_start [CallIssue, CallStartSession]"
  have "lock_step ?W (asked 0 ?W)"
    by (rule asked_step) (simp_all add: race_simps)
  also have "lock_step\<^sup>*\<^sup>* \<dots> (granted Tokens (asked 0 ?W))"
    by (rule r_into_rtranclp, rule granted_step) (simp_all add: race_simps)
  also have "lock_step\<^sup>*\<^sup>* \<dots> race_under_way"
    unfolding race_under_way_def
    by (rule r_into_rtranclp, rule asked_step) (simp_all add: race_simps)
  finally show ?thesis by (simp add: lock_reachable_def)
qed

text \<open>
  C24: Any number of calls of the token store's methods, interleaved in any way under fair
  reader-writer locks, never deadlock: in every reachable state in which some call has not returned
  some call can go on, no run goes on forever, and every state can be continued until all calls
  have returned.
\<close>

theorem store_calls_never_deadlock:
  assumes "lock_reachable (calls_start cs) W"
  shows "(\<not> all_returned W \<longrightarrow> (\<exists>W'. lock_step W W')) \<and>
    (\<forall>W'. lock_step W W' \<longrightarrow> lock_rank W' < lock_rank W) \<and>
    (\<exists>W'. lock_reachable W W' \<and> all_returned W')"
proof -
  have "calls_inv W"
    using calls_reach [OF assms] by (auto simp: calls_inv_def)
  then show ?thesis
    using store_calls.goes_on store_calls.descends store_calls.finishes
    by (simp add: lock_reachable_def)
qed

lemma store_calls_never_deadlock_witness:
  "\<not> all_returned race_under_way \<and> (\<exists>W'. lock_step race_under_way W') \<and>
   (\<exists>W'. lock_reachable race_under_way W' \<and> all_returned W')"
proof -
  have "\<not> all_returned race_under_way"
    by (simp add: all_returned_def race_under_way_def race_simps)
  with store_calls_never_deadlock [OF race_under_way_reachable] show ?thesis by blast
qed

definition opposite_orders :: "plan list" where
  "opposite_orders = [[(Tokens, Write), (Sessions, Read)], [(Sessions, Write), (Tokens, Read)]]"

lemma opposite_orders_deadlock:
  "\<exists>W. lock_reachable (lock_start opposite_orders) W \<and> \<not> all_returned W \<and> (\<nexists>W'. lock_step W W')"
proof -
  let ?W0 = "lock_start opposite_orders"
  let ?W1 = "granted Tokens (asked 0 ?W0)"
  let ?W2 = "granted Sessions (asked 1 ?W1)"
  let ?W3 = "asked 1 (asked 0 ?W2)"
  note simps = asked_def granted_def lock_start_def opposite_orders_def
  have "lock_step ?W0 (asked 0 ?W0)" by (rule asked_step) (simp_all add: simps)
  also have "lock_step\<^sup>*\<^sup>* \<dots> ?W1" by (rule r_into_rtranclp, rule granted_step) (simp_all add: simps)
  also have "lock_step\<^sup>*\<^sup>* \<dots> (asked 1 ?W1)" by (rule r_into_rtranclp, rule asked_step) (simp_all add: simps)
  also have "lock_step\<^sup>*\<^sup>* \<dots> ?W2" by (rule r_into_rtranclp, rule granted_step) (simp_all add: simps)
  also have "lock_step\<^sup>*\<^sup>* \<dots> (asked 0 ?W2)" by (rule r_into_rtranclp, rule asked_step) (simp_all add: simps)
  also have "lock_step\<^sup>*\<^sup>* \<dots> ?W3" by (rule r_into_rtranclp, rule asked_step) (simp_all add: simps)
  finally have "lock_reachable ?W0 ?W3" by (simp add: lock_reachable_def)
  moreover have "\<not> all_returned ?W3" by (simp add: simps all_returned_def)
  moreover have "\<not> lock_step ?W3 W'" for W'
  proof
    assume "lock_step ?W3 W'"
    then show False
    proof cases
      case (ask n l m rest)
      then show False by (cases n) (simp_all add: simps less_Suc_eq)
    next
      case (grant l n m q rest)
      then show False by (cases l) (auto simp: simps)
    next
      case (return n)
      then show False by (cases n) (simp_all add: simps less_Suc_eq)
    qed
  qed
  ultimately show ?thesis by blast
qed

text \<open>The calls that write the file, and a call that is past its locks, where it writes.\<close>

definition writes_file :: "store_call \<Rightarrow> bool" where
  "writes_file c \<longleftrightarrow> c \<in> {CallIssue, CallRevoke True, CallStartSession, CallEndSession}"

definition writing :: "store_call list \<Rightarrow> lock_race \<Rightarrow> nat \<Rightarrow> bool" where
  "writing cs W n \<longleftrightarrow> n < length cs \<and> writes_file (cs ! n) \<and> callers W ! n = Going []"

lemma ex_lock: "(\<exists>l. P l) \<longleftrightarrow> P Tokens \<or> P Sessions"
  by (metis lock.exhaust)

lemma ex_mode: "(\<exists>m. P m) \<longleftrightarrow> P Read \<or> P Write"
  by (metis mode.exhaust)

lemma writers_clash:
  "writes_file c \<Longrightarrow> writes_file c' \<Longrightarrow>
   \<exists>l m m'. (l, m) \<in> set (locks_of c) \<and> (l, m') \<in> set (locks_of c') \<and> \<not> (m = Read \<and> m' = Read)"
  unfolding writes_file_def by (elim insertE emptyE) (simp_all add: ex_lock ex_mode)

text \<open>
  No two calls write the store file at the same time, whatever they are and however the calls
  interleave: two writers never share the temporary file, and each writes both maps as they are.
\<close>

theorem one_writer_at_a_time:
  assumes "lock_reachable (calls_start cs) W" "writing cs W n" "writing cs W k"
  shows "n = k"
proof (rule ccontr)
  assume "n \<noteq> k"
  have inv: "holds_right (map locks_of cs) W" "guards_right W"
    using calls_reach [OF assms(1)] by (simp_all add: lock_inv_def)
  have all: "(i, m) \<in> set (held_by W l)" if "writing cs W i" "(l, m) \<in> set (locks_of (cs ! i))" for i l m
  proof -
    from that inv(1) have "\<exists>got. locks_of (cs ! i) = got @ to_come (Going []) \<and>
        (\<forall>l m. (i, m) \<in> set (held_by W l) \<longleftrightarrow> (l, m) \<in> set got)"
      unfolding writing_def holds_right_def by (metis length_map nth_map progress.distinct(3))
    with that(2) show ?thesis by simp
  qed
  have clash: "m = Read \<and> m' = Read"
    if "(l, m) \<in> set (locks_of (cs ! n))" "(l, m') \<in> set (locks_of (cs ! k))" for l m m'
    using inv(2) all [OF assms(2) that(1)] all [OF assms(3) that(2)] \<open>n \<noteq> k\<close>
    unfolding guards_right_def by blast
  have "writes_file (cs ! n)" "writes_file (cs ! k)"
    using assms(2,3) by (simp_all add: writing_def)
  from writers_clash [OF this] clash show False by blast
qed

lemma one_writer_at_a_time_witness:
  "writing [CallIssue, CallVerify] (granted Sessions (asked 0 (granted Tokens (asked 0
     (calls_start [CallIssue, CallVerify]))))) 0 \<and>
   \<not> writing [CallIssue, CallVerify] (granted Sessions (asked 0 (granted Tokens (asked 0
     (calls_start [CallIssue, CallVerify]))))) 1"
proof -
  let ?W = "calls_start [CallIssue, CallVerify]"
  let ?W1 = "granted Tokens (asked 0 ?W)"
  let ?W2 = "granted Sessions (asked 0 ?W1)"
  have "lock_step ?W (asked 0 ?W)" by (rule asked_step) (simp_all add: race_simps)
  also have "lock_step\<^sup>*\<^sup>* \<dots> ?W1" by (rule r_into_rtranclp, rule granted_step) (simp_all add: race_simps)
  also have "lock_step\<^sup>*\<^sup>* \<dots> (asked 0 ?W1)" by (rule r_into_rtranclp, rule asked_step) (simp_all add: race_simps)
  also have "lock_step\<^sup>*\<^sup>* \<dots> ?W2" by (rule r_into_rtranclp, rule granted_step) (simp_all add: race_simps)
  finally have r: "lock_reachable ?W ?W2" by (simp add: lock_reachable_def)
  have w: "writing [CallIssue, CallVerify] ?W2 0"
    by (simp add: writing_def writes_file_def race_simps)
  with one_writer_at_a_time [OF r w, of 1] show ?thesis by auto
qed

end
