(* ===== verification/Spec2Isabelle.thy ===== *)
theory Spec2Isabelle
  imports Shell_Tests Power_Loss Machine_Properties Stub_Properties Tool_Properties Heartbeat Source_Properties Token_Properties Delivery_Race Store_Locks
begin

text \<open>
  \<^bold>\<open>almanac\<close> is a small hub between event sources and Google Calendar. A source posts an event over
  HTTP; the event is written to a journal on disk and answered; a background worker delivers it to
  the calendar the source's profile names, and marks it done. Every theory here is a translation of
  files under src/src; a file is named below by its path under that directory.

  \<^bold>\<open>How the parts interact.\<close> A request reaches one of the handlers of shell/ingest.rs through the
  kit's door, which names the caller. The handler looks the source up among the profiles in memory,
  checks the payload against the same mapping the delivery will use (core/request.rs,
  core/mapping.rs), appends the entry to the journal (core/journal.rs, shell/journal.rs) and
  answers 202; the synchronous variant goes on to deliver at once. The worker (shell/worker.rs)
  reads the journal, delivers each pending entry (shell/delivery.rs) through the client
  (shell/calendar_client.rs) with a token from the manager (shell/auth.rs), appends a marker, keeps
  its pace by core/pacing.rs and compacts the journal from time to time. The dashboard
  (shell/dashboard.rs) and the kit's hooks (shell/kit.rs) add and remove profile files
  (shell/profiles.rs) and calendars and reload the profiles. The operator's routes (shell/admin.rs)
  only look. main.rs puts all of it together.

  \<^bold>\<open>The theories, from the bottom up.\<close>
    \<^item> Prelude: text as UTF-8 bytes with the string routines the code calls, decimal numbers, paths.
      Errors: core/error.rs, core/retry.rs, core/auth.rs; \<open>almanac_error + 'a\<close> is \<open>Result\<close>, and
      \<open>outcome\<close> has the third value \<open>Panic\<close>. Json: \<open>serde_json::Value\<close> and the derive attributes.
      Files: a file system as a map, and the write-flush-rename replacement three modules share.
      Machines: runs of a step relation, their invariants and their length.
    \<^item> Calendar_Model (core/calendar.rs, core/colors.rs, core/upsert.rs), Profile (core/profile.rs),
      Request (core/request.rs, core/mapping.rs): the data and the mapping from a payload to an
      event. Request_Properties: what an accepted payload becomes.
    \<^item> Journal_Records (core/journal.rs): the log, its replay, and the board of statuses it refines.
      Journal_Disk (shell/journal.rs): append, read, compact. Journal_Codec: the JSON of a record.
      Journal_Properties: nothing accepted is lost, torn tails, the full journal.
    \<^item> Observability (core/observability.rs, core/metrics.rs), Display (core/html.rs,
      core/humanise.rs), Pacing (core/pacing.rs).
    \<^item> Token_Manager (shell/auth.rs), Calendar_Client (shell/calendar_client.rs), Delivery
      (shell/delivery.rs) as functions of the outside world; Delivery_Race: any number of deliveries
      and deletions interleaved call by call, with writes whose answer is lost and that are sent again,
      as a step relation. Google_Properties: tokens, retries, convergence, and where a second event
      with the same key can come from: a lost answer, and never the interleaving.
    \<^item> App (the shared state of shell/ingest.rs, shell/notify.rs), Ingest (its handlers), Worker
      (shell/worker.rs). Service_Properties: from the door to the calendar.
    \<^item> Profile_Store (shell/profiles.rs), Sources (shell/dashboard.rs and the hooks of shell/kit.rs),
      Status (shell/admin.rs and the pages of shell/kit.rs). Source_Properties: which file serves,
      what adding and removing a source does, the calendar pages.
    \<^item> Secrets (core/secrets.rs, core/token.rs), Ordered_Map (\<open>BTreeMap\<close>), Token_Store
      (shell/token_store.rs), Store_Locks (its two locks as a step relation), Token_Import (the
      import of shell/kit.rs). Token_Properties: the file as the memory of what was acknowledged.
    \<^item> Durability (shell/durability.rs, and the system calls of the journal, the token store and the
      profile writer): inodes and names, with everything the platter may hold beside what is seen.
      Power_Loss: what was acknowledged survives power cuts, torn lines and restarts, the two cases in
      which it does not, and what a cut leaves of a profile.
    \<^item> Startup (main.rs, core/paths.rs, shell/datadir.rs, the knob of shell/heartbeat.rs), from
      the environment to the flush at the end;
      Startup_Properties: outages, restarts, the second process.
    \<^item> Service_Machine: the routers and the running service as a step relation over requests, hooks,
      cache fills, worker ticks and changes that others make to any file but the journal.
      Machine_Properties: what holds in every state reached from a start, and the fate of an accepted
      event over the life of the process.
    \<^item> Heartbeat (the task of shell/heartbeat.rs). Tools (the command-line tools under examples/);
      Tool_Properties: which of them only read, and what a second run does.
    \<^item> Google_Stub (shell/testing.rs): the servers the end-to-end tests run against, as an outside
      world. Stub_Properties: the program against it. A search finds exactly the events with the key,
      an outage is ridden out, and a pass with nothing refused delivers everything.
    \<^item> Core_Tests and Shell_Tests: the repository's own unit tests, of the modules under core/ and of
      the journal, the notifier, the heartbeat's knob and the data directory, restated over the model
      and proved; those of the journal hold for every codec with the laws of \<open>record_codec\<close>.

  \<^bold>\<open>State.\<close> \<open>'w\<close> is everything outside the process. An operation that talks to it takes it and
  returns it: \<open>services\<close> has the HTTP client, the clock and the signing; \<open>app_env\<close> and \<open>site\<close> add, for
  every use of the disk, the faults that use meets, a fresh UUID and the time. \<open>hub\<close> is the state of
  the client (token cache, counters), \<open>app\<close> that of \<open>AppState\<close>, \<open>worker\<close> that of the delivery loop. A
  handler is one function of that state; what other tasks do between two of its calls to Google is
  the subject of Delivery_Race and Store_Locks.

  \<^bold>\<open>Interfaces.\<close> Each is a locale, interpreted on the model: \<open>delivery_log\<close> (what the worker relies on
  of the journal; interpreted on the log as \<open>log\<close>), \<open>atomic_replace\<close> (interpreted as \<open>compaction\<close>,
  \<open>profile_files\<close> and \<open>token_files\<close>), \<open>keyed_locks\<close> (\<open>locks\<close>), \<open>bounded_history\<close> (\<open>ring\<close>), \<open>ordered_map\<close>
  (\<open>bt\<close>), \<open>sealed_box\<close> (\<open>box\<close>) and \<open>durable_replace\<close> (\<open>compact_cut\<close>, \<open>store_cut\<close>). \<open>machine\<close> (a step relation and what its steps keep) and
  \<open>finishing_machine\<close> (every step lowers a measure) extend one another and are interpreted on the
  step relations of the program: \<open>race\<close> (deliveries interleaved), \<open>lock_runs\<close> and \<open>store_calls\<close> (the
  token store), \<open>tidy_runs\<close> and \<open>paced_runs\<close> (the running service).

  \<^bold>\<open>Parameters and hypotheses.\<close> Code that is not in the repository is a parameter: chrono and
  chrono_tz (\<open>crates\<close>, with \<open>chrono_ok\<close>), serde's reading of a request (\<open>serde_reads_request\<close>: it
  agrees with the derive attributes, which \<open>event_request_of_json\<close> spells out), toml (\<open>toml_crate\<close>),
  serde_json's text (\<open>record_codec\<close>: a record is one line that reads back, and no proper beginning of
  it reads at all; \<open>json_text_ok\<close>), the retry loop (\<open>retry_ok\<close>: its last attempt
  decides; \<open>has_time\<close>: time does not end it before that many retries), what Google does with a request
  whose answer is lost (\<open>answers_lost\<close>), the cipher, hash and hex
  (\<open>crypto_ok\<close>), the kit's client store (\<open>kit_writes\<close>, \<open>kit_frame\<close>) and the order of directory listings
  and hash maps (\<open>lists_dir\<close>, \<open>walks_maps\<close>). \<open>whole_writes\<close> excludes an append that the disk cuts short
  while the process goes on; what happens without it is \<open>append_after_torn_tail_wedges\<close>. Each is met
  by a concrete instance, to which the witnesses apply the properties.

  \<^bold>\<open>Loops and bounds.\<close> Retries are a relation over the attempts made (\<open>retry_run\<close>), not a count; how
  many the schedule's 60 seconds allow is not computed, and a property that needs some says so by
  \<open>has_time\<close>. The
  start's wait for Google is a \<open>partial_function\<close>: its value is \<open>None\<close> when it never ends, and
  \<open>startup_waits_out_an_outage\<close> shows that it ends with the outage. The worker's loop is a fold over
  the signals that wake it. Counters are 64-bit words; the comparison of sizes in doubles is exact
  rounding; a calendar duration beyond what chrono holds is the value \<open>Panic\<close>.

  \<^bold>\<open>Not modelled.\<close> Matching paths and decoding requests (axum), the kit's login, layout and
  templates, log output other than the heartbeat's and the start's, the flush of the directories that
  \<open>create_dir_all\<close> makes (Durability takes directories to be there), and the ports the test servers
  listen on. Of the unit tests, those that look into a crate (random nonces, digests, time zones).
\<close>

end
